(* ===== verification/Agent_Prelude.thy ===== *)
theory Agent_Prelude
  imports Main "HOL-Library.Word" "HOL-Library.Char_ord" "HOL-Library.List_Lexorder"
begin

text \<open>
  What every component of the model shares: the error codes and the \<open>Result\<close> type of
  \<^verbatim>\<open>include/agent-cpp/agent.hpp\<close>, the string operations of the C++ standard library the
  sources use (\<open>starts_with\<close>, \<open>find\<close>, \<open>to_string\<close>, \<open>from_chars\<close>), and generic lemmas on
  lists and words. Strings are byte strings, as \<open>std::string\<close> is: \<^typ>\<open>string\<close> is
  \<^typ>\<open>char list\<close> and a \<^typ>\<open>char\<close> is one byte.
\<close>

section \<open>Collections of facts\<close>

named_theorems result_simps \<open>evaluation of the Result type\<close>
named_theorems string_simps \<open>evaluation of the string library\<close>

section \<open>Machine integers\<close>

type_synonym u8 = "8 word"
type_synonym u32 = "32 word"
type_synonym u64 = "64 word"

section \<open>Errors and results\<close>

datatype error_code =
    OkCode | InvalidConfig | UnsupportedProvider | FilesystemError | ProviderInitFailed
  | ModelLoadFailed | DecodeFailed | NetworkError | HttpError | ParseError | CancelledCode
  | KeyNotFound | ToolCallLimitExceeded | SandboxViolation | PermissionDenied | EngineCrashed
  | OutOfMemory | ToolError

datatype error = Error (code: error_code) (message: string)

type_synonym 'a result = "error + 'a"

abbreviation ok :: "'a \<Rightarrow> 'a result" where
  "ok v \<equiv> Inr v"

abbreviation fail :: "error_code \<Rightarrow> string \<Rightarrow> 'a result" where
  "fail c m \<equiv> Inl (Error c m)"

definition is_ok :: "'a result \<Rightarrow> bool" where
  "is_ok r \<longleftrightarrow> (case r of Inl _ \<Rightarrow> False | Inr _ \<Rightarrow> True)"

lemma is_ok_simps [simp, result_simps]:
  "is_ok (Inr v)" "\<not> is_ok (Inl e)"
  by (simp_all add: is_ok_def)

lemma is_ok_iff: "is_ok r \<longleftrightarrow> (\<exists>v. r = Inr v)"
  by (cases r) simp_all

section \<open>String library\<close>

definition starts_with :: "string \<Rightarrow> string \<Rightarrow> bool" where
  "starts_with s p \<longleftrightarrow> take (length p) s = p"

lemma starts_with_append [simp]: "starts_with (p @ s) p"
  by (simp add: starts_with_def)

lemma starts_with_iff: "starts_with s p \<longleftrightarrow> (\<exists>t. s = p @ t)"
  by (auto simp: starts_with_def) (metis append_take_drop_id)

text \<open>\<open>std::to_string\<close> of an unsigned value: its decimal digits, most significant first.\<close>

definition digit_char :: "nat \<Rightarrow> char" where
  "digit_char d = char_of (48 + d)"

fun to_string :: "nat \<Rightarrow> string" where
  "to_string n =
     (if n < 10 then [digit_char n] else to_string (n div 10) @ [digit_char (n mod 10)])"

declare to_string.simps [simp del]

definition to_string_int :: "int \<Rightarrow> string" where
  "to_string_int i = (if i < 0 then ''-'' @ to_string (nat (- i)) else to_string (nat i))"

definition is_digit :: "char \<Rightarrow> bool" where
  "is_digit c \<longleftrightarrow> 48 \<le> (of_char c :: nat) \<and> (of_char c :: nat) \<le> 57"

definition digit_value :: "char \<Rightarrow> nat" where
  "digit_value c = of_char c - 48"

text \<open>\<open>std::from_chars\<close> on an unsigned value: the longest prefix of digits; no digit is an error.\<close>

fun digits_value :: "nat \<Rightarrow> string \<Rightarrow> nat" where
  "digits_value acc [] = acc"
| "digits_value acc (c # cs) =
     (if is_digit c then digits_value (10 * acc + digit_value c) cs else acc)"

definition from_chars :: "string \<Rightarrow> nat option" where
  "from_chars s = (case s of [] \<Rightarrow> None | c # _ \<Rightarrow> if is_digit c then Some (digits_value 0 s) else None)"

lemma digit_char_is_digit [simp]: "d < 10 \<Longrightarrow> is_digit (digit_char d)"
  by (simp add: is_digit_def digit_char_def)

lemma digit_value_digit_char [simp]: "d < 10 \<Longrightarrow> digit_value (digit_char d) = d"
  by (simp add: digit_value_def digit_char_def)

lemma digit_char_inj: "\<lbrakk>d < 10; e < 10; digit_char d = digit_char e\<rbrakk> \<Longrightarrow> d = e"
  by (metis digit_value_digit_char)

lemma to_string_nonempty [simp]: "to_string n \<noteq> []"
  by (subst to_string.simps) simp

lemma to_string_digits: "c \<in> set (to_string n) \<Longrightarrow> is_digit c"
proof (induction n rule: to_string.induct)
  case (1 n)
  then show ?case
    by (subst (asm) (2) to_string.simps) (auto split: if_splits)
qed

lemma digits_value_append:
  "(\<And>c. c \<in> set xs \<Longrightarrow> is_digit c) \<Longrightarrow> digits_value acc (xs @ ys) = digits_value (digits_value acc xs) ys"
  by (induction xs arbitrary: acc) auto

lemma digits_value_to_string: "digits_value 0 (to_string n) = n"
proof (induction n rule: to_string.induct)
  case (1 n)
  show ?case
  proof (cases "n < 10")
    case True
    then show ?thesis by (subst to_string.simps) simp
  next
    case False
    with 1 have "digits_value 0 (to_string (n div 10)) = n div 10" by simp
    with False show ?thesis
      by (subst to_string.simps) (simp add: digits_value_append to_string_digits)
  qed
qed

lemma from_chars_to_string [simp]: "from_chars (to_string n) = Some n"
proof (cases "to_string n")
  case Nil
  then show ?thesis by simp
next
  case (Cons c cs)
  then have "is_digit c" using to_string_digits [of c n] by simp
  then have "from_chars (c # cs) = Some (digits_value 0 (c # cs))"
    by (simp add: from_chars_def)
  with Cons show ?thesis by (metis digits_value_to_string)
qed

lemma to_string_inj [simp]: "to_string m = to_string n \<longleftrightarrow> m = n"
  by (metis from_chars_to_string option.inject)

lemma digit_not_in_to_string: "\<not> is_digit c \<Longrightarrow> c \<notin> set (to_string n)"
  by (auto dest: to_string_digits)

section \<open>Splitting at a separator\<close>

text \<open>
  Keys of the form \<open>a : b\<close> whose last field has no separator split uniquely; the store keys of
  the checkpointers and the chunk ids of the RAG index rest on it.
\<close>

lemma append_sep_inject:
  assumes "x \<notin> set b" "x \<notin> set d" "a @ x # b = c @ x # d"
  shows "a = c \<and> b = d"
proof -
  have "rev b @ x # rev a = rev d @ x # rev c"
    using assms(3) by (metis append.assoc append_Cons append_Nil rev.simps(2) rev_append)
  moreover have "takeWhile (\<lambda>y. y \<noteq> x) (rev b @ x # rev a) = rev b"
    using assms(1) by (subst takeWhile_append2) auto
  moreover have "takeWhile (\<lambda>y. y \<noteq> x) (rev d @ x # rev c) = rev d"
    using assms(2) by (subst takeWhile_append2) auto
  ultimately have "rev b = rev d" by simp
  with assms(3) show ?thesis by simp
qed

section \<open>Lists\<close>

lemma nth_take_drop_middle:
  "i \<le> j \<Longrightarrow> j \<le> length xs \<Longrightarrow> take i xs @ take (j - i) (drop i xs) @ drop j xs = xs"
  by (metis append_take_drop_id drop_drop le_add_diff_inverse2)

lemma sum_list_take_drop:
  "(\<Sum>x\<leftarrow>xs. f x) = (\<Sum>x\<leftarrow>take n xs. f x) + (\<Sum>x\<leftarrow>drop n xs. f x :: int)"
  by (metis append_take_drop_id map_append sum_list_append)

end
