(* ===== verification/Utf8.thy ===== *)
theory Utf8
  imports Agent_Prelude
begin

text \<open>
  UTF-8 handling of tool output, \<^verbatim>\<open>src/core/utils/utils.cpp\<close>: \<open>utf8_sequence_length\<close>,
  \<open>utf8_prefix_length\<close> and \<open>sanitize_utf8\<close>. They are compared with a reference encoder of
  Unicode scalar values (RFC 3629): a byte string is UTF-8 when it is the concatenation of
  encoded scalar values.
\<close>

section \<open>The source's functions\<close>

definition byte :: "string \<Rightarrow> nat \<Rightarrow> nat" where
  "byte s k = of_char (s ! k)"

text \<open>
  The lead byte decides the length and the range of the second byte: \<open>(n, lo, hi)\<close>.
\<close>

definition lead_range :: "nat \<Rightarrow> (nat \<times> nat \<times> nat) option" where
  "lead_range c =
     (if 0xC2 \<le> c \<and> c \<le> 0xDF then Some (2, 0x80, 0xBF)
      else if 0xE0 \<le> c \<and> c \<le> 0xEF then
        Some (3, if c = 0xE0 then 0xA0 else 0x80, if c = 0xED then 0x9F else 0xBF)
      else if 0xF0 \<le> c \<and> c \<le> 0xF4 then
        Some (4, if c = 0xF0 then 0x90 else 0x80, if c = 0xF4 then 0x8F else 0xBF)
      else None)"

definition utf8_sequence_length :: "string \<Rightarrow> nat \<Rightarrow> nat" where
  "utf8_sequence_length s i =
     (let c = byte s i in
      if c < 0x80 then 1
      else case lead_range c of
             None \<Rightarrow> 0
           | Some (n, lo, hi) \<Rightarrow>
               if i + n > length s then 0
               else if byte s (i + 1) < lo \<or> byte s (i + 1) > hi then 0
               else if list_ex (\<lambda>k. byte s (i + k) < 0x80 \<or> byte s (i + k) > 0xBF) [2..<n] then 0
               else n)"

text \<open>\<open>(unsigned char)c & 0xC0) == 0x80\<close>.\<close>

definition is_continuation :: "char \<Rightarrow> bool" where
  "is_continuation c \<longleftrightarrow> 0x80 \<le> (of_char c :: nat) \<and> (of_char c :: nat) < 0xC0"

text \<open>
  The loop of \<open>utf8_prefix_length\<close> that backs over at most three continuation bytes: the new
  \<open>cut\<close> (here \<open>c\<close>). \<open>left\<close> is \<open>3 - back\<close>.
\<close>

fun back_up :: "string \<Rightarrow> nat \<Rightarrow> nat \<Rightarrow> nat" where
  "back_up s 0 c = c"
| "back_up s (Suc left) c =
     (if c > 0 \<and> is_continuation (s ! c) then back_up s left (c - 1) else c)"

definition utf8_prefix_length :: "string \<Rightarrow> nat \<Rightarrow> nat" where
  "utf8_prefix_length s lim =
     (if lim \<ge> length s then length s
      else
        let c = back_up s 3 lim
        in if c = 0 \<and> is_continuation (s ! 0) then lim
           else let n = utf8_sequence_length s c
                in if n \<noteq> 0 \<and> c + n \<le> lim then c + n else c)"

text \<open>The first loop of \<open>sanitize_utf8\<close>: the end of the well-formed prefix from \<open>i\<close> on.\<close>

function valid_upto :: "string \<Rightarrow> nat \<Rightarrow> nat" where
  "valid_upto s i =
     (if i < length s then
        (let n = utf8_sequence_length s i in if n = 0 then i else valid_upto s (i + n))
      else i)"
  by pat_completeness auto
termination
  by (relation "measure (\<lambda>(s, i). length s - i)") auto

definition replacement :: string where
  "replacement = [CHR 0xEF, CHR 0xBF, CHR 0xBD]"

text \<open>Its second loop: every byte outside a well-formed sequence becomes U+FFFD.\<close>

function sanitize_from :: "string \<Rightarrow> nat \<Rightarrow> string \<Rightarrow> string" where
  "sanitize_from s i out =
     (if i < length s then
        (let n = utf8_sequence_length s i in
         if n = 0 then sanitize_from s (i + 1) (out @ replacement)
         else sanitize_from s (i + n) (out @ take n (drop i s)))
      else out)"
  by pat_completeness auto
termination
  by (relation "measure (\<lambda>(s, i, out). length s - i)") auto

declare valid_upto.simps [simp del] sanitize_from.simps [simp del]

definition sanitize_utf8 :: "string \<Rightarrow> string" where
  "sanitize_utf8 s =
     (let i = valid_upto s 0 in if i = length s then s else sanitize_from s i (take i s))"

section \<open>Reference: encoded scalar values\<close>

definition scalar :: "nat \<Rightarrow> bool" where
  "scalar cp \<longleftrightarrow> cp < 0x110000 \<and> \<not> (0xD800 \<le> cp \<and> cp \<le> 0xDFFF)"

definition encode_scalar :: "nat \<Rightarrow> string" where
  "encode_scalar cp = map char_of
     (if cp < 0x80 then [cp]
      else if cp < 0x800 then [0xC0 + cp div 64, 0x80 + cp mod 64]
      else if cp < 0x10000 then [0xE0 + cp div 4096, 0x80 + cp div 64 mod 64, 0x80 + cp mod 64]
      else [0xF0 + cp div 262144, 0x80 + cp div 4096 mod 64, 0x80 + cp div 64 mod 64, 0x80 + cp mod 64])"

inductive utf8_text :: "string \<Rightarrow> bool" where
  empty: "utf8_text []"
| step: "scalar cp \<Longrightarrow> utf8_text s \<Longrightarrow> utf8_text (encode_scalar cp @ s)"

lemma utf8_text_append: "utf8_text s \<Longrightarrow> utf8_text t \<Longrightarrow> utf8_text (s @ t)"
  by (induction rule: utf8_text.induct) (auto intro: utf8_text.step)

lemma utf8_text_scalar: "scalar cp \<Longrightarrow> utf8_text (encode_scalar cp)"
  using utf8_text.step [OF _ utf8_text.empty] by simp

lemma utf8_text_iff: "utf8_text s \<longleftrightarrow> (\<exists>cps. list_all scalar cps \<and> s = concat (map encode_scalar cps))"
proof
  show "utf8_text s \<Longrightarrow> \<exists>cps. list_all scalar cps \<and> s = concat (map encode_scalar cps)"
  proof (induction rule: utf8_text.induct)
    case empty
    then show ?case by (intro exI [of _ "[]"]) simp
  next
    case (step cp s)
    then obtain cps where "list_all scalar cps" "s = concat (map encode_scalar cps)" by blast
    with step show ?case by (intro exI [of _ "cp # cps"]) simp
  qed
next
  assume "\<exists>cps. list_all scalar cps \<and> s = concat (map encode_scalar cps)"
  then obtain cps where "list_all scalar cps" "s = concat (map encode_scalar cps)" by blast
  then show "utf8_text s"
    by (induction cps arbitrary: s) (auto intro: utf8_text.intros)
qed

lemma encode_scalar_length: "1 \<le> length (encode_scalar cp)" "length (encode_scalar cp) \<le> 4"
  by (auto simp: encode_scalar_def)

lemma encode_scalar_nonempty [simp]: "encode_scalar cp \<noteq> []"
  using encode_scalar_length(1) [of cp] by auto

section \<open>One sequence\<close>

lemma sequence_length_shift:
  assumes "i < length s"
  shows "utf8_sequence_length s i = utf8_sequence_length (drop i s) 0"
proof -
  have len: "length s < i + n \<longleftrightarrow> length (drop i s) < 0 + n" for n using assms by auto
  have at: "byte s (i + k) = byte (drop i s) (0 + k)" for k using assms by (simp add: byte_def)
  have lead: "byte s i = byte (drop i s) 0" using assms by (simp add: byte_def)
  show ?thesis unfolding utf8_sequence_length_def by (simp only: len at lead)
qed

lemma upt_2_3: "[2..<3] = [2::nat]" and upt_2_4: "[2..<4] = [2::nat, 3]"
  by (simp_all add: upt_rec)

lemma sequence_length_1: "(a::nat) < 128 \<Longrightarrow> utf8_sequence_length (char_of a # rest) 0 = 1"
  by (simp add: utf8_sequence_length_def byte_def)

lemma sequence_length_2:
  fixes a b :: nat
  shows "\<lbrakk>2 \<le> a; a < 32; b < 64\<rbrakk> \<Longrightarrow>
    utf8_sequence_length (char_of (192 + a) # char_of (128 + b) # rest) 0 = 2"
  by (simp add: utf8_sequence_length_def byte_def lead_range_def Let_def)

lemma sequence_length_3:
  fixes a b c :: nat
  shows "\<lbrakk>a < 16; b < 64; c < 64; a = 0 \<longrightarrow> 32 \<le> b; a = 13 \<longrightarrow> b < 32\<rbrakk> \<Longrightarrow>
    utf8_sequence_length (char_of (224 + a) # char_of (128 + b) # char_of (128 + c) # rest) 0 = 3"
  by (simp add: utf8_sequence_length_def byte_def lead_range_def Let_def upt_2_3) auto

lemma sequence_length_4:
  fixes a b c d :: nat
  shows "\<lbrakk>a < 5; b < 64; c < 64; d < 64; a = 0 \<longrightarrow> 16 \<le> b; a = 4 \<longrightarrow> b < 16\<rbrakk> \<Longrightarrow>
    utf8_sequence_length (char_of (240 + a) # char_of (128 + b) # char_of (128 + c) # char_of (128 + d) # rest) 0 = 4"
  by (simp add: utf8_sequence_length_def byte_def lead_range_def Let_def upt_2_4) auto

lemma radix_64: "r < (64::nat) \<Longrightarrow> (q * 64 + r) div 64 = q \<and> (q * 64 + r) mod 64 = r"
  by simp

lemma radix_64_split: obtains q r :: nat where "n = q * 64 + r" "r < 64"
  by (metis div_mod_decomp mod_less_divisor zero_less_numeral)

lemma div_64_64: "(n::nat) div 64 div 64 = n div 4096" "(n::nat) div 4096 div 64 = n div 262144"
  by simp_all

lemma encode_1: "a < 128 \<Longrightarrow> scalar a \<and> encode_scalar a = [char_of a]"
  by (simp add: scalar_def encode_scalar_def)

lemma encode_2:
  assumes "2 \<le> a" "a < 32" "b < 64"
  shows "scalar (64 * a + b) \<and> encode_scalar (64 * a + b) = [char_of (192 + a), char_of (128 + b)]"
  using assms by (simp add: scalar_def encode_scalar_def)

lemma encode_3:
  assumes "a < 16" "b < 64" "c < 64" "a = 0 \<longrightarrow> 32 \<le> b" "a = 13 \<longrightarrow> b < 32"
  shows "scalar (4096 * a + 64 * b + c) \<and>
    encode_scalar (4096 * a + 64 * b + c) = [char_of (224 + a), char_of (128 + b), char_of (128 + c)]"
proof -
  define cp where "cp = 4096 * a + 64 * b + c"
  have "cp = (a * 64 + b) * 64 + c" by (simp add: cp_def)
  then have low: "cp div 64 = a * 64 + b" "cp mod 64 = c" using radix_64 [OF assms(3)] by metis+
  then have parts: "cp div 4096 = a" "cp div 64 mod 64 = b" "cp mod 64 = c"
    using radix_64 [OF assms(2)] div_64_64 by metis+
  have "2048 \<le> cp" "cp < 65536" using assms unfolding cp_def by (cases "a = 0"; simp)+
  moreover have "scalar cp"
  proof -
    consider "a < 13" | "a = 13" | "13 < a" by linarith
    then show ?thesis using assms unfolding cp_def scalar_def by cases auto
  qed
  ultimately show ?thesis unfolding cp_def [symmetric] by (simp add: encode_scalar_def parts)
qed

lemma encode_4:
  assumes "a < 5" "b < 64" "c < 64" "d < 64" "a = 0 \<longrightarrow> 16 \<le> b" "a = 4 \<longrightarrow> b < 16"
  shows "scalar (262144 * a + 4096 * b + 64 * c + d) \<and>
    encode_scalar (262144 * a + 4096 * b + 64 * c + d) =
      [char_of (240 + a), char_of (128 + b), char_of (128 + c), char_of (128 + d)]"
proof -
  define cp where "cp = 262144 * a + 4096 * b + 64 * c + d"
  have "cp = ((a * 64 + b) * 64 + c) * 64 + d" by (simp add: cp_def)
  then have low: "cp div 64 = (a * 64 + b) * 64 + c" "cp mod 64 = d" using radix_64 [OF assms(4)] by metis+
  then have mid: "cp div 4096 = a * 64 + b" using radix_64 [OF assms(3)] div_64_64 by metis
  then have parts: "cp div 262144 = a" "cp div 4096 mod 64 = b" "cp div 64 mod 64 = c" "cp mod 64 = d"
    using low radix_64 [OF assms(2)] radix_64 [OF assms(3)] div_64_64 by metis+
  have "65536 \<le> cp" "cp < 1114112" using assms unfolding cp_def by (cases "a = 0"; cases "a = 4"; simp)+
  then show ?thesis unfolding cp_def [symmetric] by (simp add: encode_scalar_def parts scalar_def)
qed

lemma scalar_cases:
  assumes "scalar cp"
  obtains (one) "cp < 128"
  | (two) a b where "2 \<le> a" "a < 32" "b < 64" "cp = 64 * a + b"
  | (three) a b c where "a < 16" "b < 64" "c < 64" "a = 0 \<longrightarrow> 32 \<le> b" "a = 13 \<longrightarrow> b < 32" "cp = 4096 * a + 64 * b + c"
  | (four) a b c d where "a < 5" "b < 64" "c < 64" "d < 64" "a = 0 \<longrightarrow> 16 \<le> b" "a = 4 \<longrightarrow> b < 16"
      "cp = 262144 * a + 4096 * b + 64 * c + d"
proof -
  consider "cp < 128" | "128 \<le> cp" "cp < 2048" | "2048 \<le> cp" "cp < 65536" | "65536 \<le> cp" "cp < 1114112"
    using assms by (fastforce simp: scalar_def)
  then show thesis
  proof cases
    case 1
    then show thesis by (rule one)
  next
    case 2
    obtain a b where "cp = a * 64 + b" "b < 64" by (rule radix_64_split)
    with 2 show thesis by (intro two [of a b]) linarith+
  next
    case 3
    obtain q c where q: "cp = q * 64 + c" "c < 64" by (rule radix_64_split)
    obtain a b where a: "q = a * 64 + b" "b < 64" by (rule radix_64_split)
    show thesis using 3 q a assms unfolding scalar_def by (intro three [of a b c]) linarith+
  next
    case 4
    obtain q d where q: "cp = q * 64 + d" "d < 64" by (rule radix_64_split)
    obtain p c where p: "q = p * 64 + c" "c < 64" by (rule radix_64_split)
    obtain a b where a: "p = a * 64 + b" "b < 64" by (rule radix_64_split)
    show thesis using 4 q p a by (intro four [of a b c d]) linarith+
  qed
qed

lemma sequence_length_encode:
  assumes "scalar cp"
  shows "utf8_sequence_length (encode_scalar cp @ rest) 0 = length (encode_scalar cp)"
  using assms
proof (cases rule: scalar_cases)
  case one
  then show ?thesis by (simp add: encode_1 sequence_length_1)
next
  case (two a b)
  then show ?thesis by (simp add: encode_2 sequence_length_2)
next
  case (three a b c)
  then show ?thesis by (simp add: encode_3 sequence_length_3)
next
  case (four a b c d)
  then show ?thesis by (simp add: encode_4 sequence_length_4)
qed

lemma upt_0_2: "[0..<2] = [0, 1]" and upt_0_3: "[0..<3] = [0, 1, 2]" and upt_0_4: "[0..<4] = [0, 1, 2, 3]"
  by (simp_all add: upt_rec)

lemma byte_char: "char_of (byte s k) = s ! k" "byte s k < 256"
  by (simp_all add: byte_def)

lemma sequence_length_le: "i < length s \<Longrightarrow> i + utf8_sequence_length s i \<le> length s"
  by (auto simp: utf8_sequence_length_def Let_def split: option.split)

lemma take_nth_bytes:
  assumes "n \<le> length xs"
  shows "take n xs = map (\<lambda>k. char_of (byte xs k)) [0..<n]"
  using assms by (intro nth_equalityI) (simp_all add: byte_char)

lemma sequence_length_sound:
  assumes "xs \<noteq> []" "utf8_sequence_length xs 0 \<noteq> 0"
  shows "\<exists>cp. scalar cp \<and> take (utf8_sequence_length xs 0) xs = encode_scalar cp"
proof (cases "byte xs 0 < 128")
  case True
  then have "utf8_sequence_length xs 0 = 1" by (simp add: utf8_sequence_length_def)
  with True assms(1) show ?thesis
    by (intro exI [of _ "byte xs 0"]) (simp add: encode_1 take_nth_bytes Suc_le_eq)
next
  case False
  define n where "n = utf8_sequence_length xs 0"
  have "n \<le> length xs" using sequence_length_le [of 0 xs] assms(1) by (simp add: n_def)
  note bytes = take_nth_bytes [OF this]
  from False assms(2) obtain lo hi where lead: "lead_range (byte xs 0) = Some (n, lo, hi)"
    and second: "lo \<le> byte xs 1" "byte xs 1 \<le> hi"
    and rest: "\<And>k. 2 \<le> k \<Longrightarrow> k < n \<Longrightarrow> 128 \<le> byte xs k \<and> byte xs k \<le> 191"
    unfolding n_def utf8_sequence_length_def
    by (auto simp: Let_def list_ex_iff not_less split: option.splits if_splits)
  have range: "128 \<le> lo" "hi \<le> 191"
    using lead by (auto simp: lead_range_def split: if_splits)
  consider "n = 2" "194 \<le> byte xs 0" "byte xs 0 \<le> 223"
    | "n = 3" "224 \<le> byte xs 0" "byte xs 0 \<le> 239" "byte xs 0 = 224 \<longrightarrow> 160 \<le> lo" "byte xs 0 = 237 \<longrightarrow> hi \<le> 159"
    | "n = 4" "240 \<le> byte xs 0" "byte xs 0 \<le> 244" "byte xs 0 = 240 \<longrightarrow> 144 \<le> lo" "byte xs 0 = 244 \<longrightarrow> hi \<le> 143"
    using lead by (auto simp: lead_range_def split: if_splits)
  moreover define b c d where "b = byte xs 1 - 128" and "c = byte xs 2 - 128" and "d = byte xs 3 - 128"
  ultimately have "\<exists>cp. scalar cp \<and> take n xs = encode_scalar cp"
  proof cases
    case 1
    define a where "a = byte xs 0 - 192"
    have "byte xs 0 = 192 + a" "byte xs 1 = 128 + b" using 1 second range by (simp_all add: a_def b_def)
    with 1 second range bytes encode_2 [of a b] show ?thesis
      by (intro exI [of _ "64 * a + b"]) (simp add: upt_0_2)
  next
    case 2
    define a where "a = byte xs 0 - 224"
    have "byte xs 0 = 224 + a" "byte xs 1 = 128 + b" "byte xs 2 = 128 + c"
      using 2 second range rest [of 2] by (simp_all add: a_def b_def c_def)
    moreover from this 2 rest [of 2] second range
    have "a < 16" "b < 64" "c < 64" "a = 0 \<longrightarrow> 32 \<le> b" "a = 13 \<longrightarrow> b < 32" by auto
    ultimately show ?thesis using 2 bytes encode_3 [of a b c]
      by (intro exI [of _ "4096 * a + 64 * b + c"]) (simp add: upt_0_3)
  next
    case 3
    define a where "a = byte xs 0 - 240"
    have "byte xs 0 = 240 + a" "byte xs 1 = 128 + b" "byte xs 2 = 128 + c" "byte xs 3 = 128 + d"
      using 3 second range rest [of 2] rest [of 3] by (simp_all add: a_def b_def c_def d_def)
    moreover from this 3 rest [of 2] rest [of 3] second range
    have "a < 5" "b < 64" "c < 64" "d < 64" "a = 0 \<longrightarrow> 16 \<le> b" "a = 4 \<longrightarrow> b < 16" by auto
    ultimately show ?thesis using 3 bytes encode_4 [of a b c d]
      by (intro exI [of _ "262144 * a + 4096 * b + 64 * c + d"]) (simp add: upt_0_4)
  qed
  then show ?thesis by (simp add: n_def)
qed

lemma utf8_text_head:
  "xs \<noteq> [] \<Longrightarrow> utf8_text xs \<longleftrightarrow>
     utf8_sequence_length xs 0 \<noteq> 0 \<and> utf8_text (drop (utf8_sequence_length xs 0) xs)"
proof
  show "utf8_sequence_length xs 0 \<noteq> 0 \<and> utf8_text (drop (utf8_sequence_length xs 0) xs)"
    if "utf8_text xs" "xs \<noteq> []"
    using that by (cases rule: utf8_text.cases) (auto simp: sequence_length_encode)
  show "utf8_text xs"
    if "utf8_sequence_length xs 0 \<noteq> 0 \<and> utf8_text (drop (utf8_sequence_length xs 0) xs)" "xs \<noteq> []"
    using that sequence_length_sound [of xs] by (metis append_take_drop_id utf8_text.step)
qed

lemma utf8_text_drop_iff:
  assumes "i < length s"
  shows "utf8_text (drop i s) \<longleftrightarrow>
    utf8_sequence_length s i \<noteq> 0 \<and> utf8_text (drop (i + utf8_sequence_length s i) s)"
  using assms utf8_text_head [of "drop i s"] sequence_length_shift [OF assms] by (simp add: add.commute)

lemma utf8_text_cancel: "utf8_text p \<Longrightarrow> utf8_text (p @ q) \<Longrightarrow> utf8_text q"
proof (induction rule: utf8_text.induct)
  case (step cp s)
  then show ?case
    using utf8_text_head [of "encode_scalar cp @ s @ q"] by (auto simp: sequence_length_encode)
qed simp

section \<open>Sanitizing\<close>

lemma valid_upto_spec:
  "i \<le> length s \<Longrightarrow> utf8_text (take i s) \<Longrightarrow>
     i \<le> valid_upto s i \<and> valid_upto s i \<le> length s \<and> utf8_text (take (valid_upto s i) s) \<and>
     (valid_upto s i = length s \<longleftrightarrow> utf8_text (drop i s))"
proof (induction s i rule: valid_upto.induct)
  case (1 s i)
  show ?case
  proof (cases "i < length s \<and> utf8_sequence_length s i \<noteq> 0")
    case True
    define n where "n = utf8_sequence_length s i"
    have "utf8_text (take n (drop i s))"
      using True sequence_length_sound [of "drop i s"] sequence_length_shift [of i s]
      by (auto simp: n_def dest: utf8_text_scalar)
    then have "utf8_text (take (i + n) s)"
      using 1 by (simp add: take_add utf8_text_append)
    moreover have "i + n \<le> length s" using True sequence_length_le by (simp add: n_def)
    ultimately show ?thesis
      using True "1.IH" [OF _ n_def] utf8_text_drop_iff [of i s] valid_upto.simps [of s i]
      by (simp add: n_def)
  next
    case False
    then show ?thesis
      using 1 utf8_text_drop_iff [of i s] valid_upto.simps [of s i] by (auto intro: utf8_text.empty)
  qed
qed

lemma replacement_text: "utf8_text replacement"
proof -
  have "utf8_sequence_length replacement 0 = 3"
    by (simp add: utf8_sequence_length_def byte_def replacement_def lead_range_def upt_2_3)
  then show ?thesis using utf8_text_head [of replacement] by (simp add: replacement_def utf8_text.empty)
qed

lemma sanitize_from_text: "utf8_text out \<Longrightarrow> utf8_text (sanitize_from s i out)"
proof (induction s i out rule: sanitize_from.induct)
  case (1 s i out)
  have "utf8_text (take (utf8_sequence_length s i) (drop i s))"
    if "i < length s" "utf8_sequence_length s i \<noteq> 0"
    using that sequence_length_sound [of "drop i s"] sequence_length_shift [of i s]
    by (auto dest: utf8_text_scalar)
  then show ?case
    using 1 by (subst sanitize_from.simps) (auto simp: Let_def intro: utf8_text_append replacement_text)
qed

text \<open>
  C36. The text \<open>sanitize_utf8\<close> returns is well-formed UTF-8 (a concatenation of encoded
  Unicode scalar values), and a tool output that is already well-formed is returned unchanged.
\<close>

theorem sanitize_utf8_correct:
  "utf8_text (sanitize_utf8 s) \<and> (utf8_text s \<longleftrightarrow> sanitize_utf8 s = s)"
proof -
  have spec: "utf8_text (take (valid_upto s 0) s)" "valid_upto s 0 = length s \<longleftrightarrow> utf8_text s"
    using valid_upto_spec [of 0 s] by (simp_all add: utf8_text.empty)
  then have "utf8_text (sanitize_utf8 s)"
    by (simp add: sanitize_utf8_def Let_def sanitize_from_text)
  moreover have "sanitize_utf8 s = s" if "utf8_text s"
    using that spec by (simp add: sanitize_utf8_def)
  ultimately show ?thesis by metis
qed

section \<open>Cutting at a character boundary\<close>

lemma back_up_bounds: "back_up s left c \<le> c \<and> c \<le> back_up s left c + left"
  by (induction s left c rule: back_up.induct) auto

lemma back_up_to:
  "\<lbrakk>b \<le> c; c \<le> b + left; \<forall>k. b < k \<and> k \<le> c \<longrightarrow> is_continuation (s ! k); \<not> is_continuation (s ! b)\<rbrakk>
   \<Longrightarrow> back_up s left c = b"
proof (induction s left c rule: back_up.induct)
  case (2 s left c)
  show ?case
  proof (cases "c = b")
    case False
    with 2 have "0 < c \<and> is_continuation (s ! c)" "b \<le> c - 1" "c - 1 \<le> b + left" by auto
    moreover have "\<forall>k. b < k \<and> k \<le> c - 1 \<longrightarrow> is_continuation (s ! k)" using 2 by auto
    ultimately show ?thesis using 2 by simp
  qed (use 2 in simp)
qed simp

lemma encode_scalar_continuation:
  assumes "scalar cp"
  shows "k < length (encode_scalar cp) \<Longrightarrow> is_continuation (encode_scalar cp ! k) \<longleftrightarrow> 0 < k"
  using assms
  by (cases rule: scalar_cases)
    (auto simp: encode_1 encode_2 encode_3 encode_4 is_continuation_def nth_Cons' less_Suc_eq_0_disj)

lemma utf8_text_start: "utf8_text t \<Longrightarrow> t \<noteq> [] \<Longrightarrow> \<not> is_continuation (t ! 0)"
  by (erule utf8_text.cases) (auto simp: nth_append encode_scalar_continuation)

lemma utf8_text_around:
  "utf8_text s \<Longrightarrow> lim < length s \<Longrightarrow>
   \<exists>p cp q. s = p @ encode_scalar cp @ q \<and> utf8_text p \<and> scalar cp \<and> utf8_text q \<and>
     length p \<le> lim \<and> lim < length p + length (encode_scalar cp)"
proof (induction arbitrary: lim rule: utf8_text.induct)
  case (step cp s)
  show ?case
  proof (cases "lim < length (encode_scalar cp)")
    case True
    with step show ?thesis by (intro exI [of _ "[]"] exI [of _ cp] exI [of _ s]) (auto intro: utf8_text.empty)
  next
    case False
    then have "lim - length (encode_scalar cp) < length s" using step.prems by auto
    with step.IH obtain p cp' q where
      "s = p @ encode_scalar cp' @ q" "utf8_text p" "scalar cp'" "utf8_text q"
      "length p \<le> lim - length (encode_scalar cp)"
      "lim - length (encode_scalar cp) < length p + length (encode_scalar cp')" by blast
    with False step show ?thesis
      by (intro exI [of _ "encode_scalar cp @ p"] exI [of _ cp'] exI [of _ q])
        (auto intro: utf8_text.step)
  qed
qed simp

lemma prefix_length_at:
  assumes "scalar cp" "length p \<le> lim" "lim < length p + length (encode_scalar cp)"
  shows "utf8_prefix_length (p @ encode_scalar cp @ q) lim = length p"
proof -
  let ?s = "p @ encode_scalar cp @ q"
  have "k - length p < length (encode_scalar cp)" if "k \<le> lim" for k using that assms by linarith
  then have "?s ! k = encode_scalar cp ! (k - length p)" if "length p \<le> k" "k \<le> lim" for k
    using that by (simp add: nth_append)
  then have cont: "is_continuation (?s ! k) \<longleftrightarrow> length p < k" if "length p \<le> k" "k \<le> lim" for k
    using that assms encode_scalar_continuation [OF assms(1), of "k - length p"] by auto
  have stop: "back_up ?s 3 lim = length p"
    by (rule back_up_to) (use assms cont encode_scalar_length(2) [of cp] in auto)
  have "utf8_sequence_length ?s (length p) = length (encode_scalar cp)"
    using sequence_length_shift [of "length p" ?s] sequence_length_encode [OF assms(1)] by simp
  then show ?thesis
    using assms stop cont [of 0] by (auto simp: utf8_prefix_length_def Let_def)
qed

text \<open>
  On UTF-8 text \<open>utf8_prefix_length\<close> returns the longest cut of at most \<open>max\<close> bytes that
  falls between two characters: the prefix is UTF-8 text, and no longer such prefix exists.
\<close>

theorem utf8_prefix_length_longest:
  assumes "utf8_text s"
  shows "utf8_prefix_length s lim \<le> lim \<and> utf8_text (take (utf8_prefix_length s lim) s) \<and>
    (\<forall>m. m \<le> lim \<and> m \<le> length s \<and> utf8_text (take m s) \<longrightarrow> m \<le> utf8_prefix_length s lim)"
proof (cases "lim < length s")
  case True
  obtain p cp q where s: "s = p @ encode_scalar cp @ q" and "utf8_text p" and cp: "scalar cp"
    and lim: "length p \<le> lim" "lim < length p + length (encode_scalar cp)"
    using utf8_text_around [OF assms True] by blast
  have len: "utf8_prefix_length s lim = length p"
    unfolding s by (rule prefix_length_at [OF cp lim])
  have "m \<le> length p" if "m \<le> lim" "utf8_text (take m s)" for m
  proof (rule ccontr)
    assume "\<not> m \<le> length p"
    moreover from this that lim have "m - length p < length (encode_scalar cp)" by linarith
    ultimately have "is_continuation (s ! m)"
      using that lim encode_scalar_continuation [OF cp, of "m - length p"] by (simp add: s nth_append)
    moreover have "utf8_text (drop m s)"
      using utf8_text_cancel [of "take m s" "drop m s"] that assms by simp
    ultimately show False
      using that True utf8_text_start [of "drop m s"] by simp
  qed
  moreover have "take (length p) s = p" by (simp add: s)
  ultimately show ?thesis using lim(1) \<open>utf8_text p\<close> unfolding len by metis
next
  case False
  with assms show ?thesis by (simp add: utf8_prefix_length_def)
qed

theorem utf8_prefix_length_longest_witness:
  "utf8_text [CHR ''a'', CHR 0xC3, CHR 0xA9] \<and> utf8_prefix_length [CHR ''a'', CHR 0xC3, CHR 0xA9] 2 = 1 \<and>
   utf8_text (take 1 [CHR ''a'', CHR 0xC3, CHR 0xA9])"
proof -
  let ?s = "[CHR ''a'', CHR 0xC3, CHR 0xA9]"
  have "utf8_sequence_length ?s 0 = 1" "utf8_sequence_length (drop 1 ?s) 0 = 2"
    by (simp_all add: utf8_sequence_length_def byte_def lead_range_def)
  then have utf8: "utf8_text ?s"
    using utf8_text_head [of ?s] utf8_text_head [of "drop 1 ?s"] by (simp add: utf8_text.empty)
  have len: "utf8_prefix_length ?s 2 = 1"
    by (simp add: utf8_prefix_length_def utf8_sequence_length_def byte_def lead_range_def numeral_3_eq_3
        is_continuation_def)
  from utf8_prefix_length_longest [OF utf8, of 2] have "utf8_text (take 1 ?s)" unfolding len by blast
  with utf8 len show ?thesis by blast
qed

end
