(* ===== verification/Json_Text.thy ===== *)
theory Json_Text
  imports Utf8
begin

text \<open>
  JSON text. \<open>escape_json_string\<close> of \<^verbatim>\<open>src/core/utils/utils.cpp\<close> and the documents the
  sources print by concatenation, as a tree \<open>json\<close> with its compact rendering \<open>render\<close>.

  Reading is done by simdjson, which is not part of the sources: a reader is a parameter
  \<open>parse :: string \<Rightarrow> json option\<close>, and \<open>json_reader\<close> states what the sources rely on: a document
  that is printed compactly from UTF-8 strings and 64-bit integers, within simdjson's depth and
  size limits, reads back as itself, and bytes that are not UTF-8 are refused. The fields of an
  object are looked up by their first occurrence. A recursive-descent reader is defined and
  shown to satisfy the contract.
\<close>

section \<open>Escaping\<close>

definition hex_char :: "nat \<Rightarrow> char" where
  "hex_char d = (if d < 10 then char_of (48 + d) else char_of (87 + d))"

text \<open>The quotation mark and the backslash.\<close>

abbreviation quote_char :: char where "quote_char \<equiv> CHR 0x22"
abbreviation backslash_char :: char where "backslash_char \<equiv> CHR 0x5C"

definition escape_char :: "char \<Rightarrow> string" where
  "escape_char c =
     (if c = quote_char then [backslash_char, quote_char]
      else if c = backslash_char then [backslash_char, backslash_char]
      else if c = CHR 0x08 then [backslash_char, CHR ''b'']
      else if c = CHR 0x0C then [backslash_char, CHR ''f'']
      else if c = CHR 0x0A then [backslash_char, CHR ''n'']
      else if c = CHR 0x0D then [backslash_char, CHR ''r'']
      else if c = CHR 0x09 then [backslash_char, CHR ''t'']
      else if (of_char c :: nat) < 0x20 then
        [backslash_char, CHR ''u'', CHR ''0'', CHR ''0'', hex_char (of_char c div 16), hex_char (of_char c mod 16)]
      else [c])"

definition escape_json_string :: "string \<Rightarrow> string" where
  "escape_json_string src = concat (map escape_char src)"

definition quoted :: "string \<Rightarrow> string" where
  "quoted s = quote_char # escape_json_string s @ [quote_char]"

section \<open>Documents\<close>

datatype json =
    JNull
  | JBool bool
  | JInt int
  | JReal string
  | JString string
  | JArray "json list"
  | JObject "(string \<times> json) list"

fun sep_by :: "string \<Rightarrow> string list \<Rightarrow> string" where
  "sep_by s [] = []"
| "sep_by s [x] = x"
| "sep_by s (x # y # ys) = x @ s @ sep_by s (y # ys)"

fun render :: "json \<Rightarrow> string" where
  "render JNull = ''null''"
| "render (JBool b) = (if b then ''true'' else ''false'')"
| "render (JInt i) = to_string_int i"
| "render (JReal t) = t"
| "render (JString s) = quoted s"
| "render (JArray xs) = ''['' @ sep_by '','' (map render xs) @ '']''"
| "render (JObject fs) = ''{'' @ sep_by '','' (map (\<lambda>(k, v). quoted k @ '':'' @ render v) fs) @ ''}''"

fun json_depth :: "json \<Rightarrow> nat" where
  "json_depth (JArray xs) = Suc (foldr max (map json_depth xs) 0)"
| "json_depth (JObject fs) = Suc (foldr max (map (\<lambda>(k, v). json_depth v) fs) 0)"
| "json_depth _ = 0"

text \<open>Documents made of UTF-8 strings and 64-bit integers only.\<close>

fun json_ok :: "json \<Rightarrow> bool" where
  "json_ok (JInt i) \<longleftrightarrow> - (2 ^ 63) \<le> i \<and> i < 2 ^ 63"
| "json_ok (JReal _) \<longleftrightarrow> False"
| "json_ok (JString s) \<longleftrightarrow> utf8_text s"
| "json_ok (JArray xs) \<longleftrightarrow> list_all json_ok xs"
| "json_ok (JObject fs) \<longleftrightarrow> list_all (\<lambda>(k, v). utf8_text k \<and> json_ok v) fs"
| "json_ok _ \<longleftrightarrow> True"

definition json_max_depth :: nat where "json_max_depth = 1024"
definition json_max_size :: nat where "json_max_size = 4294967295"

section \<open>Access, as the sources do with the on-demand API\<close>

definition get_string :: "json option \<Rightarrow> string option" where
  "get_string v = (case v of Some (JString s) \<Rightarrow> Some s | _ \<Rightarrow> None)"

definition get_int64 :: "json option \<Rightarrow> int option" where
  "get_int64 v = (case v of Some (JInt i) \<Rightarrow> Some i | _ \<Rightarrow> None)"

definition get_bool :: "json option \<Rightarrow> bool option" where
  "get_bool v = (case v of Some (JBool b) \<Rightarrow> Some b | _ \<Rightarrow> None)"

definition get_array :: "json option \<Rightarrow> json list option" where
  "get_array v = (case v of Some (JArray xs) \<Rightarrow> Some xs | _ \<Rightarrow> None)"

definition get_object :: "json option \<Rightarrow> (string \<times> json) list option" where
  "get_object v = (case v of Some (JObject fs) \<Rightarrow> Some fs | _ \<Rightarrow> None)"

text \<open>The object members of an array; other elements are skipped.\<close>

definition objects_of :: "json list \<Rightarrow> (string \<times> json) list list" where
  "objects_of xs = List.map_filter (\<lambda>x. get_object (Some x)) xs"

definition the_default :: "'a \<Rightarrow> 'a option \<Rightarrow> 'a" where
  "the_default d v = (case v of Some x \<Rightarrow> x | None \<Rightarrow> d)"

lemma get_simps [simp]:
  "get_string (Some (JString s)) = Some s" "get_int64 (Some (JInt i)) = Some i"
  "get_bool (Some (JBool b)) = Some b" "get_array (Some (JArray xs)) = Some xs"
  "get_object (Some (JObject fs)) = Some fs"
  "get_string None = None" "get_int64 None = None" "get_bool None = None" "get_array None = None"
  "get_object None = None"
  by (simp_all add: get_string_def get_int64_def get_bool_def get_array_def get_object_def)

lemma the_default_simps [simp]: "the_default d (Some x) = x" "the_default d None = d"
  by (simp_all add: the_default_def)

lemma objects_of_simps [simp]:
  "objects_of [] = []" "objects_of (JObject fs # xs) = fs # objects_of xs"
  by (simp_all add: objects_of_def List.map_filter_simps)

lemma objects_of_map_JObject [simp]: "objects_of (map (\<lambda>x. JObject (f x)) xs) = map f xs"
  by (induction xs) simp_all

section \<open>The contract of a reader\<close>

locale json_reader =
  fixes parse :: "string \<Rightarrow> json option"
  assumes parse_render:
    "\<lbrakk>json_ok j; json_depth j \<le> json_max_depth; length (render j) \<le> json_max_size\<rbrakk> \<Longrightarrow> parse (render j) = Some j"
  and parse_utf8: "parse s = Some j \<Longrightarrow> utf8_text s"

section \<open>A reference reader\<close>

definition hex_value :: "char \<Rightarrow> nat option" where
  "hex_value c =
     (let n = of_char c in
      if 48 \<le> n \<and> n \<le> 57 then Some (n - 48)
      else if 97 \<le> n \<and> n \<le> 102 then Some (n - 87)
      else if 65 \<le> n \<and> n \<le> 70 then Some (n - 55)
      else None)"

definition hex4_value :: "char \<Rightarrow> char \<Rightarrow> char \<Rightarrow> char \<Rightarrow> nat option" where
  "hex4_value a b c d =
     (case (hex_value a, hex_value b, hex_value c, hex_value d) of
        (Some w, Some x, Some y, Some z) \<Rightarrow> Some (4096 * w + 256 * x + 16 * y + z)
      | _ \<Rightarrow> None)"

definition unescape :: "char \<Rightarrow> char option" where
  "unescape e =
     (if e = quote_char then Some quote_char
      else if e = backslash_char then Some backslash_char
      else if e = CHR ''/'' then Some (CHR ''/'')
      else if e = CHR ''b'' then Some (CHR 0x08)
      else if e = CHR ''f'' then Some (CHR 0x0C)
      else if e = CHR ''n'' then Some (CHR 0x0A)
      else if e = CHR ''r'' then Some (CHR 0x0D)
      else if e = CHR ''t'' then Some (CHR 0x09)
      else None)"

text \<open>The characters of a string up to its closing quote, and the text behind it.\<close>

fun parse_chars :: "string \<Rightarrow> (string \<times> string) option" where
  "parse_chars [] = None"
| "parse_chars [c] = (if c = quote_char then Some ([], []) else None)"
| "parse_chars (c # e # es) =
     (if c = quote_char then Some ([], e # es)
      else if c = backslash_char then
        (if e = CHR ''u'' then
           (case es of
              h1 # h2 # h3 # h4 # rest \<Rightarrow>
                (case hex4_value h1 h2 h3 h4 of
                   None \<Rightarrow> None
                 | Some cp \<Rightarrow>
                     if \<not> scalar cp then None
                     else map_option (\<lambda>(s, r). (encode_scalar cp @ s, r)) (parse_chars rest))
            | _ \<Rightarrow> None)
         else case unescape e of
                None \<Rightarrow> None
              | Some x \<Rightarrow> map_option (\<lambda>(s, r). (x # s, r)) (parse_chars es))
      else if (of_char c :: nat) < 0x20 then None
      else map_option (\<lambda>(s, r). (c # s, r)) (parse_chars (e # es)))"

definition parse_number :: "string \<Rightarrow> (json \<times> string) option" where
  "parse_number s =
     (let neg = (s \<noteq> [] \<and> hd s = CHR ''-'');
          t = (if neg then tl s else s);
          ds = takeWhile is_digit t
      in if ds = [] then None
         else Some (JInt (if neg then - int (digits_value 0 ds) else int (digits_value 0 ds)),
                    dropWhile is_digit t))"

fun parse_value :: "nat \<Rightarrow> string \<Rightarrow> (json \<times> string) option"
  and parse_elems :: "nat \<Rightarrow> string \<Rightarrow> (json list \<times> string) option"
  and parse_members :: "nat \<Rightarrow> string \<Rightarrow> ((string \<times> json) list \<times> string) option" where
  "parse_value 0 s = None"
| "parse_value (Suc n) s =
     (case s of
        [] \<Rightarrow> None
      | c # cs \<Rightarrow>
          if c = quote_char then map_option (\<lambda>(t, r). (JString t, r)) (parse_chars cs)
          else if c = CHR ''['' then
            (if starts_with cs '']'' then Some (JArray [], tl cs)
             else map_option (\<lambda>(xs, r). (JArray xs, r)) (parse_elems n cs))
          else if c = CHR ''{'' then
            (if starts_with cs ''}'' then Some (JObject [], tl cs)
             else map_option (\<lambda>(fs, r). (JObject fs, r)) (parse_members n cs))
          else if starts_with s ''null'' then Some (JNull, drop 4 s)
          else if starts_with s ''true'' then Some (JBool True, drop 4 s)
          else if starts_with s ''false'' then Some (JBool False, drop 5 s)
          else parse_number s)"
| "parse_elems 0 s = None"
| "parse_elems (Suc n) s =
     (case parse_value n s of
        Some (v, c # cs) \<Rightarrow>
          if c = CHR '','' then map_option (\<lambda>(vs, r). (v # vs, r)) (parse_elems n cs)
          else if c = CHR '']'' then Some ([v], cs)
          else None
      | _ \<Rightarrow> None)"
| "parse_members 0 s = None"
| "parse_members (Suc n) s =
     (case s of
        [] \<Rightarrow> None
      | q # qs \<Rightarrow>
          if q \<noteq> quote_char then None
          else case parse_chars qs of
                 None \<Rightarrow> None
               | Some (k, r) \<Rightarrow>
                   if \<not> starts_with r '':'' then None
                   else case parse_value n (tl r) of
                          Some (v, c # cs) \<Rightarrow>
                            if c = CHR '','' then map_option (\<lambda>(fs, r). ((k, v) # fs, r)) (parse_members n cs)
                            else if c = CHR ''}'' then Some ([(k, v)], cs)
                            else None
                        | _ \<Rightarrow> None)"

definition json_parse :: "string \<Rightarrow> json option" where
  "json_parse s =
     (if valid_upto s 0 \<noteq> length s then None
      else case parse_value (Suc (length s)) s of Some (j, []) \<Rightarrow> Some j | _ \<Rightarrow> None)"

section \<open>The reference reader reads what is printed\<close>

lemma hex_value_hex_char: "d < 16 \<Longrightarrow> hex_value (hex_char d) = Some d"
  by (auto simp: hex_value_def hex_char_def Let_def)

lemma hex4_control: "n < 32 \<Longrightarrow> hex4_value (CHR ''0'') (CHR ''0'') (hex_char (n div 16)) (hex_char (n mod 16)) = Some n"
  by (simp add: hex4_value_def hex_value_hex_char) (simp add: hex_value_def)

lemma parse_chars_quote [simp]: "parse_chars (quote_char # xs) = Some ([], xs)"
  by (cases xs) simp_all

lemma parse_chars_plain:
  assumes "c \<noteq> quote_char" "c \<noteq> backslash_char" "\<not> (of_char c :: nat) < 0x20"
  shows "parse_chars (c # xs) = map_option (\<lambda>(s, r). (c # s, r)) (parse_chars xs)"
  using assms by (cases xs) simp_all

lemma parse_chars_escape_char:
  "parse_chars (escape_char c @ xs) = map_option (\<lambda>(s, r). (c # s, r)) (parse_chars xs)"
proof -
  consider (special) "c \<in> {quote_char, backslash_char, CHR 0x08, CHR 0x0C, CHR 0x0A, CHR 0x0D, CHR 0x09}"
    | (control) "c \<notin> {quote_char, backslash_char, CHR 0x08, CHR 0x0C, CHR 0x0A, CHR 0x0D, CHR 0x09}"
        "(of_char c :: nat) < 0x20"
    | (plain) "c \<notin> {quote_char, backslash_char, CHR 0x08, CHR 0x0C, CHR 0x0A, CHR 0x0D, CHR 0x09}"
        "\<not> (of_char c :: nat) < 0x20"
    by blast
  then show ?thesis
  proof cases
    case special
    then show ?thesis by (auto simp: escape_char_def unescape_def)
  next
    case control
    then have "scalar (of_char c)" "encode_scalar (of_char c) = [c]"
      using encode_1 [of "of_char c"] by simp_all
    with control show ?thesis by (simp add: escape_char_def hex4_control)
  next
    case plain
    then show ?thesis by (simp add: escape_char_def parse_chars_plain)
  qed
qed

lemma parse_chars_escape: "parse_chars (escape_json_string s @ quote_char # rest) = Some (s, rest)"
  by (induction s) (simp_all add: escape_json_string_def parse_chars_escape_char)

definition ends_number :: "string \<Rightarrow> bool" where
  "ends_number rest \<longleftrightarrow> rest = [] \<or> \<not> is_digit (hd rest)"

lemma takeWhile_digits:
  "\<lbrakk>\<forall>c \<in> set ds. is_digit c; ends_number rest\<rbrakk> \<Longrightarrow>
     takeWhile is_digit (ds @ rest) = ds \<and> dropWhile is_digit (ds @ rest) = rest"
  by (cases rest) (auto simp: ends_number_def takeWhile_append2 dropWhile_append2)

lemma to_string_cons: obtains c cs where "to_string n = c # cs" "is_digit c"
  by (metis list.exhaust list.set_intros(1) to_string_digits to_string_nonempty)

lemma parse_number_to_string:
  assumes "ends_number rest"
  shows "parse_number (to_string_int i @ rest) = Some (JInt i, rest)"
proof -
  have ds: "takeWhile is_digit (to_string n @ rest) = to_string n \<and> dropWhile is_digit (to_string n @ rest) = rest" for n
    using takeWhile_digits [OF _ assms] to_string_digits by blast
  have "\<not> (to_string n \<noteq> [] \<and> hd (to_string n) = CHR ''-'')" for n
    by (rule to_string_cons [of n]) (auto simp: is_digit_def)
  with ds show ?thesis
    by (auto simp: parse_number_def to_string_int_def Let_def digits_value_to_string)
qed

lemma to_string_int_cons: obtains c cs where "to_string_int i = c # cs" "is_digit c \<or> c = CHR ''-''"
  by (metis append_Cons append_Nil to_string_cons to_string_int_def)

lemma parse_value_int:
  assumes "ends_number rest"
  shows "parse_value (Suc n) (to_string_int i @ rest) = Some (JInt i, rest)"
proof -
  obtain c cs where c: "to_string_int i = c # cs" "is_digit c \<or> c = CHR ''-''" by (rule to_string_int_cons)
  have "c \<notin> {quote_char, CHR ''['', CHR ''{'', CHR ''n'', CHR ''t'', CHR ''f''}"
    using c(2) by (auto simp: is_digit_def)
  with c(1) parse_number_to_string [OF assms, of i] show ?thesis by (auto simp: starts_with_def)
qed

lemma render_start:
  assumes "json_ok j"
  obtains c cs where "render j = c # cs" "c \<noteq> CHR '']''"
proof (cases j)
  case (JInt i)
  obtain c cs where "to_string_int i = c # cs" "is_digit c \<or> c = CHR ''-''" by (rule to_string_int_cons)
  with JInt show thesis by (intro that [of c cs]) (auto simp: is_digit_def)
next
  case (JBool b)
  with that show thesis by (cases b) auto
qed (use assms that in \<open>auto simp: quoted_def split: if_splits\<close>)

lemma parse_elems_render:
  assumes "\<And>x n rest. \<lbrakk>x \<in> set xs; length (render x) < n; ends_number rest\<rbrakk> \<Longrightarrow>
      parse_value n (render x @ rest) = Some (x, rest)"
    and "xs \<noteq> []" "length (sep_by '','' (map render xs)) + 1 < m"
  shows "parse_elems m (sep_by '','' (map render xs) @ CHR '']'' # rest) = Some (xs, rest)"
  using assms
proof (induction xs arbitrary: m)
  case (Cons x xs)
  note IH = Cons.IH and prems = Cons.prems
  from prems(3) obtain n where n: "m = Suc n" by (cases m) auto
  show ?case
  proof (cases xs)
    case Nil
    with prems n show ?thesis by (simp add: ends_number_def is_digit_def)
  next
    case (Cons y ys)
    have "parse_value n (render x @ CHR '','' # sep_by '','' (map render xs) @ CHR '']'' # rest) =
        Some (x, CHR '','' # sep_by '','' (map render xs) @ CHR '']'' # rest)"
      using prems n Cons by (simp add: ends_number_def is_digit_def)
    moreover have "parse_elems n (sep_by '','' (map render xs) @ CHR '']'' # rest) = Some (xs, rest)"
      using prems n Cons by (intro IH) auto
    ultimately show ?thesis using n Cons by simp
  qed
qed simp

abbreviation render_field :: "string \<times> json \<Rightarrow> string" where
  "render_field kv \<equiv> (case kv of (k, v) \<Rightarrow> quoted k @ '':'' @ render v)"

lemma parse_members_step:
  "parse_members (Suc n) (quoted k @ '':'' @ t) =
     (case parse_value n t of
        Some (v, c # cs) \<Rightarrow>
          if c = CHR '','' then map_option (\<lambda>(fs, r). ((k, v) # fs, r)) (parse_members n cs)
          else if c = CHR ''}'' then Some ([(k, v)], cs)
          else None
      | _ \<Rightarrow> None)"
  by (simp add: quoted_def parse_chars_escape starts_with_def)

lemma parse_members_render:
  assumes "\<And>k x n rest. \<lbrakk>(k, x) \<in> set fs; length (render x) < n; ends_number rest\<rbrakk> \<Longrightarrow>
      parse_value n (render x @ rest) = Some (x, rest)"
    and "fs \<noteq> []" "length (sep_by '','' (map render_field fs)) + 1 < m"
  shows "parse_members m (sep_by '','' (map render_field fs) @ CHR ''}'' # rest) = Some (fs, rest)"
  using assms
proof (induction fs arbitrary: m)
  case (Cons f fs)
  note IH = Cons.IH and prems = Cons.prems
  obtain k x where f: "f = (k, x)" by (cases f)
  from prems(3) obtain n where n: "m = Suc n" by (cases m) auto
  show ?case
  proof (cases fs)
    case Nil
    then have "parse_value n (render x @ CHR ''}'' # rest) = Some (x, CHR ''}'' # rest)"
      using prems n f by (simp add: ends_number_def is_digit_def)
    with Nil n f parse_members_step [of n k "render x @ CHR ''}'' # rest"] show ?thesis by simp
  next
    case (Cons g gs)
    let ?tail = "sep_by '','' (map render_field fs) @ CHR ''}'' # rest"
    have "length (render x) < n" "ends_number (CHR '','' # ?tail)"
      using prems(3) n f Cons by (simp_all add: ends_number_def is_digit_def)
    then have "parse_value n (render x @ CHR '','' # ?tail) = Some (x, CHR '','' # ?tail)"
      using prems(1) [of k x n "CHR '','' # ?tail"] f by simp
    moreover have "parse_members n ?tail = Some (fs, rest)"
      using prems n f Cons by (intro IH) auto
    ultimately show ?thesis
      using n f Cons parse_members_step [of n k "render x @ CHR '','' # ?tail"] by simp
  qed
qed simp

lemma parse_value_render:
  "\<lbrakk>json_ok j; length (render j) < n; ends_number rest\<rbrakk> \<Longrightarrow> parse_value n (render j @ rest) = Some (j, rest)"
proof (induction j arbitrary: n rest)
  case (JInt i)
  then obtain m where "n = Suc m" by (cases n) auto
  with JInt show ?case using parse_value_int by simp
next
  case (JString s)
  then obtain m where "n = Suc m" by (cases n) auto
  then show ?case by (simp add: quoted_def parse_chars_escape)
next
  case (JArray xs)
  then obtain m where n: "n = Suc m" by (cases n) auto
  show ?case
  proof (cases "xs = []")
    case True
    with n show ?thesis by (simp add: starts_with_def)
  next
    case False
    then obtain x ys where xs: "xs = x # ys" by (cases xs) auto
    obtain c cs where "render x = c # cs" "c \<noteq> CHR '']''"
      using render_start [of x] JArray.prems xs by auto
    then have "\<not> starts_with (sep_by '','' (map render xs) @ CHR '']'' # rest) '']''"
      using xs by (cases ys) (auto simp: starts_with_def)
    moreover have "parse_elems m (sep_by '','' (map render xs) @ CHR '']'' # rest) = Some (xs, rest)"
      using JArray n False by (intro parse_elems_render) (auto simp: list_all_iff)
    ultimately show ?thesis using n by simp
  qed
next
  case (JObject fs)
  then obtain m where n: "n = Suc m" by (cases n) auto
  show ?case
  proof (cases "fs = []")
    case True
    with n show ?thesis by (simp add: starts_with_def)
  next
    case False
    then obtain k x gs where fs: "fs = (k, x) # gs" by (cases fs) auto
    then have "\<not> starts_with (sep_by '','' (map render_field fs) @ CHR ''}'' # rest) ''}''"
      by (cases gs) (auto simp: starts_with_def quoted_def)
    moreover have "parse_members m (sep_by '','' (map render_field fs) @ CHR ''}'' # rest) = Some (fs, rest)"
      using JObject n False by (intro parse_members_render) (auto simp: list_all_iff snds.simps)
    ultimately show ?thesis using n by simp
  qed
next
  case (JBool b)
  then obtain m where "n = Suc m" by (cases n) auto
  then show ?case by (cases b) (simp_all add: starts_with_def)
next
  case JNull
  then obtain m where "n = Suc m" by (cases n) auto
  then show ?case by (simp add: starts_with_def)
qed simp

section \<open>Printed documents are UTF-8\<close>

lemma ascii_text: "\<forall>c \<in> set s. (of_char c :: nat) < 128 \<Longrightarrow> utf8_text s"
proof (induction s)
  case (Cons c s)
  then have "scalar (of_char c)" "encode_scalar (of_char c) = [c]" using encode_1 [of "of_char c"] by simp_all
  with Cons show ?case using utf8_text.step [of "of_char c" s] by simp
qed (rule utf8_text.empty)

lemma encode_scalar_high: "scalar cp \<Longrightarrow> 128 \<le> cp \<Longrightarrow> \<forall>c \<in> set (encode_scalar cp). 128 \<le> (of_char c :: nat)"
  by (erule scalar_cases) (auto simp: encode_2 encode_3 encode_4)

lemma escape_char_high: "128 \<le> (of_char c :: nat) \<Longrightarrow> escape_char c = [c]"
proof -
  assume high: "128 \<le> (of_char c :: nat)"
  then have "c \<notin> {quote_char, backslash_char, CHR 0x08, CHR 0x0C, CHR 0x0A, CHR 0x0D, CHR 0x09}" by auto
  moreover have "\<not> (of_char c :: nat) < 0x20" using high by simp
  ultimately show ?thesis by (simp add: escape_char_def)
qed

lemma escape_high: "\<forall>c \<in> set s. 128 \<le> (of_char c :: nat) \<Longrightarrow> escape_json_string s = s"
  by (induction s) (simp_all add: escape_json_string_def escape_char_high)

lemma hex_char_ascii: "d < 16 \<Longrightarrow> (of_char (hex_char d) :: nat) < 128"
  by (simp add: hex_char_def)

lemma escape_char_ascii: "(of_char c :: nat) < 128 \<Longrightarrow> \<forall>d \<in> set (escape_char c). (of_char d :: nat) < 128"
  by (simp add: escape_char_def hex_char_ascii)

lemma escape_append: "escape_json_string (s @ t) = escape_json_string s @ escape_json_string t"
  by (simp add: escape_json_string_def)

lemma utf8_text_escape: "utf8_text s \<Longrightarrow> utf8_text (escape_json_string s)"
proof (induction rule: utf8_text.induct)
  case (step cp s)
  have "utf8_text (escape_json_string (encode_scalar cp))"
  proof (cases "cp < 128")
    case True
    then show ?thesis
      using escape_char_ascii [of "char_of cp"] by (auto simp: encode_1 escape_json_string_def intro: ascii_text)
  next
    case False
    with step show ?thesis by (simp add: escape_high encode_scalar_high utf8_text_scalar)
  qed
  with step show ?case by (simp add: escape_append utf8_text_append)
qed (simp add: escape_json_string_def utf8_text.empty)

lemma utf8_text_quoted: "utf8_text s \<Longrightarrow> utf8_text (quoted s)"
  using utf8_text_append [OF ascii_text utf8_text_append [OF utf8_text_escape ascii_text], of "[quote_char]" s "[quote_char]"]
  by (simp add: quoted_def)

lemma utf8_text_sep_by:
  "list_all utf8_text xs \<Longrightarrow> utf8_text s \<Longrightarrow> utf8_text (sep_by s xs)"
  by (induction s xs rule: sep_by.induct) (auto intro: utf8_text_append utf8_text.empty)

lemma utf8_text_wrap: "\<lbrakk>utf8_text s; \<forall>c \<in> set a. (of_char c :: nat) < 128; \<forall>c \<in> set b. (of_char c :: nat) < 128\<rbrakk> \<Longrightarrow>
    utf8_text (a @ s @ b)"
  by (simp add: utf8_text_append ascii_text)

lemma digit_ascii: "is_digit c \<Longrightarrow> (of_char c :: nat) < 128"
  by (simp add: is_digit_def)

lemma utf8_text_render: "json_ok j \<Longrightarrow> utf8_text (render j)"
proof (induction j)
  case (JInt i)
  have "\<forall>c \<in> set (to_string_int i). (of_char c :: nat) < 128"
    by (auto simp: to_string_int_def dest: to_string_digits digit_ascii)
  then show ?case by (simp add: ascii_text)
next
  case (JArray xs)
  then have "utf8_text (sep_by '','' (map render xs))"
    by (intro utf8_text_sep_by ascii_text) (auto simp: list_all_iff)
  then show ?case using utf8_text_wrap [of _ "''[''" "'']''"] by simp
next
  case (JObject fs)
  have "list_all utf8_text (map render_field fs)"
    using JObject by (auto simp: list_all_iff intro!: utf8_text_append [OF utf8_text_quoted]
        utf8_text_append [OF ascii_text, of "'':''", simplified])
  then have "utf8_text (sep_by '','' (map render_field fs))"
    by (intro utf8_text_sep_by ascii_text) auto
  then show ?case using utf8_text_wrap [of _ "''{''" "''}''"] by simp
qed (auto simp: utf8_text_quoted intro!: ascii_text)

lemma json_parse_render: "json_ok j \<Longrightarrow> json_parse (render j) = Some j"
  using valid_upto_spec [of 0 "render j"] utf8_text_render [of j] parse_value_render [of j _ "[]"]
  by (simp add: json_parse_def utf8_text.empty ends_number_def del: parse_value.simps)

lemma json_parse_utf8: "json_parse s = Some j \<Longrightarrow> utf8_text s"
  using valid_upto_spec [of 0 s] by (simp add: json_parse_def utf8_text.empty split: if_splits)

interpretation reference: json_reader json_parse
  by unfold_locales (simp_all add: json_parse_render json_parse_utf8)

lemma escape_json_string_inj: "escape_json_string s = escape_json_string t \<longleftrightarrow> s = t"
  by (metis fst_conv option.inject parse_chars_escape)

end
