(* ===== verification/Arena.thy ===== *)
theory Arena
  imports Agent_Prelude
begin

unbundle bit_operations_syntax

text \<open>
  The per-turn bump allocator, \<^verbatim>\<open>src/core/arena.cpp\<close>. Addresses and sizes are 64-bit words, as
  \<open>size_t\<close> is on the 64-bit targets of the library, and every operation wraps as the C++ does.
  A null pointer is the address 0. The lemmas show that, while no size computation wraps, an
  allocation is aligned, lies inside the slab and above everything handed out since the last
  \<open>reset\<close>; and that the bound check is defeated when \<open>aligned_offset + size\<close> wraps.
\<close>

record arena =
  capacity :: u64
  ptr :: u64
  offset :: u64

text \<open>
  The constructor: \<open>p\<close> is the address \<open>new char[capacity]\<close> returned.
\<close>

definition arena_new :: "u64 \<Rightarrow> u64 \<Rightarrow> arena" where
  "arena_new p cap = \<lparr>capacity = cap, ptr = (if cap > 0 then p else 0), offset = 0\<rparr>"

text \<open>The move constructor: the source is left empty.\<close>

definition arena_move :: "arena \<Rightarrow> arena \<times> arena" where
  "arena_move other = (other, \<lparr>capacity = 0, ptr = 0, offset = 0\<rparr>)"

definition allocate :: "u64 \<Rightarrow> u64 \<Rightarrow> arena \<Rightarrow> u64 option \<times> arena" where
  "allocate sz alignment a =
     (if ptr a = 0 \<or> sz = 0 then (None, a)
      else
        let current_ptr = ptr a + offset a;
            mask = alignment - 1;
            aligned_ptr = (current_ptr + mask) AND NOT mask;
            aligned_offset = aligned_ptr - ptr a
        in if aligned_offset + sz > capacity a then (None, a)
           else (Some aligned_ptr, a\<lparr>offset := aligned_offset + sz\<rparr>))"

definition reset :: "arena \<Rightarrow> arena" where
  "reset a = a\<lparr>offset := 0\<rparr>"

text \<open>\<open>alignof(std::max_align_t)\<close> on the 64-bit targets.\<close>

definition max_align :: u64 where
  "max_align = 16"

text \<open>
  The view returned by \<open>allocate_string\<close> is represented by the bytes it shows: those of the
  source when the copy was made, none otherwise.
\<close>

definition allocate_string :: "string \<Rightarrow> arena \<Rightarrow> string \<times> arena" where
  "allocate_string src a =
     (if src = [] then ([], a)
      else case allocate (of_nat (length src)) max_align a of
             (None, a') \<Rightarrow> ([], a')
           | (Some mem, a') \<Rightarrow> (src, a'))"

text \<open>
  \<open>allocate_span<T>(count)\<close> for a type of \<open>sizeof\<close> bytes and \<open>alignof\<close> alignment: the first
  address and the number of elements, \<open>None\<close> for the empty span.
\<close>

definition allocate_span :: "u64 \<Rightarrow> u64 \<Rightarrow> u64 \<Rightarrow> arena \<Rightarrow> (u64 \<times> u64) option \<times> arena" where
  "allocate_span sizeof alignof count a =
     (if count = 0 then (None, a)
      else case allocate (sizeof * count) alignof a of
             (None, a') \<Rightarrow> (None, a')
           | (Some mem, a') \<Rightarrow> (Some (mem, count), a'))"

definition span_size :: "(u64 \<times> u64) option \<Rightarrow> u64" where
  "span_size s = (case s of None \<Rightarrow> 0 | Some (_, n) \<Rightarrow> n)"

section \<open>Well-formed arenas\<close>

text \<open>
  The slab is a C++ object (at most \<open>PTRDIFF_MAX\<close> bytes), does not wrap around the address
  space, with room for one alignment step above it, and the offset is inside it.
\<close>

definition arena_wf :: "arena \<Rightarrow> bool" where
  "arena_wf a \<longleftrightarrow>
     offset a \<le> capacity a \<and> (ptr a = 0 \<longrightarrow> capacity a = 0) \<and>
     unat (capacity a) < 2 ^ 63 \<and> unat (ptr a) + unat (capacity a) + 2 ^ 16 < 2 ^ 64"

text \<open>The requests the sources make: a power-of-two alignment and a size that cannot wrap.\<close>

definition request_ok :: "u64 \<Rightarrow> u64 \<Rightarrow> bool" where
  "request_ok sz alignment \<longleftrightarrow>
     (\<exists>k \<le> 12. alignment = 2 ^ k) \<and> unat sz < 2 ^ 62"

section \<open>Alignment\<close>

lemma and_not_mask_eq: "(x :: u64) AND NOT (mask k) = push_bit k (drop_bit k x)"
  by (rule bit_eqI) (auto simp: bit_and_iff bit_not_iff bit_mask_iff bit_push_bit_iff bit_drop_bit_eq)

lemma unat_less_2_64: "unat (x :: u64) < 2 ^ 64"
  using unsigned_less [of x] by simp

lemma unat_of_nat_64: "n < 2 ^ 64 \<Longrightarrow> unat (of_nat n :: u64) = n"
  by (simp add: unsigned_of_nat take_bit_eq_mod)

lemma of_nat_unat_64: "unat (x :: u64) = n \<Longrightarrow> x = of_nat n"
  by auto

lemma unat_push_drop: "k < 64 \<Longrightarrow> unat (push_bit k (drop_bit k (x :: u64))) = unat x div 2 ^ k * 2 ^ k"
proof -
  assume "k < 64"
  have "unat x div 2 ^ k * 2 ^ k \<le> unat x" by (rule div_times_less_eq_dividend)
  then have "unat x div 2 ^ k * 2 ^ k < 2 ^ 64" using unat_less_2_64 [of x] by (rule le_less_trans)
  then have "take_bit 64 (unat x div 2 ^ k * 2 ^ k) = unat x div 2 ^ k * 2 ^ k"
    by (simp add: take_bit_eq_mod)
  moreover have "unat (push_bit k (drop_bit k x)) = take_bit 64 (push_bit k (drop_bit k (unat x)))"
    using unat_less_2_64 [of x]
    by (simp add: unsigned_push_bit_eq unsigned_drop_bit_eq take_bit_eq_mod)
  ultimately show ?thesis by (simp only: push_bit_eq_mult drop_bit_eq_div)
qed

lemma unat_mask_64: "k \<le> 64 \<Longrightarrow> unat (mask k :: u64) = 2 ^ k - 1"
proof -
  assume "k \<le> 64"
  then have "(2::nat) ^ k \<le> 2 ^ 64" by (intro power_increasing) auto
  moreover have "(0::nat) < 2 ^ k" by simp
  ultimately have "mask k < (2::nat) ^ 64" unfolding mask_eq_exp_minus_1 by linarith
  then have "unat (of_nat (mask k) :: u64) = mask k"
    by (simp add: unsigned_of_nat take_bit_eq_mod)
  then show ?thesis by (simp add: mask_eq_exp_minus_1 of_nat_mask_eq)
qed

lemma unat_power_64: "k < 64 \<Longrightarrow> unat (2 ^ k :: u64) = 2 ^ k"
proof -
  assume "k < 64"
  then have "(2::nat) ^ k < 2 ^ 64" by (intro power_strict_increasing) auto
  then have "unat (of_nat (2 ^ k) :: u64) = 2 ^ k"
    by (simp only: unsigned_of_nat take_bit_eq_mod) simp
  then show ?thesis by simp
qed

lemma align_up:
  assumes "k \<le> 12" "unat c + 2 ^ 12 < 2 ^ 64"
  shows "unat ((c + ((2 ^ k :: u64) - 1)) AND NOT ((2 ^ k) - 1)) = (unat c + (2 ^ k - 1)) div 2 ^ k * 2 ^ k"
proof -
  have m: "(2 ^ k :: u64) - 1 = mask k" by (simp add: mask_eq_exp_minus_1)
  have "(2::nat) ^ k \<le> 2 ^ 12" using assms(1) by (intro power_increasing) auto
  with assms have "unat c + unat (mask k :: u64) < 2 ^ 64" by (simp add: unat_mask_64)
  then have "unat (c + mask k) = unat c + (2 ^ k - 1)"
    using assms(1) by (simp add: unat_word_ariths unat_mask_64)
  then show ?thesis
    using assms(1) by (simp add: m and_not_mask_eq unat_push_drop)
qed

lemma round_up_bounds:
  fixes c k :: nat
  shows "c \<le> (c + (2 ^ k - 1)) div 2 ^ k * 2 ^ k" "(c + (2 ^ k - 1)) div 2 ^ k * 2 ^ k < c + 2 ^ k"
proof -
  define d where "d = (2::nat) ^ k"
  have d: "0 < d" by (simp add: d_def)
  have split: "(c + (d - 1)) div d * d + (c + (d - 1)) mod d = c + (d - 1)"
    by (rule div_mult_mod_eq)
  have "(c + (d - 1)) mod d < d" using d by simp
  then show "c \<le> (c + (2 ^ k - 1)) div 2 ^ k * 2 ^ k" "(c + (2 ^ k - 1)) div 2 ^ k * 2 ^ k < c + 2 ^ k"
    using split d unfolding d_def [symmetric] by linarith+
qed

section \<open>One allocation\<close>

text \<open>The address an allocation is placed at, in unbounded arithmetic.\<close>

definition placed_at :: "arena \<Rightarrow> u64 \<Rightarrow> nat" where
  "placed_at a alignment =
     (unat (ptr a) + unat (offset a) + (unat alignment - 1)) div unat alignment * unat alignment"

lemma allocate_eq:
  assumes wf: "arena_wf a" and req: "request_ok sz alignment" and live: "ptr a \<noteq> 0" "sz \<noteq> 0"
  shows "allocate sz alignment a =
     (if placed_at a alignment + unat sz > unat (ptr a) + unat (capacity a) then (None, a)
      else (Some (of_nat (placed_at a alignment)),
            a\<lparr>offset := of_nat (placed_at a alignment + unat sz - unat (ptr a))\<rparr>))"
    and "unat (ptr a) + unat (offset a) \<le> placed_at a alignment"
    and "placed_at a alignment + unat sz < 2 ^ 64 + unat (ptr a)"
    and "unat alignment dvd placed_at a alignment"
    and "placed_at a alignment < 2 ^ 64"
proof -
  obtain k where k: "k \<le> 12" "alignment = 2 ^ k" and sz: "unat sz < 2 ^ 62"
    using req by (auto simp: request_ok_def)
  have le: "unat (offset a) \<le> unat (capacity a)" and cap: "unat (capacity a) < 2 ^ 63" and slab: "unat (ptr a) + unat (capacity a) + 2 ^ 16 < 2 ^ 64"
    using wf by (auto simp: arena_wf_def word_le_nat_alt)
  have two: "(2::nat) ^ k \<le> 2 ^ 12" using k(1) by (intro power_increasing) auto
  have al: "unat alignment = 2 ^ k"
    using k two by (simp add: unat_power_64)
  let ?c = "ptr a + offset a"
  let ?p = "(?c + (alignment - 1)) AND NOT (alignment - 1)"
  have c: "unat ?c = unat (ptr a) + unat (offset a)"
    using le slab by (simp add: unat_word_ariths)
  have p: "unat ?p = placed_at a alignment"
    using align_up [OF k(1), of ?c] c le slab by (simp add: k(2) placed_at_def al [unfolded k(2)])
  show lo: "unat (ptr a) + unat (offset a) \<le> placed_at a alignment"
    and dvd: "unat alignment dvd placed_at a alignment"
    using round_up_bounds(1) [of "unat (ptr a) + unat (offset a)" k] by (auto simp: placed_at_def al)
  have hi: "placed_at a alignment < unat (ptr a) + unat (offset a) + 2 ^ 12"
    using round_up_bounds(2) [of "unat (ptr a) + unat (offset a)" k] two by (simp add: placed_at_def al)
  show "placed_at a alignment < 2 ^ 64" using hi le slab by simp
  show nw: "placed_at a alignment + unat sz < 2 ^ 64 + unat (ptr a)"
    using hi le cap sz by simp
  have p_sub: "unat (?p - ptr a) = placed_at a alignment - unat (ptr a)"
    using lo p by (simp add: unat_sub_if_size)
  have ends: "unat (?p - ptr a + sz) = placed_at a alignment + unat sz - unat (ptr a)"
    using nw lo by (simp add: unat_word_ariths p_sub)
  have over: "?p - ptr a + sz > capacity a \<longleftrightarrow>
      placed_at a alignment + unat sz > unat (ptr a) + unat (capacity a)"
    using ends lo by (auto simp: word_less_nat_alt)
  have "?p = of_nat (placed_at a alignment)" "?p - ptr a + sz = of_nat (placed_at a alignment + unat sz - unat (ptr a))"
    by (rule of_nat_unat_64 [OF p], rule of_nat_unat_64 [OF ends])
  then show "allocate sz alignment a =
     (if placed_at a alignment + unat sz > unat (ptr a) + unat (capacity a) then (None, a)
      else (Some (of_nat (placed_at a alignment)),
            a\<lparr>offset := of_nat (placed_at a alignment + unat sz - unat (ptr a))\<rparr>))"
    using live over by (simp add: allocate_def Let_def)
qed

lemma allocate_Some:
  assumes wf: "arena_wf a" and req: "request_ok sz alignment" and got: "allocate sz alignment a = (Some p, a')"
  shows "unat alignment dvd unat p"
    and "unat (ptr a) + unat (offset a) \<le> unat p"
    and "unat p + unat sz \<le> unat (ptr a) + unat (capacity a)"
    and "unat (offset a') = unat p + unat sz - unat (ptr a)"
    and "ptr a' = ptr a" "capacity a' = capacity a"
proof -
  have live: "ptr a \<noteq> 0" "sz \<noteq> 0" using got by (auto simp: allocate_def split: if_splits)
  note eqs = allocate_eq [OF wf req live]
  have fits: "\<not> placed_at a alignment + unat sz > unat (ptr a) + unat (capacity a)"
    and p: "p = of_nat (placed_at a alignment)"
    and a': "a' = a\<lparr>offset := of_nat (placed_at a alignment + unat sz - unat (ptr a))\<rparr>"
    using got eqs(1) by (auto split: if_splits)
  have up: "unat p = placed_at a alignment"
    using unat_of_nat_64 [OF eqs(5)] by (simp only: p)
  show "unat alignment dvd unat p" "unat (ptr a) + unat (offset a) \<le> unat p"
    "unat p + unat sz \<le> unat (ptr a) + unat (capacity a)" "ptr a' = ptr a" "capacity a' = capacity a"
    using eqs fits by (simp_all add: up a')
  have "placed_at a alignment + unat sz - unat (ptr a) < 2 ^ 64" using eqs(2,3) by linarith
  moreover have "offset a' = of_nat (placed_at a alignment + unat sz - unat (ptr a))"
    by (subst a') simp
  ultimately show "unat (offset a') = unat p + unat sz - unat (ptr a)"
    by (simp only: up unat_of_nat_64)
qed

lemma allocate_wf: "arena_wf a \<Longrightarrow> request_ok sz alignment \<Longrightarrow> arena_wf (snd (allocate sz alignment a))"
proof (cases "allocate sz alignment a")
  case (Pair r a')
  assume wf: "arena_wf a" and req: "request_ok sz alignment"
  show ?thesis
  proof (cases r)
    case None
    then have "a' = a" using Pair by (auto simp: allocate_def Let_def split: if_splits)
    with wf Pair show ?thesis by simp
  next
    case (Some p)
    note got = allocate_Some [OF wf req, of p a']
    have "unat (offset a') \<le> unat (capacity a)" using got Pair Some by auto
    with wf got Pair Some show ?thesis by (auto simp: arena_wf_def word_le_nat_alt)
  qed
qed

lemma arena_new_wf: "unat cap < 2 ^ 63 \<Longrightarrow> (cap > 0 \<longrightarrow> p \<noteq> 0) \<Longrightarrow> unat p + unat cap + 2 ^ 16 < 2 ^ 64 \<Longrightarrow>
  arena_wf (arena_new p cap)"
  by (auto simp: arena_wf_def arena_new_def word_gt_0)

lemma reset_wf: "arena_wf a \<Longrightarrow> arena_wf (reset a)"
  by (auto simp: arena_wf_def reset_def word_le_nat_alt)

section \<open>A turn's allocations\<close>

text \<open>The blocks a sequence of requests gets, in order, from one arena.\<close>

fun allocate_all :: "(u64 \<times> u64) list \<Rightarrow> arena \<Rightarrow> (nat \<times> nat) list \<times> arena" where
  "allocate_all [] a = ([], a)"
| "allocate_all ((sz, alignment) # reqs) a =
     (case allocate sz alignment a of
        (None, a') \<Rightarrow> allocate_all reqs a'
      | (Some p, a') \<Rightarrow>
          (case allocate_all reqs a' of (bs, a'') \<Rightarrow> ((unat p, unat sz) # bs, a'')))"

fun ordered_blocks :: "nat \<Rightarrow> nat \<Rightarrow> (nat \<times> nat) list \<Rightarrow> bool" where
  "ordered_blocks lo hi [] \<longleftrightarrow> True"
| "ordered_blocks lo hi ((p, n) # bs) \<longleftrightarrow> lo \<le> p \<and> p + n \<le> hi \<and> ordered_blocks (p + n) hi bs"

lemma ordered_blocks_mono: "ordered_blocks lo hi bs \<Longrightarrow> lo' \<le> lo \<Longrightarrow> ordered_blocks lo' hi bs"
  by (cases bs) auto

lemma ordered_blocks_nth:
  "ordered_blocks lo hi bs \<Longrightarrow> i < j \<Longrightarrow> j < length bs \<Longrightarrow>
   lo \<le> fst (bs ! i) \<and> fst (bs ! i) + snd (bs ! i) \<le> fst (bs ! j) \<and> fst (bs ! j) + snd (bs ! j) \<le> hi"
proof (induction bs arbitrary: lo i j)
  case Nil
  then show ?case by simp
next
  case (Cons b bs)
  obtain p n where b: "b = (p, n)" by (cases b)
  have tail: "ordered_blocks (p + n) hi bs" using Cons.prems(1) b by simp
  show ?case
  proof (cases i)
    case 0
    with Cons.prems obtain j' where j: "j = Suc j'" "j' < length bs" by (cases j) auto
    have "p + n \<le> fst (bs ! j') \<and> fst (bs ! j') + snd (bs ! j') \<le> hi"
      using tail j(2)
    proof (induction bs arbitrary: p n j')
      case Nil
      then show ?case by simp
    next
      case (Cons c cs)
      obtain q m where c: "c = (q, m)" by (cases c)
      show ?case
      proof (cases j')
        case 0
        with Cons.prems c show ?thesis by simp
      next
        case (Suc k)
        with Cons.prems c have "q + m \<le> fst (cs ! k) \<and> fst (cs ! k) + snd (cs ! k) \<le> hi"
          using Cons.IH [of q m k] by simp
        with Cons.prems c Suc show ?thesis by simp
      qed
    qed
    with 0 j b Cons.prems(1) show ?thesis by simp
  next
    case (Suc i')
    with Cons.prems obtain j' where j: "j = Suc j'" "i' < j'" "j' < length bs" by (cases j) auto
    with Cons.IH [OF tail j(2,3)] Suc b Cons.prems(1) show ?thesis by simp
  qed
qed

lemma allocate_all_ordered:
  assumes "arena_wf a" "\<forall>(sz, alignment) \<in> set reqs. request_ok sz alignment" "allocate_all reqs a = (bs, a')"
  shows "ordered_blocks (unat (ptr a) + unat (offset a)) (unat (ptr a) + unat (capacity a)) bs"
  using assms
proof (induction reqs arbitrary: a bs)
  case Nil
  then show ?case by simp
next
  case (Cons r reqs)
  obtain sz al where r: "r = (sz, al)" by (cases r)
  have req: "request_ok sz al" and rest: "\<forall>(sz, al) \<in> set reqs. request_ok sz al"
    using Cons.prems(2) r by auto
  obtain res a1 where alloc: "allocate sz al a = (res, a1)" by (cases "allocate sz al a")
  have wf1: "arena_wf a1" using allocate_wf [OF Cons.prems(1) req] alloc by simp
  show ?case
  proof (cases res)
    case None
    then have "a1 = a" using alloc by (auto simp: allocate_def Let_def split: if_splits)
    then show ?thesis using Cons.IH [OF Cons.prems(1) rest, of bs] Cons.prems(3) alloc r None by simp
  next
    case (Some p)
    note got = allocate_Some [OF Cons.prems(1) req alloc [unfolded Some]]
    obtain bs' where bs': "allocate_all reqs a1 = (bs', a')" "bs = (unat p, unat sz) # bs'"
      using Cons.prems(3) alloc r Some by (auto split: prod.splits)
    have "ordered_blocks (unat (ptr a1) + unat (offset a1)) (unat (ptr a1) + unat (capacity a1)) bs'"
      by (rule Cons.IH [OF wf1 rest bs'(1)])
    moreover have "unat (ptr a1) + unat (offset a1) = unat p + unat sz"
      using got by simp
    ultimately show ?thesis using got bs'(2) by simp
  qed
qed

section \<open>Properties\<close>



text \<open>
  C38. A size near \<open>2\<^sup>6\<^sup>4\<close> defeats the capacity test of \<open>allocate\<close>: the sum
  \<open>aligned_offset + size\<close> wraps to zero, the request is granted and the offset goes back to the
  start of the slab, so the following allocations overlap live blocks.
\<close>

theorem allocate_size_wrap:
  assumes "ptr a \<noteq> 0" "offset a \<noteq> 0"
  shows "allocate (- offset a) 1 a = (Some (ptr a + offset a), a\<lparr>offset := 0\<rparr>)"
  using assms by (simp add: allocate_def Let_def)

theorem allocate_size_wrap_witness:
  "let a = snd (allocate 8 8 (arena_new 4096 64))
   in offset a = 8 \<and> allocate (- 8) 1 a = (Some 4104, a\<lparr>offset := 0\<rparr>)"
proof -
  have "ptr (snd (allocate 8 8 (arena_new 4096 64))) = 4096"
    "offset (snd (allocate 8 8 (arena_new 4096 64))) = 8" by code_simp+
  with allocate_size_wrap [of "snd (allocate 8 8 (arena_new 4096 64))"] show ?thesis by (simp add: Let_def)
qed

end
