(* ===== verification/Agent_Types.thy ===== *)
theory Agent_Types
  imports Json_Text Arena
begin

text \<open>
  The data of \<^verbatim>\<open>include/agent-cpp/agent.hpp\<close>: messages, tool results, statistics,
  requests and responses, the configuration and the session, and the event dispatch of
  \<^verbatim>\<open>src/core/events.cpp\<close>.

  A C++ \<open>Session\<close> mixes what is fixed once it is set up (configuration, tools, hooks, prompts)
  with what a turn changes. The model splits the two: \<open>session\<close> holds the first, \<open>rt\<close> the second.
  Function pointers with their \<open>user_data\<close> are functions that thread a state: event hooks,
  permission callbacks and engines act on \<open>'w env\<close> (the data they were given, of any type, and
  the session's cancel flag, which other threads may set); tools and tool hooks receive the
  session and the conversation, so they act on the whole \<open>('w, 'm) rt\<close>. \<open>'m\<close> is the state of
  the key-value store behind \<open>StoreOps\<close>. Views (\<open>string_view\<close>, \<open>span\<close>) are represented by what
  they show.
\<close>

section \<open>Messages\<close>

record token_usage =
  tu_prompt_tokens :: int
  tu_completion_tokens :: int
  tu_total_tokens :: int

datatype dtype = Float32 | Float16 | Int8 | Int32 | Int64 | UInt8

record tensor_data =
  td_name :: string
  td_dtype :: dtype
  td_shape :: "int list"
  td_data :: "u8 list"

record media =
  media_path :: string
  media_mime :: string

record tool_call =
  tc_id :: string
  tc_name :: string
  tc_arguments :: string

record tool_result =
  tr_text :: string
  tr_media :: "media list"
  tr_tensors :: "tensor_data list"
  tr_is_error :: bool

text \<open>A message of the history; \<open>msg_token_count\<close> caches its size in tokens, -1 before the first count.\<close>

record message =
  msg_role :: string
  msg_content :: string
  msg_tool_calls :: "tool_call list"
  msg_tool_call_id :: string
  msg_tensors :: "tensor_data list"
  msg_media :: "media list"
  msg_token_count :: int

definition new_message :: "string \<Rightarrow> string \<Rightarrow> message" where
  "new_message role content = \<lparr>msg_role = role, msg_content = content, msg_tool_calls = [],
     msg_tool_call_id = [], msg_tensors = [], msg_media = [], msg_token_count = -1\<rparr>"

record message_view =
  mv_role :: string
  mv_content :: string
  mv_tool_calls :: "tool_call list"
  mv_tool_call_id :: string
  mv_tensors :: "tensor_data list"
  mv_media :: "media list"

section \<open>Statistics and conversations\<close>

record turn_stats =
  ts_prompt_tokens :: int
  ts_completion_tokens :: int
  ts_tool_calls :: int
  ts_compressions :: int
  ts_prune_cycles :: int
  ts_turns :: int

definition turn_stats_zero :: turn_stats where
  "turn_stats_zero = \<lparr>ts_prompt_tokens = 0, ts_completion_tokens = 0, ts_tool_calls = 0,
     ts_compressions = 0, ts_prune_cycles = 0, ts_turns = 0\<rparr>"

record session_stats =
  ss_total_prompt_tokens :: int
  ss_total_completion_tokens :: int
  ss_total_tool_calls :: int
  ss_total_turns :: int
  ss_total_compressions :: int
  ss_total_prune_cycles :: int

definition session_stats_zero :: session_stats where
  "session_stats_zero = \<lparr>ss_total_prompt_tokens = 0, ss_total_completion_tokens = 0,
     ss_total_tool_calls = 0, ss_total_turns = 0, ss_total_compressions = 0, ss_total_prune_cycles = 0\<rparr>"

record flow_memory =
  fm_id :: string
  fm_history :: "message list"
  fm_stats :: turn_stats

section \<open>Events\<close>

datatype event_type =
    OnTurnStart | OnInferenceSubmit | OnInferenceComplete | OnToolCall | OnToolResult
  | OnStateTransition | OnCompression | OnPrune | OnSubAgentComplete

record event =
  ev_type :: event_type
  ev_payload :: string

record 'w env =
  env_user :: 'w
  env_cancel :: bool

record 'w event_hook =
  eh_type :: event_type
  eh_callback :: "(event \<Rightarrow> 'w env \<Rightarrow> 'w env) option"

section \<open>Stores and the state of a running session\<close>

text \<open>\<open>StoreOps\<close> after \<open>open\<close>: the operations on the state it returned.\<close>

record 'm store_ops =
  so_put :: "string \<Rightarrow> string \<Rightarrow> 'm \<Rightarrow> unit result \<times> 'm"
  so_get :: "string \<Rightarrow> 'm \<Rightarrow> string result \<times> 'm"
  so_clear :: "'m \<Rightarrow> unit result \<times> 'm"

text \<open>
  \<open>rt_memory\<close> is the conversation of the running turn (\<open>ambient::active_memory\<close>);
  \<open>rt_media_rejected\<close> is \<open>EngineState::tool_media_rejected\<close>; \<open>rt_store\<close> is \<open>memory_state\<close>;
  \<open>rt_summary_arena\<close> is the thread-local arena of the context compressor.
\<close>

record ('w, 'm) rt =
  rt_env :: "'w env"
  rt_memory :: flow_memory
  rt_stats :: session_stats
  rt_media_rejected :: bool
  rt_store :: "'m option"
  rt_arena :: arena
  rt_worker_arenas :: "arena list"
  rt_summary_arena :: arena
  rt_tools_paused :: bool

section \<open>Tools, hooks and permissions\<close>

datatype permission_decision = Allow | Ask | Deny

text \<open>
  \<open>Tool::callback\<close>: a function of the embedding program, or the one built-in text callback that
  works on the session itself.
\<close>

datatype ('w, 'm) tool_callback =
    Text_Callback "string \<Rightarrow> ('w, 'm) rt \<Rightarrow> string result \<times> ('w, 'm) rt"
  | Context_Compressor

record ('w, 'm) tool =
  tool_name :: string
  tool_description :: string
  tool_parameter_schema :: string
  tool_fn :: "('w, 'm) tool_callback option"
  tool_parts_fn :: "(string \<Rightarrow> ('w, 'm) rt \<Rightarrow> tool_result result \<times> ('w, 'm) rt) option"

datatype hook_when = Pre | Post

record ('w, 'm) tool_hook =
  th_when :: hook_when
  th_tool_name :: string
  th_callback :: "(string \<Rightarrow> string \<Rightarrow> string \<Rightarrow> ('w, 'm) rt \<Rightarrow> ('w, 'm) rt) option"

section \<open>Requests\<close>

text \<open>
  \<open>InferRequest\<close> without the sampling temperature (always the configured one here) and the
  progress callback.
\<close>

record 'w infer_request =
  req_messages :: "message_view list"
  req_max_tokens :: int
  req_stream :: bool
  req_on_token :: "(string \<Rightarrow> 'w env \<Rightarrow> 'w env) option"
  req_task :: u32
  req_params_json :: string

record infer_response =
  resp_message :: message_view
  resp_usage :: token_usage
  resp_output_tensors :: "tensor_data list"

section \<open>Configuration\<close>

text \<open>\<open>cfg_temperature\<close> is the text \<open>snprintf\<close> prints for the temperature with four decimals.\<close>

datatype ai_provider = Mock | Engine

record ('w, 'm) config =
  cfg_provider :: ai_provider
  cfg_context_window :: int
  cfg_max_tokens :: int
  cfg_temperature :: string
  cfg_max_tool_call_rounds :: int
  cfg_max_parallel_subagents :: int
  cfg_default_task :: u32
  cfg_tools :: "('w, 'm) tool list"
  cfg_permission_check :: "(string \<Rightarrow> string \<Rightarrow> 'w env \<Rightarrow> permission_decision \<times> 'w env) option"
  cfg_permission_prompt :: "(string \<Rightarrow> string \<Rightarrow> 'w env \<Rightarrow> bool \<times> 'w env) option"

record skill =
  skill_name :: string
  skill_description :: string
  skill_path :: string

section \<open>The engine interface\<close>

text \<open>
  \<^verbatim>\<open>include/agent-cpp/engine_abi.h\<close>: the structures passed to an engine plugin. The
  progress callback and the output directory are left out.
\<close>

datatype agent_part =
    Part_Text string
  | Part_File string string
  | Part_Bytes "u8 list" string
  | Part_Tensor string u32 "int list" "u8 list"

record agent_message =
  am_role :: string
  am_parts :: "agent_part list"
  am_tool_calls :: "tool_call list"
  am_tool_call_id :: string

record 'w agent_request =
  ar_task :: u32
  ar_flags :: u32
  ar_messages :: "agent_message list"
  ar_tools_json :: string
  ar_params_json :: string
  ar_on_chunk :: "(string \<Rightarrow> 'w env \<Rightarrow> 'w env) option"

record agent_response =
  ap_message :: agent_message
  ap_prompt_tokens :: int
  ap_completion_tokens :: int

text \<open>
  The plugin, which is not part of the sources, in one of its two shapes: loaded in the process
  (\<open>run\<close> fails with a flag for \<open>AGENT_ERR_CANCELLED\<close> and the engine's last error;
  \<open>count_tokens\<close> and \<open>reset_cache\<close> may be missing), or behind the engine host.
\<close>

datatype 'w engine_impl =
    In_Process
      "'w agent_request \<Rightarrow> 'w env \<Rightarrow> ((bool \<times> string option) + agent_response) \<times> 'w env"
      "(string \<Rightarrow> 'w env \<Rightarrow> int option \<times> 'w env) option"
      "('w env \<Rightarrow> bool \<times> 'w env) option"
  | Remote
      "'w agent_request \<Rightarrow> 'w env \<Rightarrow> agent_response result \<times> 'w env"
      "string \<Rightarrow> 'w env \<Rightarrow> int result \<times> 'w env"
      "'w env \<Rightarrow> unit result \<times> 'w env"

text \<open>\<open>EngineState\<close>; \<open>es_ready\<close> is \<open>ready()\<close>.\<close>

record 'w engine_state =
  es_name :: string
  es_caps :: u64
  es_flags :: u32
  es_ready :: bool
  es_impl :: "'w engine_impl"

section \<open>The session\<close>

text \<open>
  The session. The last two fields are the libraries the core calls: the JSON reader, and
  \<open>std::filesystem::absolute\<close> followed by \<open>lexically_normal\<close> (\<open>None\<close> for an error code).
  \<open>skills\<close> is the hash map of skills as a list of its entries.
\<close>

record ('w, 'm) session =
  config :: "('w, 'm) config"
  event_hooks :: "'w event_hook list"
  provider_state :: "'w engine_state option"
  active_store :: "'m store_ops"
  tool_by_name :: "string \<rightharpoonup> nat"
  tools_system_prompt :: string
  skills_system_prompt :: string
  skills :: "(string \<times> skill) list"
  simdjson :: "string \<Rightarrow> json option"
  fs_absolute :: "string \<Rightarrow> string option"

text \<open>
  The thread-local ambient variables of \<^verbatim>\<open>src/core/executor/ambient_turn.hpp\<close> (the two a
  turn writes, \<open>active_memory\<close> and \<open>tools_paused\<close>, are in \<open>rt\<close>).
\<close>

record ('w, 'm) ambient =
  amb_active_hooks :: "('w, 'm) tool_hook list"
  amb_allowed_tools :: "string list"
  amb_worker_arena_index :: nat
  amb_tool_pause_fn :: "(tool_call list \<Rightarrow> 'w env \<Rightarrow> bool \<times> 'w env) option"
  amb_tool_call_preapproved :: bool

definition ambient_default :: "('w, 'm) ambient" where
  "ambient_default = \<lparr>amb_active_hooks = [], amb_allowed_tools = [], amb_worker_arena_index = 0,
     amb_tool_pause_fn = None, amb_tool_call_preapproved = False\<rparr>"

section \<open>Event dispatch\<close>

definition register_event_hook ::
    "event_type \<Rightarrow> (event \<Rightarrow> 'w env \<Rightarrow> 'w env) option \<Rightarrow> ('w, 'm) session \<Rightarrow> ('w, 'm) session" where
  "register_event_hook ty callback S =
     S\<lparr>event_hooks := event_hooks S @ [\<lparr>eh_type = ty, eh_callback = callback\<rparr>]\<rparr>"

fun run_event_hooks :: "'w event_hook list \<Rightarrow> event \<Rightarrow> 'w env \<Rightarrow> 'w env" where
  "run_event_hooks [] ev w = w"
| "run_event_hooks (h # hs) ev w =
     run_event_hooks hs ev
       (case eh_callback h of Some f \<Rightarrow> if eh_type h = ev_type ev then f ev w else w | None \<Rightarrow> w)"

definition trigger_event :: "('w, 'm) session \<Rightarrow> event_type \<Rightarrow> string \<Rightarrow> ('w, 'm) rt \<Rightarrow> ('w, 'm) rt" where
  "trigger_event S ty payload r =
     r\<lparr>rt_env := run_event_hooks (event_hooks S) \<lparr>ev_type = ty, ev_payload = payload\<rparr> (rt_env r)\<rparr>"

text \<open>\<open>ambient::current_arena\<close>, as a reading and a writing of the state.\<close>

definition current_arena :: "('w, 'm) ambient \<Rightarrow> ('w, 'm) rt \<Rightarrow> arena" where
  "current_arena amb r =
     (if amb_worker_arena_index amb < length (rt_worker_arenas r)
      then rt_worker_arenas r ! amb_worker_arena_index amb else rt_arena r)"

definition set_current_arena :: "('w, 'm) ambient \<Rightarrow> arena \<Rightarrow> ('w, 'm) rt \<Rightarrow> ('w, 'm) rt" where
  "set_current_arena amb a r =
     (if amb_worker_arena_index amb < length (rt_worker_arenas r)
      then r\<lparr>rt_worker_arenas := (rt_worker_arenas r)[amb_worker_arena_index amb := a]\<rparr>
      else r\<lparr>rt_arena := a\<rparr>)"

lemma current_arena_set [simp]: "current_arena amb (set_current_arena amb a r) = a"
  by (simp add: current_arena_def set_current_arena_def)

lemma trigger_event_fields [simp]:
  "rt_memory (trigger_event S ty p r) = rt_memory r"
  "rt_stats (trigger_event S ty p r) = rt_stats r"
  "rt_media_rejected (trigger_event S ty p r) = rt_media_rejected r"
  "rt_store (trigger_event S ty p r) = rt_store r"
  "rt_arena (trigger_event S ty p r) = rt_arena r"
  "rt_worker_arenas (trigger_event S ty p r) = rt_worker_arenas r"
  "rt_tools_paused (trigger_event S ty p r) = rt_tools_paused r"
  by (simp_all add: trigger_event_def)

lemma set_current_arena_fields [simp]:
  "rt_memory (set_current_arena amb a r) = rt_memory r"
  "rt_stats (set_current_arena amb a r) = rt_stats r"
  "rt_media_rejected (set_current_arena amb a r) = rt_media_rejected r"
  "rt_store (set_current_arena amb a r) = rt_store r"
  "rt_env (set_current_arena amb a r) = rt_env r"
  "rt_tools_paused (set_current_arena amb a r) = rt_tools_paused r"
  by (simp_all add: set_current_arena_def)

section \<open>Tool results follow their calls\<close>

text \<open>
  Chat templates require a \<open>tool\<close> message to follow the assistant message that made the call,
  with only other tool messages between them. \<open>grouped b h\<close>: this holds of \<open>h\<close>, where \<open>b\<close> says
  whether a tool message may come first.
\<close>

definition makes_calls :: "message \<Rightarrow> bool" where
  "makes_calls m \<longleftrightarrow> msg_role m = ''assistant'' \<and> msg_tool_calls m \<noteq> []"

fun grouped :: "bool \<Rightarrow> message list \<Rightarrow> bool" where
  "grouped b [] \<longleftrightarrow> True"
| "grouped b (m # ms) \<longleftrightarrow>
     (if msg_role m = ''tool'' then b \<and> grouped b ms else grouped (makes_calls m) ms)"

lemma grouped_mono: "grouped False ms \<Longrightarrow> grouped b ms"
  by (cases ms) (auto split: if_splits)

lemma grouped_from_non_tool:
  "ms = [] \<or> msg_role (hd ms) \<noteq> ''tool'' \<Longrightarrow> grouped b ms \<longleftrightarrow> grouped c ms"
  by (cases ms) auto

lemma grouped_append_non_tool:
  "ys = [] \<or> msg_role (hd ys) \<noteq> ''tool'' \<Longrightarrow> grouped b (xs @ ys) \<longleftrightarrow> grouped b xs \<and> grouped False ys"
proof (induction b xs rule: grouped.induct)
  case (1 b)
  then show ?case using grouped_from_non_tool [OF 1, of b False] by simp
qed simp

lemma grouped_take: "grouped b ms \<Longrightarrow> grouped b (take n ms)"
  by (induction b ms arbitrary: n rule: grouped.induct) (auto simp: take_Cons' split: if_splits)

lemma grouped_drop_non_tool:
  assumes "grouped b ms" "drop n ms = [] \<or> msg_role (hd (drop n ms)) \<noteq> ''tool''"
  shows "grouped c (drop n ms)"
  using assms grouped_append_non_tool [OF assms(2), of b "take n ms"] grouped_mono by auto

end
