(* ===== verification/Tool_Index.thy ===== *)
theory Tool_Index
  imports Agent_Types
begin

text \<open>
  The tool table of a session: \<open>add_if_missing\<close>, \<open>tool_allowed\<close> and \<open>append_tool_list\<close> of
  \<^verbatim>\<open>src/core/tools/tools_ops.cpp\<close> and \<open>rebuild_tool_index\<close> of \<^verbatim>\<open>src/core/agent.cpp\<close>.
\<close>

definition add_if_missing :: "('w, 'm) tool \<Rightarrow> ('w, 'm) tool list \<Rightarrow> ('w, 'm) tool list" where
  "add_if_missing t ts = (if list_ex (\<lambda>e. tool_name e = tool_name t) ts then ts else ts @ [t])"

definition tool_allowed :: "string list \<Rightarrow> string \<Rightarrow> bool" where
  "tool_allowed allowed name \<longleftrightarrow> allowed = [] \<or> list_ex (\<lambda>a. a = name) allowed"

text \<open>The loop of \<open>append_tool_list\<close>; the flag is \<open>any\<close>.\<close>

fun tool_lines :: "string list \<Rightarrow> ('w, 'm) tool list \<Rightarrow> bool \<Rightarrow> string \<Rightarrow> bool \<times> string" where
  "tool_lines allowed [] any out = (any, out)"
| "tool_lines allowed (t # ts) any out =
     (if \<not> tool_allowed allowed (tool_name t) then tool_lines allowed ts any out
      else tool_lines allowed ts True
        (out @ (if any then [] else ''You have access to the following tools:'' @ [CHR 0x0A]) @
         ''- '' @ tool_name t @ '': '' @ tool_description t @ [CHR 0x0A] @ ''  Schema: '' @
         tool_parameter_schema t @ [CHR 0x0A]))"

definition tool_call_instructions :: string where
  "tool_call_instructions =
     ''When you need a tool, respond with ONLY a single JSON object of the exact form {'' @ quoted ''name'' @
     '': '' @ quoted ''tool_name'' @ '', '' @ quoted ''arguments'' @ '': {...}} and stop. Wait for the tool result before continuing.''"

definition append_tool_list :: "('w, 'm) tool list \<Rightarrow> string list \<Rightarrow> string \<Rightarrow> string" where
  "append_tool_list tools allowed out =
     (case tool_lines allowed tools False out of
        (any, out') \<Rightarrow> if any then out' @ tool_call_instructions else out')"

text \<open>The loop that fills \<open>tool_by_name\<close>: \<open>emplace\<close> keeps the first entry of a name.\<close>

fun index_tools :: "('w, 'm) tool list \<Rightarrow> nat \<Rightarrow> (string \<rightharpoonup> nat) \<Rightarrow> (string \<rightharpoonup> nat)" where
  "index_tools [] i m = m"
| "index_tools (t # ts) i m =
     index_tools ts (Suc i) (case m (tool_name t) of None \<Rightarrow> m(tool_name t \<mapsto> i) | Some _ \<Rightarrow> m)"

definition skill_line :: "string \<times> skill \<Rightarrow> string" where
  "skill_line e = ''- '' @ fst e @ '': '' @ skill_description (snd e) @ [CHR 0x0A]"

definition skills_prompt :: "(string \<times> skill) list \<Rightarrow> string" where
  "skills_prompt sk =
     (if sk = [] then []
      else ''You have access to the following skills. Call the use_skill tool with a skill'' @ [CHR 0x27] @
           ''s name to load its full instructions when relevant:'' @ [CHR 0x0A] @
           concat (map skill_line (sort_key fst sk)))"

definition rebuild_tool_index :: "('w, 'm) session \<Rightarrow> ('w, 'm) session" where
  "rebuild_tool_index S =
     (let tools = cfg_tools (config S);
          list = append_tool_list tools [] [];
          sk = skills_prompt (skills S)
      in S\<lparr>tool_by_name := index_tools tools 0 Map.empty,
           skills_system_prompt := sk,
           tools_system_prompt :=
             (if sk = [] then list else (if list = [] then list else list @ [CHR 0x0A, CHR 0x0A]) @ sk)\<rparr>)"

section \<open>Lookup\<close>

text \<open>\<open>first_index p xs\<close> is the position of the first element with \<open>p\<close>.\<close>

fun first_index :: "('a \<Rightarrow> bool) \<Rightarrow> 'a list \<Rightarrow> nat option" where
  "first_index p [] = None"
| "first_index p (x # xs) = (if p x then Some 0 else map_option Suc (first_index p xs))"

lemma first_index_Some:
  "first_index p xs = Some i \<longleftrightarrow> i < length xs \<and> p (xs ! i) \<and> (\<forall>j < i. \<not> p (xs ! j))"
proof (induction xs arbitrary: i)
  case (Cons x xs)
  show ?case
  proof (cases "p x")
    case True
    then show ?thesis by (cases i) auto
  next
    case False
    then show ?thesis
      using Cons.IH by (cases i) (auto simp: All_less_Suc2)
  qed
qed simp

lemma first_index_None: "first_index p xs = None \<longleftrightarrow> (\<forall>x \<in> set xs. \<not> p x)"
  by (induction xs) auto

lemma index_tools_eq:
  "index_tools ts i m name =
     (case m name of Some k \<Rightarrow> Some k | None \<Rightarrow> map_option (\<lambda>k. i + k) (first_index (\<lambda>t. tool_name t = name) ts))"
  by (induction ts i m rule: index_tools.induct)
    (auto split: option.splits simp: option.map_comp comp_def intro!: option.map_cong0)

lemma tool_by_name_rebuild:
  "tool_by_name (rebuild_tool_index S) name = first_index (\<lambda>t. tool_name t = name) (cfg_tools (config S))"
  using index_tools_eq [of "cfg_tools (config S)" 0 Map.empty name]
  by (simp add: rebuild_tool_index_def Let_def option.map_ident cong: option.map_cong)

lemma config_rebuild [simp]: "config (rebuild_tool_index S) = config S"
  by (simp add: rebuild_tool_index_def Let_def)

lemma first_index_append:
  "first_index p (xs @ ys) =
     (case first_index p xs of Some i \<Rightarrow> Some i | None \<Rightarrow> map_option (\<lambda>i. length xs + i) (first_index p ys))"
  by (induction xs)
    (auto simp: option.map_ident option.map_comp comp_def split: option.splits cong: option.map_cong)

lemma add_if_missing_keeps:
  "first_index (\<lambda>e. tool_name e = n) ts = Some i \<Longrightarrow>
     first_index (\<lambda>e. tool_name e = n) (add_if_missing t ts) = Some i \<and> add_if_missing t ts ! i = ts ! i"
  by (auto simp: add_if_missing_def first_index_append nth_append first_index_Some)

end
