(* ===== verification/Providers.thy ===== *)
theory Providers
  imports Tool_Index
begin

text \<open>
  Inference. The provider table and the mock provider of
  \<^verbatim>\<open>src/core/providers/provider_ops.cpp\<close>, the engine provider of
  \<^verbatim>\<open>src/core/providers/engine_provider.cpp\<close> up to the plugin's C interface (its request and
  response conversions take their buffers from the arena, whose exhaustion they report), and
  \<open>infer\<close>, \<open>run_task\<close> and \<open>clear_provider_kv_cache\<close> of \<^verbatim>\<open>src/core/agent.cpp\<close>.
\<close>

section \<open>Capabilities\<close>

definition cap_text_gen :: u32 where "cap_text_gen = 1"
definition cap_vision_in :: u64 where "cap_vision_in = 4"
definition cap_audio_in :: u64 where "cap_audio_in = 8"
definition cap_video_in :: u64 where "cap_video_in = 16"
definition flag_concurrent :: u32 where "flag_concurrent = 1"
definition flag_native_tools :: u32 where "flag_native_tools = 2"
definition flag_auto_task :: u32 where "flag_auto_task = 1"

unbundle bit_operations_syntax

definition engine_task :: "u64 \<Rightarrow> u32" where
  "engine_task caps =
     (if caps AND ucast cap_text_gen \<noteq> 0 \<or> caps = 0 then cap_text_gen
      else ucast (caps AND (NOT caps + 1)))"

definition check_task :: "'w engine_state \<Rightarrow> u32 \<Rightarrow> unit result" where
  "check_task st task =
     (if task = 0 \<or> task AND (task - 1) \<noteq> 0 then
        fail InvalidConfig (''Engine task must be exactly one AGENT_CAP_* bit (got '' @ to_string (unat task) @ '').'')
      else if es_caps st AND ucast task = 0 then
        fail UnsupportedProvider
          (''Engine '' @ [CHR 0x27] @ es_name st @ [CHR 0x27] @
           '' does not declare the requested capability (task '' @ to_string (unat task) @ '').'')
      else ok ())"

section \<open>Mock provider\<close>

definition mock_response :: "string \<Rightarrow> infer_response" where
  "mock_response content =
     \<lparr>resp_message = \<lparr>mv_role = ''assistant'', mv_content = content, mv_tool_calls = [],
        mv_tool_call_id = [], mv_tensors = [], mv_media = []\<rparr>,
      resp_usage = \<lparr>tu_prompt_tokens = 2, tu_completion_tokens = 2, tu_total_tokens = 4\<rparr>,
      resp_output_tensors = []\<rparr>"

definition infer_mock ::
    "('w, 'm) session \<Rightarrow> ('w, 'm) ambient \<Rightarrow> 'w infer_request \<Rightarrow> ('w, 'm) rt \<Rightarrow> infer_response result \<times> ('w, 'm) rt" where
  "infer_mock S amb req r =
     (let task = (if req_task req \<noteq> 0 then req_task req else cfg_default_task (config S)) in
      if task \<noteq> 0 \<and> task \<noteq> cap_text_gen then
        (fail UnsupportedProvider ''The mock provider only performs text generation.'', r)
      else
        let r1 = (case req_on_token req of
                    Some f \<Rightarrow> if req_stream req then r\<lparr>rt_env := f ''Mock Response Streamed'' (rt_env r)\<rparr> else r
                  | None \<Rightarrow> r)
        in case allocate_string ''Mock Response'' (current_arena amb r1) of
             (content, a) \<Rightarrow> (ok (mock_response content), set_current_arena amb a r1))"

section \<open>Engine provider: tool definitions and conversions\<close>

fun tools_json_items :: "string list \<Rightarrow> ('w, 'm) tool list \<Rightarrow> string list" where
  "tools_json_items allowed [] = []"
| "tools_json_items allowed (t # ts) =
     (if \<not> tool_allowed allowed (tool_name t) then tools_json_items allowed ts
      else (''{'' @ quoted ''name'' @ '':'' @ quoted (tool_name t) @ '','' @ quoted ''description'' @ '':'' @
            quoted (tool_description t) @ '','' @ quoted ''parameters'' @ '':'' @
            (if tool_parameter_schema t = [] then ''{}'' else tool_parameter_schema t) @ ''}'')
           # tools_json_items allowed ts)"

definition build_tools_json :: "('w, 'm) session \<Rightarrow> ('w, 'm) ambient \<Rightarrow> string" where
  "build_tools_json S amb =
     (let items = tools_json_items (amb_allowed_tools amb) (cfg_tools (config S))
      in if items = [] then [] else ''['' @ sep_by '','' items @ '']'')"

definition to_c_dtype :: "dtype \<Rightarrow> u32" where
  "to_c_dtype d = (case d of Float32 \<Rightarrow> 0 | Float16 \<Rightarrow> 1 | Int8 \<Rightarrow> 2 | Int32 \<Rightarrow> 3 | Int64 \<Rightarrow> 4 | UInt8 \<Rightarrow> 5)"

definition from_c_dtype :: "u32 \<Rightarrow> dtype" where
  "from_c_dtype d =
     (if d = 1 then Float16 else if d = 2 then Int8 else if d = 3 then Int32 else if d = 4 then Int64
      else if d = 5 then UInt8 else Float32)"

text \<open>\<open>sizeof\<close> of the structures on the 64-bit targets; all are aligned to 8 bytes.\<close>

definition sizeof_message_view :: u64 where "sizeof_message_view = 96"
definition sizeof_tool_call_view :: u64 where "sizeof_tool_call_view = 48"
definition sizeof_tensor_view :: u64 where "sizeof_tensor_view = 56"
definition sizeof_media_view :: u64 where "sizeof_media_view = 32"
definition sizeof_agent_message :: u64 where "sizeof_agent_message = 64"
definition sizeof_agent_part :: u64 where "sizeof_agent_part = 112"
definition sizeof_agent_tool_call :: u64 where "sizeof_agent_tool_call = 48"

text \<open>
  \<open>arena.allocate_span<T>(n)\<close> where the caller then compares the size of the span with \<open>n\<close>:
  whether all \<open>n\<close> elements were obtained, and the arena.
\<close>

definition take_span :: "u64 \<Rightarrow> nat \<Rightarrow> arena \<Rightarrow> bool \<times> arena" where
  "take_span sizeof n a =
     (case allocate_span sizeof 8 (of_nat n) a of (s, a') \<Rightarrow> (span_size s = of_nat n, a'))"

definition arena_full :: "'a result" where
  "arena_full = fail DecodeFailed ''Arena capacity exhausted. Increase Config::arena_capacity.''"

definition message_parts :: "message_view \<Rightarrow> agent_part list" where
  "message_parts mv =
     (if mv_content mv = [] then [] else [Part_Text (mv_content mv)]) @
     map (\<lambda>m. Part_File (media_path m) (media_mime m)) (mv_media mv) @
     map (\<lambda>t. Part_Tensor (td_name t) (to_c_dtype (td_dtype t)) (td_shape t) (td_data t)) (mv_tensors mv)"

text \<open>The loop of \<open>run_engine\<close> that converts the messages; \<open>None\<close> when the arena is full.\<close>

fun to_agent_messages :: "message_view list \<Rightarrow> arena \<Rightarrow> agent_message list option \<times> arena" where
  "to_agent_messages [] a = (Some [], a)"
| "to_agent_messages (mv # mvs) a =
     (let parts = message_parts mv in
      case take_span sizeof_agent_part (length parts) a of
        (False, a1) \<Rightarrow> (None, a1)
      | (True, a1) \<Rightarrow>
          (case take_span sizeof_agent_tool_call (length (mv_tool_calls mv)) a1 of
             (False, a2) \<Rightarrow> (None, a2)
           | (True, a2) \<Rightarrow>
               (case to_agent_messages mvs a2 of
                  (None, a3) \<Rightarrow> (None, a3)
                | (Some ms, a3) \<Rightarrow>
                    (Some (\<lparr>am_role = mv_role mv, am_parts = parts, am_tool_calls = mv_tool_calls mv,
                            am_tool_call_id = mv_tool_call_id mv\<rparr> # ms), a3))))"

section \<open>Engine provider: the response\<close>

definition part_text_size :: "agent_part \<Rightarrow> nat" where
  "part_text_size pt = (case pt of Part_Text t \<Rightarrow> length t | _ \<Rightarrow> 0)"

definition is_file_part :: "agent_part \<Rightarrow> bool" where
  "is_file_part pt \<longleftrightarrow> (case pt of Part_File _ _ \<Rightarrow> True | _ \<Rightarrow> False)"

definition is_tensor_part :: "agent_part \<Rightarrow> bool" where
  "is_tensor_part pt \<longleftrightarrow> (case pt of Part_Tensor _ _ _ _ \<Rightarrow> True | _ \<Rightarrow> False)"

text \<open>
  The loop of \<open>to_infer_response\<close> over the parts: content, media and tensors; \<open>None\<close> for its
  \<open>overflow\<close>. Strings are copied with \<open>allocate_string\<close>, whose empty result is not checked.
\<close>

fun copy_parts :: "agent_part list \<Rightarrow> arena \<Rightarrow> (string \<times> media list \<times> tensor_data list) option \<times> arena" where
  "copy_parts [] a = (Some ([], [], []), a)"
| "copy_parts (Part_Text t # ps) a =
     (case copy_parts ps a of
        (None, a') \<Rightarrow> (None, a')
      | (Some (c, ms, ts), a') \<Rightarrow> (Some (t @ c, ms, ts), a'))"
| "copy_parts (Part_File path mime # ps) a =
     (case allocate_string path a of (p, a1) \<Rightarrow>
      case allocate_string mime a1 of (m, a2) \<Rightarrow>
      case copy_parts ps a2 of
        (None, a') \<Rightarrow> (None, a')
      | (Some (c, ms, ts), a') \<Rightarrow> (Some (c, \<lparr>media_path = p, media_mime = m\<rparr> # ms, ts), a'))"
| "copy_parts (Part_Tensor name dt shape data # ps) a =
     (case take_span 8 (length shape) a of (shape_ok, a1) \<Rightarrow>
      case allocate (if data = [] then 1 else of_nat (length data)) max_align a1 of (bytes, a2) \<Rightarrow>
      if \<not> shape_ok \<or> bytes = None then (None, a2)
      else
        case allocate_string name a2 of (n, a3) \<Rightarrow>
        case copy_parts ps a3 of
          (None, a') \<Rightarrow> (None, a')
        | (Some (c, ms, ts), a') \<Rightarrow>
            (Some (c, ms, \<lparr>td_name = n, td_dtype = from_c_dtype dt, td_shape = shape, td_data = data\<rparr> # ts), a'))"
| "copy_parts (Part_Bytes _ _ # ps) a = copy_parts ps a"

fun copy_calls :: "tool_call list \<Rightarrow> arena \<Rightarrow> tool_call list \<times> arena" where
  "copy_calls [] a = ([], a)"
| "copy_calls (c # cs) a =
     (case allocate_string (tc_id c) a of (i, a1) \<Rightarrow>
      case allocate_string (tc_name c) a1 of (n, a2) \<Rightarrow>
      case allocate_string (tc_arguments c) a2 of (g, a3) \<Rightarrow>
      case copy_calls cs a3 of (cs', a4) \<Rightarrow>
        (\<lparr>tc_id = i, tc_name = n, tc_arguments = g\<rparr> # cs', a4))"

definition to_infer_response :: "agent_response \<Rightarrow> arena \<Rightarrow> infer_response result \<times> arena" where
  "to_infer_response resp a =
     (let parts = am_parts (ap_message resp);
          calls = am_tool_calls (ap_message resp)
      in case allocate (of_nat (sum_list (map part_text_size parts) + 1)) 1 a of (txt, a1) \<Rightarrow>
         case take_span sizeof_tensor_view (length (filter is_tensor_part parts)) a1 of (tensors_ok, a2) \<Rightarrow>
         case take_span sizeof_media_view (length (filter is_file_part parts)) a2 of (media_ok, a3) \<Rightarrow>
         case take_span sizeof_tool_call_view (length calls) a3 of (calls_ok, a4) \<Rightarrow>
         if txt = None \<or> \<not> tensors_ok \<or> \<not> media_ok \<or> \<not> calls_ok then (arena_full, a4)
         else
           case copy_parts parts a4 of
             (None, a5) \<Rightarrow> (arena_full, a5)
           | (Some (content, ms, ts), a5) \<Rightarrow>
               (case copy_calls calls a5 of (cs, a6) \<Rightarrow>
                  (ok \<lparr>resp_message = \<lparr>mv_role = ''assistant'', mv_content = content, mv_tool_calls = cs,
                          mv_tool_call_id = [], mv_tensors = ts, mv_media = ms\<rparr>,
                       resp_usage = \<lparr>tu_prompt_tokens = ap_prompt_tokens resp,
                          tu_completion_tokens = ap_completion_tokens resp,
                          tu_total_tokens = ap_prompt_tokens resp + ap_completion_tokens resp\<rparr>,
                       resp_output_tensors = ts\<rparr>, a6)))"

section \<open>Engine provider: one request\<close>

definition is_space :: "char \<Rightarrow> bool" where
  "is_space c \<longleftrightarrow> c = CHR '' '' \<or> (9 \<le> (of_char c :: nat) \<and> (of_char c :: nat) \<le> 13)"

definition trim :: "string \<Rightarrow> string" where
  "trim v = rev (dropWhile is_space (rev (dropWhile is_space v)))"

text \<open>The members of \<open>params_json\<close> without its braces; \<open>None\<close> when it is not an object.\<close>

definition params_extra :: "string \<Rightarrow> string option" where
  "params_extra params =
     (let extra = trim params in
      if extra = [] then Some []
      else if length extra < 2 \<or> hd extra \<noteq> CHR ''{'' \<or> last extra \<noteq> CHR ''}'' then None
      else Some (trim (take (length extra - 2) (drop 1 extra))))"

definition engine_params :: "('w, 'm) session \<Rightarrow> 'w infer_request \<Rightarrow> string \<Rightarrow> string" where
  "engine_params S req extra =
     (let max_tokens = (if req_max_tokens req > 0 then req_max_tokens req else cfg_max_tokens (config S));
          base = take 127 (''{'' @ quoted ''max_tokens'' @ '':'' @ to_string_int max_tokens @ '','' @ quoted ''temperature'' @
            '':'' @ cfg_temperature (config S) @ '','' @ quoted ''stream'' @ '':'' @
            (if req_stream req then ''true'' else ''false''))
      in base @ (if extra = [] then [] else '','' @ extra) @ ''}'')"

text \<open>
  The call into the plugin: the in-process engine reports cancellation as such and everything
  else as \<open>DecodeFailed\<close>; the engine host reports its own error codes.
\<close>

definition call_engine :: "'w engine_state \<Rightarrow> 'w agent_request \<Rightarrow> 'w env \<Rightarrow> agent_response result \<times> 'w env" where
  "call_engine st req w =
     (case es_impl st of
        Remote run _ _ \<Rightarrow> run req w
      | In_Process run _ _ \<Rightarrow>
          (case run req w of
             (Inr resp, w') \<Rightarrow> (ok resp, w')
           | (Inl (cancelled, msg), w') \<Rightarrow>
               (fail (if cancelled then CancelledCode else DecodeFailed)
                  (''Engine '' @ [CHR 0x27] @ es_name st @ [CHR 0x27] @ '': '' @
                   (case msg of Some e \<Rightarrow> e | None \<Rightarrow> ''run failed'')), w')))"

definition run_engine ::
    "('w, 'm) session \<Rightarrow> ('w, 'm) ambient \<Rightarrow> u32 \<Rightarrow> 'w infer_request \<Rightarrow> arena \<Rightarrow> 'w env \<Rightarrow>
     infer_response result \<times> arena \<times> 'w env" where
  "run_engine S amb task0 req a w =
     (case provider_state S of
        None \<Rightarrow> (fail ProviderInitFailed ''Engine not initialized.'', a, w)
      | Some st \<Rightarrow>
          if \<not> es_ready st then (fail ProviderInitFailed ''Engine not initialized.'', a, w)
          else
            let auto_task = (task0 = 0);
                task = (if auto_task then engine_task (es_caps st) else task0)
            in case take_span sizeof_agent_message (length (req_messages req)) a of
                 (False, a1) \<Rightarrow> (arena_full, a1, w)
               | (True, a1) \<Rightarrow>
                   (case to_agent_messages (req_messages req) a1 of
                      (None, a2) \<Rightarrow> (arena_full, a2, w)
                    | (Some msgs, a2) \<Rightarrow>
                        (case params_extra (req_params_json req) of
                           None \<Rightarrow> (fail InvalidConfig ''InferRequest::params_json must be a JSON object.'', a2, w)
                         | Some extra \<Rightarrow>
                             (case allocate (of_nat (130 + length extra)) 1 a2 of
                                (None, a3) \<Rightarrow> (arena_full, a3, w)
                              | (Some _, a3) \<Rightarrow>
                                  (case call_engine st
                                          \<lparr>ar_task = task, ar_flags = (if auto_task then flag_auto_task else 0),
                                           ar_messages = msgs,
                                           ar_tools_json = (if task = cap_text_gen then build_tools_json S amb else []),
                                           ar_params_json = engine_params S req extra,
                                           ar_on_chunk = (if req_stream req then req_on_token req else None)\<rparr> w of
                                     (Inl e, w') \<Rightarrow> (Inl e, a3, w')
                                   | (Inr resp, w') \<Rightarrow>
                                       (case to_infer_response resp a3 of (res, a4) \<Rightarrow> (res, a4, w')))))))"

definition infer_task ::
    "('w, 'm) session \<Rightarrow> ('w, 'm) ambient \<Rightarrow> u32 \<Rightarrow> 'w infer_request \<Rightarrow> arena \<Rightarrow> 'w env \<Rightarrow>
     infer_response result \<times> arena \<times> 'w env" where
  "infer_task S amb task req a w =
     (if cfg_provider (config S) \<noteq> Engine then
        (fail UnsupportedProvider
           ''This task needs an engine provider (Config::provider = AiProvider::Engine).'', a, w)
      else case provider_state S of
             None \<Rightarrow> (fail ProviderInitFailed ''Engine not initialized.'', a, w)
           | Some st \<Rightarrow>
               if \<not> es_ready st then (fail ProviderInitFailed ''Engine not initialized.'', a, w)
               else case check_task st task of
                      Inl e \<Rightarrow> (Inl e, a, w)
                    | Inr _ \<Rightarrow> run_engine S amb task req a w)"

definition infer_engine ::
    "('w, 'm) session \<Rightarrow> ('w, 'm) ambient \<Rightarrow> 'w infer_request \<Rightarrow> ('w, 'm) rt \<Rightarrow> infer_response result \<times> ('w, 'm) rt" where
  "infer_engine S amb req r =
     (let task = (if req_task req \<noteq> 0 then req_task req else cfg_default_task (config S));
          a = current_arena amb r
      in case (if task = 0 then run_engine S amb 0 req a (rt_env r) else infer_task S amb task req a (rt_env r)) of
           (res, a', w') \<Rightarrow> (res, set_current_arena amb a' (r\<lparr>rt_env := w'\<rparr>)))"

definition infer ::
    "('w, 'm) session \<Rightarrow> ('w, 'm) ambient \<Rightarrow> 'w infer_request \<Rightarrow> ('w, 'm) rt \<Rightarrow> infer_response result \<times> ('w, 'm) rt" where
  "infer S amb req r =
     (case cfg_provider (config S) of Mock \<Rightarrow> infer_mock S amb req r | Engine \<Rightarrow> infer_engine S amb req r)"

definition run_task ::
    "('w, 'm) session \<Rightarrow> ('w, 'm) ambient \<Rightarrow> u32 \<Rightarrow> 'w infer_request \<Rightarrow> ('w, 'm) rt \<Rightarrow> infer_response result \<times> ('w, 'm) rt" where
  "run_task S amb task req r =
     (if task = 0 then (fail InvalidConfig ''run_task: task must be an AGENT_CAP_* bit, not 0.'', r)
      else infer S amb (req\<lparr>req_task := task\<rparr>) r)"

section \<open>What the provider offers\<close>

definition supports_parallel :: "('w, 'm) session \<Rightarrow> bool" where
  "supports_parallel S \<longleftrightarrow> cfg_provider (config S) = Engine \<and>
     (case provider_state S of None \<Rightarrow> False | Some st \<Rightarrow> es_flags st AND flag_concurrent \<noteq> 0)"

definition injected_system_text :: "('w, 'm) session \<Rightarrow> ('w, 'm) ambient \<Rightarrow> string" where
  "injected_system_text S amb =
     (if cfg_provider (config S) \<noteq> Engine then []
      else case provider_state S of
             None \<Rightarrow> []
           | Some st \<Rightarrow>
               let native = (es_flags st AND flag_native_tools \<noteq> 0) in
               if amb_allowed_tools amb = [] then
                 (if native then skills_system_prompt S else tools_system_prompt S)
               else
                 let with_skills = (skills_system_prompt S \<noteq> [] \<and> tool_allowed (amb_allowed_tools amb) ''use_skill'')
                 in if native then (if with_skills then skills_system_prompt S else [])
                    else let buf = append_tool_list (cfg_tools (config S)) (amb_allowed_tools amb) []
                         in if with_skills then
                              (if buf = [] then buf else buf @ [CHR 0x0A, CHR 0x0A]) @ skills_system_prompt S
                            else buf)"

definition accepts_tool_media :: "('w, 'm) session \<Rightarrow> bool \<Rightarrow> string \<Rightarrow> bool" where
  "accepts_tool_media S rejected mime =
     (if cfg_provider (config S) \<noteq> Engine then True
      else case provider_state S of
             None \<Rightarrow> False
           | Some st \<Rightarrow>
               if rejected then False
               else if starts_with mime ''image/'' then es_caps st AND cap_vision_in \<noteq> 0
               else if starts_with mime ''audio/'' then es_caps st AND cap_audio_in \<noteq> 0
               else if starts_with mime ''video/'' then es_caps st AND cap_video_in \<noteq> 0
               else False)"

definition reject_tool_media :: "('w, 'm) session \<Rightarrow> ('w, 'm) rt \<Rightarrow> ('w, 'm) rt" where
  "reject_tool_media S r =
     (if cfg_provider (config S) \<noteq> Engine then r
      else case provider_state S of None \<Rightarrow> r | Some _ \<Rightarrow> r\<lparr>rt_media_rejected := True\<rparr>)"

definition count_tokens_engine :: "('w, 'm) session \<Rightarrow> string \<Rightarrow> 'w env \<Rightarrow> int result \<times> 'w env" where
  "count_tokens_engine S t w =
     (case provider_state S of
        None \<Rightarrow> (fail UnsupportedProvider ''Engine does not count tokens.'', w)
      | Some st \<Rightarrow>
          (case es_impl st of
             Remote _ count _ \<Rightarrow> count t w
           | In_Process _ None _ \<Rightarrow> (fail UnsupportedProvider ''Engine does not count tokens.'', w)
           | In_Process _ (Some count) _ \<Rightarrow>
               (case count t w of
                  (None, w') \<Rightarrow> (fail DecodeFailed ''Engine token count failed.'', w')
                | (Some n, w') \<Rightarrow> (ok n, w'))))"

definition clear_kv_cache_engine :: "('w, 'm) session \<Rightarrow> 'w env \<Rightarrow> unit result \<times> 'w env" where
  "clear_kv_cache_engine S w =
     (case provider_state S of
        None \<Rightarrow> (ok (), w)
      | Some st \<Rightarrow>
          (case es_impl st of
             Remote _ _ reset_cache \<Rightarrow> reset_cache w
           | In_Process _ _ None \<Rightarrow> (ok (), w)
           | In_Process _ _ (Some reset_cache) \<Rightarrow>
               (case reset_cache w of
                  (True, w') \<Rightarrow> (ok (), w')
                | (False, w') \<Rightarrow> (fail DecodeFailed ''Engine cache reset failed.'', w'))))"

definition clear_provider_kv_cache :: "('w, 'm) session \<Rightarrow> ('w, 'm) rt \<Rightarrow> unit result \<times> ('w, 'm) rt" where
  "clear_provider_kv_cache S r =
     (case cfg_provider (config S) of
        Mock \<Rightarrow> (ok (), r)
      | Engine \<Rightarrow> (case clear_kv_cache_engine S (rt_env r) of (res, w') \<Rightarrow> (res, r\<lparr>rt_env := w'\<rparr>)))"

lemma infer_fields [simp]:
  "rt_memory (snd (infer S amb req r)) = rt_memory r"
  "rt_stats (snd (infer S amb req r)) = rt_stats r"
  "rt_media_rejected (snd (infer S amb req r)) = rt_media_rejected r"
  "rt_store (snd (infer S amb req r)) = rt_store r"
  "rt_tools_paused (snd (infer S amb req r)) = rt_tools_paused r"
  by (simp_all add: infer_def infer_mock_def infer_engine_def Let_def split: ai_provider.split prod.split option.split)

end
