(* ===== verification/Store.thy ===== *)
theory Store
  imports Agent_Types
begin

text \<open>
  The key-value store behind a session: the contract of \<open>StoreOps\<close> as a locale, the built-in
  in-memory store of \<^verbatim>\<open>src/core/memory/in_memory_store.cpp\<close>, and the three operations of
  \<^verbatim>\<open>src/core/agent.cpp\<close> that go through it.
\<close>

section \<open>The contract\<close>

text \<open>
  \<open>contents\<close> is what the store holds. A successful \<open>put\<close> binds its key and nothing else; \<open>get\<close>
  answers from the contents (a missing key is \<open>KeyNotFound\<close>) and does not change them; \<open>clear\<close>
  empties them.
\<close>

locale kv_store =
  fixes put :: "string \<Rightarrow> string \<Rightarrow> 'm \<Rightarrow> unit result \<times> 'm"
    and get :: "string \<Rightarrow> 'm \<Rightarrow> string result \<times> 'm"
    and clear :: "'m \<Rightarrow> unit result \<times> 'm"
    and contents :: "'m \<Rightarrow> string \<rightharpoonup> string"
  assumes put_contents: "put k v m = (ok u, m') \<Longrightarrow> contents m' = (contents m)(k \<mapsto> v)"
    and get_found: "contents m k = Some v \<Longrightarrow> \<exists>m'. get k m = (ok v, m')"
    and get_missing: "contents m k = None \<Longrightarrow> \<exists>msg m'. get k m = (fail KeyNotFound msg, m')"
    and get_contents: "get k m = (res, m') \<Longrightarrow> contents m' = contents m"
    and clear_contents: "clear m = (ok u, m') \<Longrightarrow> contents m' = Map.empty"
begin

lemma get_after_put:
  assumes "put k v m = (ok u, m')"
  shows "fst (get k' m') = (if k' = k then ok v else fst (get k' m)) \<or> contents m k' = None \<and> k' \<noteq> k"
proof (cases "k' = k")
  case True
  then show ?thesis using get_found [of m' k v] put_contents [OF assms] by auto
next
  case False
  then show ?thesis
    using get_found [of m' k'] get_found [of m k'] put_contents [OF assms] by (cases "contents m k'") auto
qed

lemma get_after_put_same: "put k v m = (ok u, m') \<Longrightarrow> fst (get k m') = ok v"
  using get_after_put [of k v m u m' k] by auto

lemma get_after_put_other:
  assumes "put k v m = (ok u, m')" "k' \<noteq> k" "fst (get k' m) = ok x"
  shows "fst (get k' m') = ok x"
proof -
  have "contents m k' \<noteq> None"
  proof
    assume "contents m k' = None"
    from get_missing [OF this] assms(3) show False by auto
  qed
  then show ?thesis using get_after_put [OF assms(1), of k'] assms(2,3) by auto
qed

end

section \<open>The in-memory store\<close>

type_synonym in_memory_state = "string \<rightharpoonup> string"

definition open_in_memory :: in_memory_state where
  "open_in_memory = Map.empty"

definition put_in_memory :: "string \<Rightarrow> string \<Rightarrow> in_memory_state \<Rightarrow> unit result \<times> in_memory_state" where
  "put_in_memory key v kv = (ok (), kv(key \<mapsto> v))"

definition get_in_memory :: "string \<Rightarrow> in_memory_state \<Rightarrow> string result \<times> in_memory_state" where
  "get_in_memory key kv =
     (case kv key of None \<Rightarrow> fail KeyNotFound (''Key not found: '' @ key) | Some v \<Rightarrow> ok v, kv)"

definition clear_in_memory :: "in_memory_state \<Rightarrow> unit result \<times> in_memory_state" where
  "clear_in_memory kv = (ok (), Map.empty)"

definition in_memory_store :: "in_memory_state store_ops" where
  "in_memory_store = \<lparr>so_put = put_in_memory, so_get = get_in_memory, so_clear = clear_in_memory\<rparr>"

lemmas in_memory_defs = put_in_memory_def get_in_memory_def clear_in_memory_def open_in_memory_def

interpretation in_memory: kv_store put_in_memory get_in_memory clear_in_memory "\<lambda>kv. kv"
  by unfold_locales (auto simp: in_memory_defs)

section \<open>The session's operations\<close>

definition store_memory :: "('w, 'm) session \<Rightarrow> string \<Rightarrow> string \<Rightarrow> ('w, 'm) rt \<Rightarrow> unit result \<times> ('w, 'm) rt" where
  "store_memory S key v r =
     (case rt_store r of
        None \<Rightarrow> (fail ProviderInitFailed ''Memory store not initialized.'', r)
      | Some m \<Rightarrow> (case so_put (active_store S) key v m of (res, m') \<Rightarrow> (res, r\<lparr>rt_store := Some m'\<rparr>)))"

definition retrieve_memory :: "('w, 'm) session \<Rightarrow> string \<Rightarrow> ('w, 'm) rt \<Rightarrow> string result \<times> ('w, 'm) rt" where
  "retrieve_memory S key r =
     (case rt_store r of
        None \<Rightarrow> (fail ProviderInitFailed ''Memory store not initialized.'', r)
      | Some m \<Rightarrow> (case so_get (active_store S) key m of (res, m') \<Rightarrow> (res, r\<lparr>rt_store := Some m'\<rparr>)))"

definition clear_memory :: "('w, 'm) session \<Rightarrow> ('w, 'm) rt \<Rightarrow> unit result \<times> ('w, 'm) rt" where
  "clear_memory S r =
     (case rt_store r of
        None \<Rightarrow> (fail ProviderInitFailed ''Memory store not initialized.'', r)
      | Some m \<Rightarrow> (case so_clear (active_store S) m of (res, m') \<Rightarrow> (res, r\<lparr>rt_store := Some m'\<rparr>)))"

lemma store_memory_fields [simp]:
  "rt_memory (snd (store_memory S key v r)) = rt_memory r"
  "rt_stats (snd (store_memory S key v r)) = rt_stats r"
  "rt_media_rejected (snd (store_memory S key v r)) = rt_media_rejected r"
  "rt_env (snd (store_memory S key v r)) = rt_env r"
  by (simp_all add: store_memory_def split: option.split prod.split)

end
