(* ===== verification/Samples.thy ===== *)
theory Samples
  imports Store
begin

text \<open>
  A concrete session for the witnesses: the mock provider, the in-memory store, the reference
  JSON reader, no tools, and a fresh runtime state around a given history.
\<close>

definition sample_config :: "('w, 'm) config" where
  "sample_config =
     \<lparr>cfg_provider = Mock, cfg_context_window = 2048, cfg_max_tokens = 512, cfg_temperature = ''0.7000'',
      cfg_max_tool_call_rounds = 10, cfg_max_parallel_subagents = 4, cfg_default_task = 0, cfg_tools = [],
      cfg_permission_check = None, cfg_permission_prompt = None\<rparr>"

definition sample_session :: "(unit, in_memory_state) session" where
  "sample_session =
     \<lparr>config = sample_config, event_hooks = [], provider_state = None, active_store = in_memory_store,
      tool_by_name = Map.empty, tools_system_prompt = [], skills_system_prompt = [], skills = [],
      simdjson = json_parse, fs_absolute = Some\<rparr>"

definition sample_memory :: "message list \<Rightarrow> flow_memory" where
  "sample_memory h = \<lparr>fm_id = ''sample'', fm_history = h, fm_stats = turn_stats_zero\<rparr>"

definition sample_rt :: "message list \<Rightarrow> (unit, in_memory_state) rt" where
  "sample_rt h =
     \<lparr>rt_env = \<lparr>env_user = (), env_cancel = False\<rparr>, rt_memory = sample_memory h,
      rt_stats = session_stats_zero, rt_media_rejected = False, rt_store = Some open_in_memory,
      rt_arena = arena_new 65536 65536, rt_worker_arenas = [], rt_summary_arena = arena_new 0 0,
      rt_tools_paused = False\<rparr>"

definition sample_call :: tool_call where
  "sample_call = \<lparr>tc_id = ''1'', tc_name = ''f'', tc_arguments = ''{}''\<rparr>"

text \<open>A question, an assistant message with a call, its result, and an answer.\<close>

definition sample_history :: "message list" where
  "sample_history =
     [new_message ''user'' ''q'', (new_message ''assistant'' [])\<lparr>msg_tool_calls := [sample_call]\<rparr>,
      new_message ''tool'' ''r'', new_message ''assistant'' ''a'']"

lemma sample_rt_memory [simp]: "fm_history (rt_memory (sample_rt h)) = h"
  by (simp add: sample_rt_def sample_memory_def)

lemma sample_history_grouped: "grouped False sample_history"
  by (simp add: sample_history_def new_message_def makes_calls_def)

end
