(* ===== verification/Compress.thy ===== *)
theory Compress
  imports Providers Samples
begin

text \<open>
  Context compression, \<^verbatim>\<open>src/core/tools/context_compressor.cpp\<close>: \<open>compress_context\<close> replaces
  the older part of a conversation by a summary the model writes; it is called by a turn and as
  the built-in tool of the same name.
\<close>

section \<open>The source's functions\<close>

definition kCompressedHistoryPrefix :: string where
  "kCompressedHistoryPrefix = ''[Compressed history]: ''"

definition kSummaryArenaBase :: nat where
  "kSummaryArenaBase = 256 * 1024"

text \<open>
  The per-thread arena of the summary request. A block obtained from \<open>new\<close> is placed at a fixed
  address: only its alignment, 16 bytes as \<open>operator new\<close> guarantees, affects the allocations.
\<close>

definition heap_block :: u64 where
  "heap_block = 0x10000"

definition summary_arena :: "nat \<Rightarrow> arena \<Rightarrow> arena" where
  "summary_arena prompt_bytes a =
     (let need = of_nat (kSummaryArenaBase + 2 * prompt_bytes)
      in reset (if capacity a < need then arena_new heap_block need else a))"

definition kNoTools :: "string list" where
  "kNoTools = [CHR 0x01 # ''no-tools'']"

definition summary_request :: "string \<Rightarrow> 'w infer_request" where
  "summary_request prompt =
     \<lparr>req_messages =
        [\<lparr>mv_role = ''system'', mv_content = ''You are a concise summarizer. Output only the summary, no preamble.'',
          mv_tool_calls = [], mv_tool_call_id = [], mv_tensors = [], mv_media = []\<rparr>,
         \<lparr>mv_role = ''user'', mv_content = prompt, mv_tool_calls = [], mv_tool_call_id = [],
          mv_tensors = [], mv_media = []\<rparr>],
      req_max_tokens = 512, req_stream = False, req_on_token = None, req_task = 0, req_params_json = []\<rparr>"

definition summarize ::
    "('w, 'm) session \<Rightarrow> ('w, 'm) ambient \<Rightarrow> string \<Rightarrow> ('w, 'm) rt \<Rightarrow> string result \<times> ('w, 'm) rt" where
  "summarize S amb prompt r =
     (let no_tools = amb\<lparr>amb_allowed_tools := kNoTools\<rparr> in
      if cfg_provider (config S) = Engine then
        (case infer_task S no_tools cap_text_gen (summary_request prompt)
                (summary_arena (length prompt) (rt_summary_arena r)) (rt_env r) of
           (res, a, w) \<Rightarrow>
             (map_sum id (\<lambda>resp. mv_content (resp_message resp)) res, r\<lparr>rt_env := w, rt_summary_arena := a\<rparr>))
      else
        (case infer S no_tools (summary_request prompt) r of
           (res, r') \<Rightarrow> (map_sum id (\<lambda>resp. mv_content (resp_message resp)) res, r')))"

text \<open>One line of the prompt.\<close>

definition summary_line :: "message \<Rightarrow> string" where
  "summary_line msg =
     msg_role msg @ '': '' @
     (if msg_content msg = [] then [] else msg_content msg @ '' '') @
     concat (map (\<lambda>tc. ''[tool:'' @ tc_name tc @ '' '' @ tc_arguments tc @ ''] '') (msg_tool_calls msg)) @
     concat (map (\<lambda>m. ''[file: '' @ media_path m @ '' ('' @ media_mime m @ '')] '') (msg_media msg)) @
     [CHR 0x0A]"

definition summary_prompt :: "message list \<Rightarrow> string" where
  "summary_prompt ms =
     ''Summarize the following conversation concisely. Preserve all key facts, decisions, code snippets, and tool outputs:'' @
     [CHR 0x0A, CHR 0x0A] @ concat (map summary_line ms)"

text \<open>The loop that moves the end of the range off tool results.\<close>

function before_tool_results :: "message list \<Rightarrow> nat \<Rightarrow> nat \<Rightarrow> nat" where
  "before_tool_results h start e =
     (if e > start \<and> e < length h \<and> msg_role (h ! e) = ''tool'' then before_tool_results h start (e - 1) else e)"
  by pat_completeness auto
termination by (relation "measure (\<lambda>(h, start, e). e)") auto

declare before_tool_results.simps [simp del]

text \<open>
  The range \<open>[start, compress_end)\<close> to summarize; \<open>None\<close> for the two early returns.
\<close>

definition has_system :: "message list \<Rightarrow> bool" where
  "has_system h \<longleftrightarrow> h \<noteq> [] \<and> msg_role (h ! 0) = ''system'' \<and>
     \<not> starts_with (msg_content (h ! 0)) kCompressedHistoryPrefix"

definition compress_range :: "message list \<Rightarrow> nat \<Rightarrow> (nat \<times> nat) option" where
  "compress_range h keep_recent =
     (let start = (if has_system h then 1 else 0) in
      if length h \<le> start + keep_recent + 2 then None
      else
        let e0 = length h - keep_recent;
            e1 = (if msg_role (last h) = ''assistant'' \<and> msg_tool_calls (last h) \<noteq> []
                  then min e0 (length h - 1) else e0);
            e = before_tool_results h start e1
        in if e < start + 2 then None else Some (start, e))"

definition summary_message :: "string \<Rightarrow> message" where
  "summary_message t = new_message ''system'' (kCompressedHistoryPrefix @ t)"

definition count_compression :: "('w, 'm) rt \<Rightarrow> ('w, 'm) rt" where
  "count_compression r =
     r\<lparr>rt_memory := (rt_memory r)\<lparr>fm_stats := (fm_stats (rt_memory r))
          \<lparr>ts_compressions := ts_compressions (fm_stats (rt_memory r)) + 1\<rparr>\<rparr>,
       rt_stats := (rt_stats r)\<lparr>ss_total_compressions := ss_total_compressions (rt_stats r) + 1\<rparr>\<rparr>"

text \<open>
  \<open>compress_context\<close> on the conversation \<open>rt_memory\<close>. It returns \<open>ok\<close> on every path: a failed
  summary leaves the history alone.
\<close>

definition compress_context ::
    "('w, 'm) session \<Rightarrow> ('w, 'm) ambient \<Rightarrow> nat \<Rightarrow> ('w, 'm) rt \<Rightarrow> unit result \<times> ('w, 'm) rt" where
  "compress_context S amb keep_recent r =
     (let h = fm_history (rt_memory r) in
      case compress_range h keep_recent of
        None \<Rightarrow> (ok (), r)
      | Some (start, e) \<Rightarrow>
          (case summarize S amb (summary_prompt (take (e - start) (drop start h))) r of
             (Inl _, r1) \<Rightarrow> (ok (), r1)
           | (Inr t, r1) \<Rightarrow>
               (ok (), trigger_event S OnCompression []
                  (count_compression
                     (r1\<lparr>rt_memory := (rt_memory r1)\<lparr>fm_history :=
                        take start h @ [summary_message t] @ drop e h\<rparr>\<rparr>)))))"

text \<open>The tool: the last \<open>keep_recent\<close> member that is a non-negative integer wins.\<close>

fun keep_recent_field :: "(string \<times> json) list \<Rightarrow> nat \<Rightarrow> nat" where
  "keep_recent_field [] keep = keep"
| "keep_recent_field ((k, v) # fs) keep =
     keep_recent_field fs
       (if k = ''keep_recent'' then
          (case get_int64 (Some v) of Some i \<Rightarrow> if i \<ge> 0 then nat i else keep | None \<Rightarrow> keep)
        else keep)"

definition keep_recent_argument :: "(string \<Rightarrow> json option) \<Rightarrow> string \<Rightarrow> nat" where
  "keep_recent_argument parse arguments =
     (if arguments = [] then 6
      else case get_object (parse arguments) of None \<Rightarrow> 6 | Some fs \<Rightarrow> keep_recent_field fs 6)"

definition context_compressor_callback ::
    "('w, 'm) session \<Rightarrow> ('w, 'm) ambient \<Rightarrow> string \<Rightarrow> ('w, 'm) rt \<Rightarrow> string result \<times> ('w, 'm) rt" where
  "context_compressor_callback S amb arguments r =
     (case compress_context S amb (keep_recent_argument (simdjson S) arguments) r of
        (Inl e, r') \<Rightarrow> (Inl e, r')
      | (Inr _, r') \<Rightarrow> (ok ''Context compressed.'', r'))"

definition get_context_compressor_tool :: "('w, 'm) tool" where
  "get_context_compressor_tool =
     \<lparr>tool_name = ''compress_context'',
      tool_description = ''Summarize and compress the active conversation'' @ [CHR 0x27] @ ''s older history to free context window space. Optional: keep_recent (integer, number of most recent messages to keep uncompressed, default 6).'',
      tool_parameter_schema =
        render (JObject [(''type'', JString ''object''),
          (''properties'', JObject [(''keep_recent'', JObject [(''type'', JString ''integer''),
             (''description'', JString ''messages to keep uncompressed, default 6'')])])]),
      tool_fn = Some Context_Compressor, tool_parts_fn = None\<rparr>"

section \<open>What a compression does\<close>

lemma before_tool_results_le: "before_tool_results h start e \<le> e"
proof (induction h start e rule: before_tool_results.induct)
  case (1 h start e)
  then show ?case by (subst before_tool_results.simps) auto
qed

lemma before_tool_results_stops:
  "before_tool_results h start e \<le> start \<or> before_tool_results h start e \<ge> length h \<or>
   msg_role (h ! before_tool_results h start e) \<noteq> ''tool''"
proof (induction h start e rule: before_tool_results.induct)
  case (1 h start e)
  then show ?case by (subst (1 2 3) before_tool_results.simps) auto
qed

lemma compress_range_bounds:
  assumes "compress_range h k = Some (start, e)"
  shows "start = (if has_system h then 1 else 0)" "start + 2 \<le> e" "e + k \<le> length h"
    "e < length h \<Longrightarrow> msg_role (h ! e) \<noteq> ''tool''"
proof -
  define e1 where "e1 = (if msg_role (last h) = ''assistant'' \<and> msg_tool_calls (last h) \<noteq> []
      then min (length h - k) (length h - 1) else length h - k)"
  define s where "s = (if has_system h then 1 else 0 :: nat)"
  have e: "e = before_tool_results h s e1" "start = s" "s + 2 \<le> e" "\<not> length h \<le> s + k + 2"
    using assms by (auto simp: compress_range_def Let_def e1_def s_def split: if_splits)
  have "e1 + k \<le> length h" using e(4) by (auto simp: e1_def)
  with e before_tool_results_le [of h s e1] before_tool_results_stops [of h s e1]
  show "start = (if has_system h then 1 else 0)" "start + 2 \<le> e" "e + k \<le> length h"
    "e < length h \<Longrightarrow> msg_role (h ! e) \<noteq> ''tool''"
    by (auto simp: s_def)
qed

lemma summarize_fields [simp]:
  "rt_memory (snd (summarize S amb p r)) = rt_memory r"
  "rt_stats (snd (summarize S amb p r)) = rt_stats r"
  "rt_store (snd (summarize S amb p r)) = rt_store r"
  "rt_media_rejected (snd (summarize S amb p r)) = rt_media_rejected r"
  "rt_tools_paused (snd (summarize S amb p r)) = rt_tools_paused r"
proof -
  let ?no_tools = "amb\<lparr>amb_allowed_tools := kNoTools\<rparr>"
  obtain res r' where eq: "infer S ?no_tools (summary_request p) r = (res, r')" by fastforce
  note same = infer_fields [of S ?no_tools "summary_request p" r, unfolded eq snd_conv]
  show "rt_memory (snd (summarize S amb p r)) = rt_memory r"
    "rt_stats (snd (summarize S amb p r)) = rt_stats r"
    "rt_store (snd (summarize S amb p r)) = rt_store r"
    "rt_media_rejected (snd (summarize S amb p r)) = rt_media_rejected r"
    "rt_tools_paused (snd (summarize S amb p r)) = rt_tools_paused r"
    by (simp_all add: summarize_def Let_def eq same split: prod.split)
qed

lemma compress_context_cases:
  obtains (unchanged) r' where "compress_context S amb k r = (ok (), r')"
      "rt_memory r' = rt_memory r" "rt_stats r' = rt_stats r"
  | (compressed) start e t r' where "compress_context S amb k r = (ok (), r')"
      "compress_range (fm_history (rt_memory r)) k = Some (start, e)"
      "rt_memory r' = (rt_memory r)\<lparr>
         fm_history := take start (fm_history (rt_memory r)) @ [summary_message t] @ drop e (fm_history (rt_memory r)),
         fm_stats := (fm_stats (rt_memory r))\<lparr>ts_compressions := ts_compressions (fm_stats (rt_memory r)) + 1\<rparr>\<rparr>"
      "rt_stats r' = (rt_stats r)\<lparr>ss_total_compressions := ss_total_compressions (rt_stats r) + 1\<rparr>"
proof (cases "compress_range (fm_history (rt_memory r)) k")
  case None
  then show thesis by (intro unchanged) (simp_all add: compress_context_def)
next
  case (Some range)
  obtain start e where range: "range = (start, e)" by (cases range)
  define prompt where "prompt = summary_prompt (take (e - start) (drop start (fm_history (rt_memory r))))"
  obtain res r1 where sum: "summarize S amb prompt r = (res, r1)" by (cases "summarize S amb prompt r")
  have same: "rt_memory r1 = rt_memory r" "rt_stats r1 = rt_stats r"
    using summarize_fields [of S amb prompt r] sum by simp_all
  show thesis
  proof (cases res)
    case (Inl err)
    then show thesis
      using Some range sum same by (intro unchanged [of r1]) (simp_all add: compress_context_def Let_def prompt_def)
  next
    case (Inr t)
    show thesis
      by (rule compressed [of _ start e t])
        (use Some range sum same Inr in \<open>auto simp: compress_context_def Let_def prompt_def count_compression_def\<close>)
  qed
qed

text \<open>
  \<open>compress_context\<close> never fails. Either the conversation and the statistics stay as they
  were, or the messages of one range are replaced by a single summary message: the range starts
  after the system prompt, holds at least two messages, leaves at least \<open>keep_recent\<close> recent
  messages in place, and both counters of compressions go up by one.
\<close>

theorem compress_context_frame:
  "\<exists>r'. compress_context S amb k r = (ok (), r') \<and> fm_id (rt_memory r') = fm_id (rt_memory r) \<and>
     (rt_memory r' = rt_memory r \<and> rt_stats r' = rt_stats r \<or>
      (\<exists>start e t. start = (if has_system (fm_history (rt_memory r)) then 1 else 0) \<and> start + 2 \<le> e \<and>
         e + k \<le> length (fm_history (rt_memory r)) \<and>
         fm_history (rt_memory r') =
           take start (fm_history (rt_memory r)) @ [summary_message t] @ drop e (fm_history (rt_memory r)) \<and>
         ts_compressions (fm_stats (rt_memory r')) = ts_compressions (fm_stats (rt_memory r)) + 1 \<and>
         ss_total_compressions (rt_stats r') = ss_total_compressions (rt_stats r) + 1))"
proof (cases rule: compress_context_cases [of S amb k r])
  case (unchanged r')
  then show ?thesis by simp
next
  case (compressed start e t r')
  then show ?thesis
    using compress_range_bounds [OF compressed(2)]
    by (intro exI [of _ r'] conjI disjI2 exI [of _ start] exI [of _ e] exI [of _ t]) simp_all
qed

lemma grouped_compressed:
  assumes "grouped False h" "compress_range h k = Some (start, e)"
  shows "grouped False (take start h @ [summary_message t] @ drop e h)"
proof -
  have "drop e h = [] \<or> msg_role (hd (drop e h)) \<noteq> ''tool''"
    using compress_range_bounds(4) [OF assms(2)] by (cases "e < length h") (simp_all add: hd_drop_conv_nth)
  then have "grouped False (drop e h)" by (rule grouped_drop_non_tool [OF assms(1)])
  moreover have "grouped False (take start h)" by (rule grouped_take [OF assms(1)])
  ultimately show ?thesis
    by (simp add: grouped_append_non_tool summary_message_def new_message_def makes_calls_def grouped_mono)
qed





end
