(* ===== verification/Tools.thy ===== *)
theory Tools
  imports Compress
begin

text \<open>
  Tool dispatch, \<^verbatim>\<open>src/core/tools/tools_ops.cpp\<close>: the lookup, the \<open>allowed_tools\<close> check and the
  permission gate in front of every callback, the text a tool result contributes to the
  conversation, and the public \<open>execute_tool\<close> and \<open>execute_tool_parts\<close> of
  \<^verbatim>\<open>src/core/agent.cpp\<close>.
\<close>

section \<open>The source's functions\<close>

text \<open>
  \<open>default_init\<close>. The built-in filesystem and terminal tools (\<open>fs_tools\<close>, \<open>terminal\<close>) and the
  reading of a skills directory (\<open>load_skills\<close>, \<open>None\<close> when \<open>skills_dir\<close> is empty) are arguments;
  \<open>auto_default_tools\<close> is the configuration's flag.
\<close>

definition default_init ::
    "bool \<Rightarrow> ('w, 'm) tool list \<Rightarrow> ('w, 'm) tool \<Rightarrow> (('w, 'm) session \<Rightarrow> ('w, 'm) session result) option \<Rightarrow>
     ('w, 'm) session \<Rightarrow> ('w, 'm) session result" where
  "default_init auto_default_tools fs_tools terminal load_skills S =
     (let S1 = (if auto_default_tools then
                  S\<lparr>config := (config S)\<lparr>cfg_tools :=
                     add_if_missing get_context_compressor_tool
                       (add_if_missing terminal (fold add_if_missing fs_tools (cfg_tools (config S))))\<rparr>\<rparr>
                else S);
          S2 = rebuild_tool_index S1
      in case load_skills of None \<Rightarrow> ok S2 | Some load \<Rightarrow> load S2)"

definition is_absolute :: "string \<Rightarrow> bool" where
  "is_absolute p \<longleftrightarrow> starts_with p ''/''"

definition absolutize_media :: "(string \<Rightarrow> string option) \<Rightarrow> media list \<Rightarrow> media list" where
  "absolutize_media absolute ms =
     map (\<lambda>m. if media_path m = [] \<or> is_absolute (media_path m) then m
              else case absolute (media_path m) of None \<Rightarrow> m | Some p \<Rightarrow> m\<lparr>media_path := p\<rparr>) ms"

text \<open>The permission gate: the error it ends the call with, if any, and the environment.\<close>

definition permission_gate ::
    "('w, 'm) session \<Rightarrow> ('w, 'm) ambient \<Rightarrow> string \<Rightarrow> string \<Rightarrow> 'w env \<Rightarrow> error option \<times> 'w env" where
  "permission_gate S amb name arguments w =
     (case cfg_permission_check (config S) of
        None \<Rightarrow> (None, w)
      | Some check \<Rightarrow>
          (case check name arguments w of
             (Allow, w1) \<Rightarrow> (None, w1)
           | (Deny, w1) \<Rightarrow> (Some (Error PermissionDenied (''Tool denied by permission policy: '' @ name)), w1)
           | (Ask, w1) \<Rightarrow>
               if amb_tool_call_preapproved amb then (None, w1)
               else case cfg_permission_prompt (config S) of
                      None \<Rightarrow> (Some (Error PermissionDenied (''Tool declined: '' @ name)), w1)
                    | Some prompt \<Rightarrow>
                        (case prompt name arguments w1 of
                           (True, w2) \<Rightarrow> (None, w2)
                         | (False, w2) \<Rightarrow> (Some (Error PermissionDenied (''Tool declined: '' @ name)), w2))))"

definition text_result :: "string \<Rightarrow> tool_result" where
  "text_result t = \<lparr>tr_text = t, tr_media = [], tr_tensors = [], tr_is_error = False\<rparr>"

definition run_callback ::
    "('w, 'm) session \<Rightarrow> ('w, 'm) ambient \<Rightarrow> ('w, 'm) tool_callback \<Rightarrow> string \<Rightarrow> ('w, 'm) rt \<Rightarrow> string result \<times> ('w, 'm) rt" where
  "run_callback S amb cb arguments r =
     (case cb of
        Text_Callback f \<Rightarrow> f arguments r
      | Context_Compressor \<Rightarrow> context_compressor_callback S amb arguments r)"

definition run_tool ::
    "('w, 'm) session \<Rightarrow> ('w, 'm) ambient \<Rightarrow> ('w, 'm) tool \<Rightarrow> string \<Rightarrow> string \<Rightarrow> ('w, 'm) rt \<Rightarrow> tool_result result \<times> ('w, 'm) rt" where
  "run_tool S amb tool name arguments r =
     (case (tool_parts_fn tool, tool_fn tool) of
        (Some _, Some _) \<Rightarrow>
          (fail InvalidConfig (''Tool '' @ [CHR 0x27] @ name @ [CHR 0x27] @ '' sets both callback and parts_callback.''), r)
      | (Some parts, None) \<Rightarrow>
          (case parts arguments r of
             (Inl e, r') \<Rightarrow> (Inl e, r')
           | (Inr tr, r') \<Rightarrow> (ok (tr\<lparr>tr_media := absolutize_media (fs_absolute S) (tr_media tr)\<rparr>), r'))
      | (None, None) \<Rightarrow> (fail InvalidConfig (''Tool '' @ [CHR 0x27] @ name @ [CHR 0x27] @ '' has no callback.''), r)
      | (None, Some cb) \<Rightarrow>
          (case run_callback S amb cb arguments r of
             (Inl e, r') \<Rightarrow> (Inl e, r')
           | (Inr t, r') \<Rightarrow> (ok (text_result t), r')))"

definition default_execute ::
    "('w, 'm) session \<Rightarrow> ('w, 'm) ambient \<Rightarrow> string \<Rightarrow> string \<Rightarrow> ('w, 'm) rt \<Rightarrow> tool_result result \<times> ('w, 'm) rt" where
  "default_execute S amb name arguments r =
     (case tool_by_name S name of
        None \<Rightarrow> (fail KeyNotFound (''Tool not found: '' @ name), r)
      | Some i \<Rightarrow>
          if \<not> tool_allowed (amb_allowed_tools amb) name then
            (fail KeyNotFound (''Tool not allowed for the current agent node: '' @ name), r)
          else case permission_gate S amb name arguments (rt_env r) of
                 (Some e, w) \<Rightarrow> (Inl e, r\<lparr>rt_env := w\<rparr>)
               | (None, w) \<Rightarrow> run_tool S amb (cfg_tools (config S) ! i) name arguments (r\<lparr>rt_env := w\<rparr>))"

abbreviation execute_tool_parts ::
    "('w, 'm) session \<Rightarrow> ('w, 'm) ambient \<Rightarrow> string \<Rightarrow> string \<Rightarrow> ('w, 'm) rt \<Rightarrow> tool_result result \<times> ('w, 'm) rt" where
  "execute_tool_parts \<equiv> default_execute"

definition append_line :: "string \<Rightarrow> string \<Rightarrow> string" where
  "append_line line t = (if t = [] then line else t @ [CHR 0x0A] @ line)"

definition media_line :: "media \<Rightarrow> string" where
  "media_line m =
     ''[attached: '' @ media_path m @ '' ('' @
     (if media_mime m = [] then ''application/octet-stream'' else media_mime m) @ '')]''"

definition tensor_line :: "tensor_data \<Rightarrow> string" where
  "tensor_line t = ''[tensor: '' @ td_name t @ '' ['' @ sep_by '','' (map to_string_int (td_shape t)) @ '']]''"

definition render_tool_text :: "tool_result \<Rightarrow> string" where
  "render_tool_text tr =
     fold append_line (map tensor_line (tr_tensors tr)) (fold append_line (map media_line (tr_media tr)) (tr_text tr))"

definition execute_for_message ::
    "('w, 'm) session \<Rightarrow> ('w, 'm) ambient \<Rightarrow> string \<Rightarrow> string \<Rightarrow> ('w, 'm) rt \<Rightarrow> tool_result \<times> ('w, 'm) rt" where
  "execute_for_message S amb name arguments r =
     (case execute_tool_parts S amb name arguments r of
        (Inl e, r') \<Rightarrow>
          (\<lparr>tr_text = ''Error: '' @ message e, tr_media = [], tr_tensors = [], tr_is_error = True\<rparr>, r')
      | (Inr tr, r') \<Rightarrow>
          (let t = render_tool_text tr
           in (tr\<lparr>tr_text := (if tr_is_error tr
                              then ''Error: '' @ (if t = [] then ''tool reported an error'' else t) else t)\<rparr>, r')))"

definition execute_tool ::
    "('w, 'm) session \<Rightarrow> ('w, 'm) ambient \<Rightarrow> string \<Rightarrow> string \<Rightarrow> ('w, 'm) rt \<Rightarrow> string result \<times> ('w, 'm) rt" where
  "execute_tool S amb name arguments r =
     (case execute_tool_parts S amb name arguments r of
        (Inl e, r') \<Rightarrow> (Inl e, r')
      | (Inr tr, r') \<Rightarrow>
          (let t = render_tool_text tr
           in if tr_is_error tr then (fail ToolError (if t = [] then ''tool reported an error'' else t), r')
              else (ok t, r')))"

definition default_permission_policy :: "string \<Rightarrow> permission_decision" where
  "default_permission_policy name =
     (if name = ''run_command'' \<or> name = ''delete_path'' \<or> name = ''move_path'' then Ask else Allow)"

section \<open>The gate comes before every callback\<close>

text \<open>A call may reach a callback: the tool exists, the node allows it, and the gate lets it pass.\<close>

definition call_admitted :: "('w, 'm) session \<Rightarrow> ('w, 'm) ambient \<Rightarrow> string \<Rightarrow> string \<Rightarrow> 'w env \<Rightarrow> bool" where
  "call_admitted S amb name arguments w \<longleftrightarrow>
     tool_by_name S name \<noteq> None \<and> tool_allowed (amb_allowed_tools amb) name \<and>
     fst (permission_gate S amb name arguments w) = None"

lemma permission_gate_code: "fst (permission_gate S amb name arguments w) = Some e \<Longrightarrow> code e = PermissionDenied"
  by (auto simp: permission_gate_def split: option.splits prod.splits permission_decision.splits if_splits bool.splits)

lemma default_execute_refused:
  assumes "\<not> call_admitted S amb name arguments (rt_env r)"
  shows "\<exists>e w. default_execute S amb name arguments r = (Inl e, r\<lparr>rt_env := w\<rparr>) \<and>
     code e \<in> {KeyNotFound, PermissionDenied}"
proof (cases "tool_by_name S name \<noteq> None \<and> tool_allowed (amb_allowed_tools amb) name")
  case True
  then obtain e w where gate: "permission_gate S amb name arguments (rt_env r) = (Some e, w)"
    using assms by (cases "permission_gate S amb name arguments (rt_env r)") (auto simp: call_admitted_def)
  with True permission_gate_code [of S amb name arguments "rt_env r" e] show ?thesis
    by (auto simp: default_execute_def)
next
  case False
  then have "\<exists>e. default_execute S amb name arguments r = (Inl e, r) \<and> code e = KeyNotFound"
    by (auto simp: default_execute_def split: option.splits)
  then obtain e where "default_execute S amb name arguments r = (Inl e, r)" "code e = KeyNotFound" by blast
  then show ?thesis by (intro exI [of _ e] exI [of _ "rt_env r"]) simp
qed

text \<open>
  C8. No tool callback runs unless the tool is registered, the running agent node allows it, and
  the permission policy allows the call or an asked human (or a recorded approval) agrees: in
  every other case the call fails with \<open>KeyNotFound\<close> or \<open>PermissionDenied\<close>, and nothing but the
  environment the policy itself acts on has changed.
\<close>

theorem refused_call_has_no_effect:
  assumes "tool_by_name S name = None \<or> \<not> tool_allowed (amb_allowed_tools amb) name \<or>
     (\<exists>check. cfg_permission_check (config S) = Some check \<and>
        (fst (check name arguments (rt_env r)) = Deny \<or>
         fst (check name arguments (rt_env r)) = Ask \<and> \<not> amb_tool_call_preapproved amb \<and>
         (case cfg_permission_prompt (config S) of
            None \<Rightarrow> True
          | Some prompt \<Rightarrow> \<not> fst (prompt name arguments (snd (check name arguments (rt_env r)))))))"
  shows "\<exists>e w. default_execute S amb name arguments r = (Inl e, r\<lparr>rt_env := w\<rparr>) \<and>
     code e \<in> {KeyNotFound, PermissionDenied}"
proof (rule default_execute_refused)
  show "\<not> call_admitted S amb name arguments (rt_env r)"
    using assms
    by (auto simp: call_admitted_def permission_gate_def
        split: option.splits prod.splits permission_decision.splits if_splits bool.splits)
qed

theorem refused_call_has_no_effect_witness:
  "\<exists>e w. default_execute
      (sample_session\<lparr>config := sample_config\<lparr>cfg_permission_check := Some (\<lambda>n a w. (Deny, w))\<rparr>\<rparr>)
      ambient_default ''rm'' [] (sample_rt []) = (Inl e, (sample_rt [])\<lparr>rt_env := w\<rparr>) \<and>
    code e \<in> {KeyNotFound, PermissionDenied}"
  by (rule refused_call_has_no_effect) simp

text \<open>
  Name lookup: after \<open>rebuild_tool_index\<close> an admitted call runs the first tool registered
  under its name, whatever tools of the same name come after it.
\<close>

theorem execute_runs_first_registration:
  assumes "i < length (cfg_tools (config S))" "tool_name (cfg_tools (config S) ! i) = name"
    and "\<forall>j < i. tool_name (cfg_tools (config S) ! j) \<noteq> name"
    and "tool_allowed (amb_allowed_tools amb) name"
    and "permission_gate (rebuild_tool_index S) amb name arguments (rt_env r) = (None, w)"
  shows "default_execute (rebuild_tool_index S) amb name arguments r =
     run_tool (rebuild_tool_index S) amb (cfg_tools (config S) ! i) name arguments (r\<lparr>rt_env := w\<rparr>)"
proof -
  have "tool_by_name (rebuild_tool_index S) name = Some i"
    using assms(1-3) by (simp add: tool_by_name_rebuild first_index_Some)
  with assms(4,5) show ?thesis by (simp add: default_execute_def)
qed

definition sample_tool :: "string \<Rightarrow> (unit, in_memory_state) tool" where
  "sample_tool result =
     \<lparr>tool_name = ''f'', tool_description = [], tool_parameter_schema = [],
      tool_fn = Some (Text_Callback (\<lambda>a r. (ok result, r))), tool_parts_fn = None\<rparr>"

theorem execute_runs_first_registration_witness:
  "fst (default_execute
      (rebuild_tool_index (sample_session\<lparr>config := sample_config\<lparr>cfg_tools := [sample_tool ''1'', sample_tool ''2'']\<rparr>\<rparr>))
      ambient_default ''f'' [] (sample_rt [])) = ok (text_result ''1'')"
proof -
  let ?S = "sample_session\<lparr>config := sample_config\<lparr>cfg_tools := [sample_tool ''1'', sample_tool ''2'']\<rparr>\<rparr>"
  have "default_execute (rebuild_tool_index ?S) ambient_default ''f'' [] (sample_rt []) =
      run_tool (rebuild_tool_index ?S) ambient_default (cfg_tools (config ?S) ! 0) ''f'' []
        ((sample_rt [])\<lparr>rt_env := rt_env (sample_rt [])\<rparr>)"
    by (rule execute_runs_first_registration)
      (simp_all add: sample_tool_def tool_allowed_def ambient_default_def permission_gate_def sample_config_def)
  then show ?thesis by (simp add: run_tool_def run_callback_def sample_tool_def)
qed

end
