(* ===== verification/History_Json.thy ===== *)
theory History_Json
  imports Samples
begin

text \<open>
  Persistence of a conversation, \<^verbatim>\<open>src/core/executor/turn_executor.cpp\<close>: \<open>encode_history_json\<close>,
  \<open>decode_history_json\<close>, \<open>save_flow_memory\<close> and \<open>load_flow_memory\<close>.
\<close>

section \<open>The source's functions\<close>

definition encode_tool_call :: "tool_call \<Rightarrow> string" where
  "encode_tool_call tc =
     ''{'' @ quoted ''id'' @ '':'' @ quoted (tc_id tc) @ '','' @ quoted ''name'' @ '':'' @ quoted (tc_name tc) @ '','' @
     quoted ''arguments'' @ '':'' @ quoted (tc_arguments tc) @ ''}''"

definition encode_media :: "media \<Rightarrow> string" where
  "encode_media m =
     ''{'' @ quoted ''path'' @ '':'' @ quoted (media_path m) @ '','' @ quoted ''mime'' @ '':'' @ quoted (media_mime m) @ ''}''"

definition encode_message :: "message \<Rightarrow> string" where
  "encode_message msg =
     ''{'' @ quoted ''role'' @ '':'' @ quoted (msg_role msg) @ '','' @ quoted ''content'' @ '':'' @ quoted (msg_content msg) @ '','' @
     quoted ''tool_call_id'' @ '':'' @ quoted (msg_tool_call_id msg) @ '','' @ quoted ''tool_calls'' @ '':['' @
     sep_by '','' (map encode_tool_call (msg_tool_calls msg)) @ '']'' @
     (if msg_media msg = [] then []
      else '','' @ quoted ''media'' @ '':['' @ sep_by '','' (map encode_media (msg_media msg)) @ '']'') @ ''}''"

definition encode_history_json :: "message list \<Rightarrow> string" where
  "encode_history_json h = ''['' @ sep_by '','' (map encode_message h) @ '']''"

text \<open>A string member of an object, empty when it is missing or not a string.\<close>

definition string_field :: "(string \<times> json) list \<Rightarrow> string \<Rightarrow> string" where
  "string_field obj k = the_default [] (get_string (map_of obj k))"

definition object_field :: "(string \<times> json) list \<Rightarrow> string \<Rightarrow> (string \<times> json) list list" where
  "object_field obj k = objects_of (the_default [] (get_array (map_of obj k)))"

definition decode_tool_call :: "(string \<times> json) list \<Rightarrow> tool_call" where
  "decode_tool_call tc =
     \<lparr>tc_id = string_field tc ''id'', tc_name = string_field tc ''name'', tc_arguments = string_field tc ''arguments''\<rparr>"

definition decode_media :: "(string \<times> json) list \<Rightarrow> media" where
  "decode_media m = \<lparr>media_path = string_field m ''path'', media_mime = string_field m ''mime''\<rparr>"

definition decode_message :: "(string \<times> json) list \<Rightarrow> message" where
  "decode_message obj =
     (new_message (string_field obj ''role'') (string_field obj ''content''))
       \<lparr>msg_tool_call_id := string_field obj ''tool_call_id'',
        msg_tool_calls := map decode_tool_call (object_field obj ''tool_calls''),
        msg_media := map decode_media (object_field obj ''media'')\<rparr>"

definition decode_history_json :: "(string \<Rightarrow> json option) \<Rightarrow> string \<Rightarrow> message list result" where
  "decode_history_json parse txt =
     (case parse txt of
        None \<Rightarrow> fail ParseError ''Failed to parse stored history JSON.''
      | Some doc \<Rightarrow>
          (case get_array (Some doc) of
             None \<Rightarrow> fail ParseError ''Stored history is not a JSON array.''
           | Some items \<Rightarrow> ok (map decode_message (objects_of items))))"

definition encode_stats :: "turn_stats \<Rightarrow> string" where
  "encode_stats st =
     ''{'' @ quoted ''prompt_tokens'' @ '':'' @ to_string_int (ts_prompt_tokens st) @ '','' @
     quoted ''completion_tokens'' @ '':'' @ to_string_int (ts_completion_tokens st) @ '','' @
     quoted ''tool_calls'' @ '':'' @ to_string_int (ts_tool_calls st) @ '','' @
     quoted ''compressions'' @ '':'' @ to_string_int (ts_compressions st) @ '','' @
     quoted ''prune_cycles'' @ '':'' @ to_string_int (ts_prune_cycles st) @ '','' @
     quoted ''turns'' @ '':'' @ to_string_int (ts_turns st) @ ''}''"

text \<open>\<open>static_cast<int>\<close> of an \<open>int64_t\<close>.\<close>

definition to_int32 :: "int \<Rightarrow> int" where
  "to_int32 i = (i + 2 ^ 31) mod 2 ^ 32 - 2 ^ 31"

definition int_field :: "(string \<times> json) list \<Rightarrow> string \<Rightarrow> int \<Rightarrow> int" where
  "int_field obj k old = (case get_int64 (map_of obj k) of Some v \<Rightarrow> to_int32 v | None \<Rightarrow> old)"

definition decode_stats :: "(string \<times> json) list \<Rightarrow> turn_stats \<Rightarrow> turn_stats" where
  "decode_stats obj st =
     \<lparr>ts_prompt_tokens = int_field obj ''prompt_tokens'' (ts_prompt_tokens st),
      ts_completion_tokens = int_field obj ''completion_tokens'' (ts_completion_tokens st),
      ts_tool_calls = int_field obj ''tool_calls'' (ts_tool_calls st),
      ts_compressions = int_field obj ''compressions'' (ts_compressions st),
      ts_prune_cycles = int_field obj ''prune_cycles'' (ts_prune_cycles st),
      ts_turns = int_field obj ''turns'' (ts_turns st)\<rparr>"

definition save_flow_memory :: "('w, 'm) session \<Rightarrow> flow_memory \<Rightarrow> ('w, 'm) rt \<Rightarrow> unit result \<times> ('w, 'm) rt" where
  "save_flow_memory S mem r =
     (if fm_id mem = [] then (fail InvalidConfig ''FlowMemory.id is required to save history.'', r)
      else case store_memory S (''history:'' @ fm_id mem) (encode_history_json (fm_history mem)) r of
             (Inl e, r1) \<Rightarrow> (Inl e, r1)
           | (Inr _, r1) \<Rightarrow> store_memory S (''history_stats:'' @ fm_id mem) (encode_stats (fm_stats mem)) r1)"

definition load_flow_memory ::
    "('w, 'm) session \<Rightarrow> flow_memory \<Rightarrow> ('w, 'm) rt \<Rightarrow> unit result \<times> flow_memory \<times> ('w, 'm) rt" where
  "load_flow_memory S mem r =
     (if fm_id mem = [] then (fail InvalidConfig ''FlowMemory.id is required to load history.'', mem, r)
      else case retrieve_memory S (''history:'' @ fm_id mem) r of
             (Inl e, r1) \<Rightarrow> (Inl e, mem, r1)
           | (Inr txt, r1) \<Rightarrow>
               (case decode_history_json (simdjson S) txt of
                  Inl e \<Rightarrow> (Inl e, mem, r1)
                | Inr h \<Rightarrow>
                    (case retrieve_memory S (''history_stats:'' @ fm_id mem) r1 of
                       (Inl _, r2) \<Rightarrow> (ok (), mem\<lparr>fm_history := h\<rparr>, r2)
                     | (Inr st, r2) \<Rightarrow>
                         (case get_object (simdjson S st) of
                            None \<Rightarrow> (ok (), mem\<lparr>fm_history := h\<rparr>, r2)
                          | Some obj \<Rightarrow>
                              (ok (), mem\<lparr>fm_history := h, fm_stats := decode_stats obj (fm_stats mem)\<rparr>, r2)))))"

section \<open>The printed history as a document\<close>

definition tool_call_json :: "tool_call \<Rightarrow> json" where
  "tool_call_json tc = JObject [(''id'', JString (tc_id tc)), (''name'', JString (tc_name tc)), (''arguments'', JString (tc_arguments tc))]"

definition media_json :: "media \<Rightarrow> json" where
  "media_json m = JObject [(''path'', JString (media_path m)), (''mime'', JString (media_mime m))]"

definition message_json :: "message \<Rightarrow> json" where
  "message_json msg = JObject
     ([(''role'', JString (msg_role msg)), (''content'', JString (msg_content msg)),
       (''tool_call_id'', JString (msg_tool_call_id msg)), (''tool_calls'', JArray (map tool_call_json (msg_tool_calls msg)))] @
      (if msg_media msg = [] then [] else [(''media'', JArray (map media_json (msg_media msg)))]))"

definition history_json :: "message list \<Rightarrow> json" where
  "history_json h = JArray (map message_json h)"

lemma render_tool_call: "render (tool_call_json tc) = encode_tool_call tc"
  by (simp add: tool_call_json_def encode_tool_call_def)

lemma render_media: "render (media_json m) = encode_media m"
  by (simp add: media_json_def encode_media_def)

lemma render_message: "render (message_json msg) = encode_message msg"
  by (simp add: message_json_def encode_message_def comp_def render_tool_call render_media)

lemma render_history: "render (history_json h) = encode_history_json h"
  by (simp add: history_json_def encode_history_json_def comp_def render_message)

section \<open>Reading back\<close>

text \<open>Every string of the history is UTF-8.\<close>

definition message_utf8 :: "message \<Rightarrow> bool" where
  "message_utf8 msg \<longleftrightarrow> utf8_text (msg_role msg) \<and> utf8_text (msg_content msg) \<and> utf8_text (msg_tool_call_id msg) \<and>
     list_all (\<lambda>tc. utf8_text (tc_id tc) \<and> utf8_text (tc_name tc) \<and> utf8_text (tc_arguments tc)) (msg_tool_calls msg) \<and>
     list_all (\<lambda>m. utf8_text (media_path m) \<and> utf8_text (media_mime m)) (msg_media msg)"

text \<open>What is stored of a message: tensors and the token cache are not.\<close>

definition stored_message :: "message \<Rightarrow> message" where
  "stored_message msg = msg\<lparr>msg_tensors := [], msg_token_count := -1\<rparr>"

lemma ascii_keys [simp]:
  "utf8_text ''id''" "utf8_text ''name''" "utf8_text ''arguments''" "utf8_text ''path''" "utf8_text ''mime''"
  "utf8_text ''role''" "utf8_text ''content''" "utf8_text ''tool_call_id''" "utf8_text ''tool_calls''" "utf8_text ''media''"
  by (rule ascii_text, simp)+

lemma message_json_ok: "message_utf8 msg \<Longrightarrow> json_ok (message_json msg)"
  by (auto simp: message_json_def message_utf8_def tool_call_json_def media_json_def list_all_iff)

lemma foldr_max_le: "\<forall>x \<in> set xs. x \<le> n \<Longrightarrow> foldr max xs 0 \<le> (n :: nat)"
  by (induction xs) auto

lemma history_depth: "json_depth (history_json h) \<le> 4"
proof -
  have tc: "json_depth (tool_call_json tc) \<le> 1" "json_depth (media_json m) \<le> 1" for tc m
    by (simp_all add: tool_call_json_def media_json_def)
  have arr: "foldr max (map (json_depth \<circ> f) xs) 0 \<le> 1" if "\<And>x. json_depth (f x) \<le> 1" for f and xs :: "'z list"
    using that by (intro foldr_max_le) auto
  have "json_depth (message_json msg) \<le> 3" for msg
    using arr [of tool_call_json "msg_tool_calls msg"] arr [of media_json "msg_media msg"] tc
    by (simp add: message_json_def)
  then show ?thesis
    unfolding history_json_def using foldr_max_le [of "map (json_depth \<circ> message_json) h" 3] by auto
qed

lemma decode_message_json:
  assumes "message_json msg = JObject fs"
  shows "decode_message fs = stored_message msg"
proof -
  have calls: "map decode_tool_call (objects_of (map tool_call_json cs)) = cs" for cs
    by (induction cs) (simp_all add: tool_call_json_def decode_tool_call_def string_field_def)
  have media: "map decode_media (objects_of (map media_json ms)) = ms" for ms
    by (induction ms) (simp_all add: media_json_def decode_media_def string_field_def)
  show ?thesis
    using assms calls [of "msg_tool_calls msg"] media [of "msg_media msg"]
    by (auto simp: message_json_def decode_message_def stored_message_def new_message_def string_field_def
        object_field_def split: if_splits)
qed

lemma decode_messages: "map decode_message (objects_of (map message_json h)) = map stored_message h"
proof (induction h)
  case (Cons msg h)
  obtain fs where "message_json msg = JObject fs" by (simp add: message_json_def)
  with Cons decode_message_json show ?case by simp
qed simp

context json_reader
begin

lemma decode_encode_history:
  assumes "list_all message_utf8 h" "length (encode_history_json h) \<le> json_max_size"
  shows "decode_history_json parse (encode_history_json h) = ok (map stored_message h)"
proof -
  have "parse (encode_history_json h) = Some (history_json h)"
    unfolding render_history [symmetric]
    using assms history_depth [of h]
    by (intro parse_render) (auto simp: history_json_def list_all_iff message_json_ok json_max_depth_def
        encode_history_json_def comp_def render_message)
  then show ?thesis by (simp add: decode_history_json_def history_json_def decode_messages)
qed

end

section \<open>Statistics\<close>

definition stats_json :: "turn_stats \<Rightarrow> json" where
  "stats_json st = JObject
     [(''prompt_tokens'', JInt (ts_prompt_tokens st)), (''completion_tokens'', JInt (ts_completion_tokens st)),
      (''tool_calls'', JInt (ts_tool_calls st)), (''compressions'', JInt (ts_compressions st)),
      (''prune_cycles'', JInt (ts_prune_cycles st)), (''turns'', JInt (ts_turns st))]"

text \<open>The counters are C++ \<open>int\<close>s.\<close>

definition is_int32 :: "int \<Rightarrow> bool" where
  "is_int32 i \<longleftrightarrow> - (2 ^ 31) \<le> i \<and> i < 2 ^ 31"

definition stats_int32 :: "turn_stats \<Rightarrow> bool" where
  "stats_int32 st \<longleftrightarrow> is_int32 (ts_prompt_tokens st) \<and> is_int32 (ts_completion_tokens st) \<and> is_int32 (ts_tool_calls st) \<and>
     is_int32 (ts_compressions st) \<and> is_int32 (ts_prune_cycles st) \<and> is_int32 (ts_turns st)"

lemma to_int32_id: "is_int32 i \<Longrightarrow> to_int32 i = i"
  by (simp add: is_int32_def to_int32_def)

lemma render_stats: "render (stats_json st) = encode_stats st"
  by (simp add: stats_json_def encode_stats_def)

lemma stats_keys [simp]:
  "utf8_text ''prompt_tokens''" "utf8_text ''completion_tokens''" "utf8_text ''compressions''"
  "utf8_text ''prune_cycles''" "utf8_text ''turns''"
  by (rule ascii_text, simp)+

lemma decode_stats_json:
  "stats_int32 st \<Longrightarrow> stats_json st = JObject fs \<Longrightarrow> decode_stats fs old = st"
  by (auto simp: stats_json_def decode_stats_def int_field_def stats_int32_def to_int32_id)

lemma to_string_length: "0 < k \<Longrightarrow> n < 10 ^ k \<Longrightarrow> length (to_string n) \<le> k"
proof (induction k arbitrary: n)
  case (Suc k)
  show ?case
  proof (cases "n < 10")
    case True
    then show ?thesis by (subst to_string.simps) simp
  next
    case False
    then have "0 < k" using Suc.prems by (cases k) auto
    moreover have "n div 10 < 10 ^ k" using Suc.prems by (simp add: less_mult_imp_div_less mult.commute)
    ultimately have "length (to_string (n div 10)) \<le> k" by (rule Suc.IH)
    with False show ?thesis by (subst to_string.simps) simp
  qed
qed simp

lemma int32_length: "is_int32 i \<Longrightarrow> length (to_string_int i) \<le> 11"
  using to_string_length [of 10 "nat i"] to_string_length [of 10 "nat (- i)"]
  by (auto simp: is_int32_def to_string_int_def nat_less_iff)

lemma stats_length: "stats_int32 st \<Longrightarrow> length (encode_stats st) \<le> json_max_size"
  using int32_length [of "ts_prompt_tokens st"] int32_length [of "ts_completion_tokens st"]
    int32_length [of "ts_tool_calls st"] int32_length [of "ts_compressions st"]
    int32_length [of "ts_prune_cycles st"] int32_length [of "ts_turns st"]
  by (simp add: stats_int32_def encode_stats_def json_max_size_def quoted_def escape_json_string_def escape_char_def)

context json_reader
begin

lemma parse_stats: "stats_int32 st \<Longrightarrow> parse (encode_stats st) = Some (stats_json st)"
  unfolding render_stats [symmetric]
  by (rule parse_render)
    (simp_all add: render_stats stats_length, simp_all add: stats_json_def stats_int32_def is_int32_def json_max_depth_def)

end

section \<open>Save, then load\<close>

lemma history_keys_differ: "''history:'' @ a \<noteq> ''history_stats:'' @ b"
  by simp

context kv_store
begin

lemma put_two_get_two:
  assumes "put k1 v1 m = (ok u1, m1)" "put k2 v2 m1 = (ok u2, m2)" "k1 \<noteq> k2"
  obtains m3 m4 where "get k1 m2 = (ok v1, m3)" "get k2 m3 = (ok v2, m4)"
proof -
  have "contents m2 k1 = Some v1" using put_contents [OF assms(1)] put_contents [OF assms(2)] assms(3) by simp
  then obtain m3 where m3: "get k1 m2 = (ok v1, m3)" using get_found by blast
  have "contents m3 k2 = Some v2" using get_contents [OF m3] put_contents [OF assms(2)] by simp
  then obtain m4 where "get k2 m3 = (ok v2, m4)" using get_found by blast
  with m3 show thesis by (rule that)
qed

end

lemma save_flow_memory_ok:
  assumes "save_flow_memory S mem r = (ok u, r')"
  obtains m m1 m2 u1 u2 where "fm_id mem \<noteq> []" "rt_store r = Some m" "rt_store r' = Some m2"
    "so_put (active_store S) (''history:'' @ fm_id mem) (encode_history_json (fm_history mem)) m = (ok u1, m1)"
    "so_put (active_store S) (''history_stats:'' @ fm_id mem) (encode_stats (fm_stats mem)) m1 = (ok u2, m2)"
  using assms by (auto simp: save_flow_memory_def store_memory_def split: if_splits option.splits prod.splits sum.splits)

text \<open>Loading, in any state with the store a successful save left.\<close>

lemma load_saved:
  assumes kv: "kv_store (so_put (active_store S)) (so_get (active_store S)) (so_clear (active_store S)) contents"
    and js: "json_reader (simdjson S)"
    and saved: "save_flow_memory S mem r = (ok u, r')" "rt_store r1 = rt_store r'"
    and utf8: "list_all message_utf8 (fm_history mem)"
    and size: "length (encode_history_json (fm_history mem)) \<le> json_max_size"
    and range: "stats_int32 (fm_stats mem)"
  shows "\<exists>r''. load_flow_memory S \<lparr>fm_id = fm_id mem, fm_history = h0, fm_stats = st0\<rparr> r1 =
     (ok (), mem\<lparr>fm_history := map stored_message (fm_history mem)\<rparr>, r'')"
proof -
  obtain m m1 m2 u1 u2 where st: "fm_id mem \<noteq> []" "rt_store r' = Some m2"
      "so_put (active_store S) (''history:'' @ fm_id mem) (encode_history_json (fm_history mem)) m = (ok u1, m1)"
      "so_put (active_store S) (''history_stats:'' @ fm_id mem) (encode_stats (fm_stats mem)) m1 = (ok u2, m2)"
    using saved(1) by (rule save_flow_memory_ok)
  obtain m3 m4 where gets: "so_get (active_store S) (''history:'' @ fm_id mem) m2 = (ok (encode_history_json (fm_history mem)), m3)"
      "so_get (active_store S) (''history_stats:'' @ fm_id mem) m3 = (ok (encode_stats (fm_stats mem)), m4)"
    using kv_store.put_two_get_two [OF kv st(3,4) history_keys_differ] by blast
  obtain fs where fs: "stats_json (fm_stats mem) = JObject fs" by (simp add: stats_json_def)
  have h: "decode_history_json (simdjson S) (encode_history_json (fm_history mem)) = ok (map stored_message (fm_history mem))"
    by (rule json_reader.decode_encode_history [OF js utf8 size])
  have s: "get_object (simdjson S (encode_stats (fm_stats mem))) = Some fs"
    using json_reader.parse_stats [OF js range] fs by simp
  show ?thesis
    using st(1,2) saved(2) gets h s decode_stats_json [OF range fs]
    by (simp add: load_flow_memory_def retrieve_memory_def)
qed

text \<open>
  C7. Saving a conversation and loading it into a conversation of the same id gives the history
  and the statistics back, for every store that keeps the \<open>StoreOps\<close> contract and every JSON
  reader that keeps the reader's: messages, tool calls and media are restored exactly; tensors
  and the token cache are not stored.
\<close>

theorem flow_memory_round_trip:
  assumes kv: "kv_store (so_put (active_store S)) (so_get (active_store S)) (so_clear (active_store S)) contents"
    and js: "json_reader (simdjson S)"
    and saved: "save_flow_memory S mem r = (ok u, r')"
    and utf8: "list_all message_utf8 (fm_history mem)"
    and size: "length (encode_history_json (fm_history mem)) \<le> json_max_size"
    and range: "stats_int32 (fm_stats mem)"
  shows "\<exists>r''. load_flow_memory S \<lparr>fm_id = fm_id mem, fm_history = h0, fm_stats = st0\<rparr> r' =
     (ok (), mem\<lparr>fm_history := map stored_message (fm_history mem)\<rparr>, r'')"
  by (rule load_saved [OF kv js saved refl utf8 size range])

theorem flow_memory_round_trip_witness:
  "\<exists>r' r''. save_flow_memory sample_session (sample_memory sample_history) (sample_rt []) = (ok (), r') \<and>
     load_flow_memory sample_session (sample_memory []) r' =
       (ok (), sample_memory (map stored_message sample_history), r'')"
proof -
  have "\<exists>r'. save_flow_memory sample_session (sample_memory sample_history) (sample_rt []) = (ok (), r')"
    by (simp add: save_flow_memory_def store_memory_def sample_session_def sample_rt_def in_memory_store_def
        put_in_memory_def sample_memory_def)
  then obtain r' where saved: "save_flow_memory sample_session (sample_memory sample_history) (sample_rt []) = (ok (), r')" ..
  have kv: "kv_store (so_put (active_store sample_session)) (so_get (active_store sample_session))
      (so_clear (active_store sample_session)) (\<lambda>kv. kv)"
    using in_memory.kv_store_axioms by (simp add: sample_session_def in_memory_store_def)
  have js: "json_reader (simdjson sample_session)"
    using reference.json_reader_axioms by (simp add: sample_session_def)
  have utf8: "list_all message_utf8 sample_history"
    by (auto simp: sample_history_def new_message_def message_utf8_def sample_call_def intro!: ascii_text)
  have "length (encode_history_json sample_history) \<le> json_max_size"
    by (simp add: sample_history_def encode_history_json_def encode_message_def new_message_def sample_call_def
        encode_tool_call_def quoted_def escape_json_string_def escape_char_def json_max_size_def)
  moreover have "stats_int32 turn_stats_zero" by (simp add: stats_int32_def turn_stats_zero_def is_int32_def)
  ultimately obtain r'' where "load_flow_memory sample_session (sample_memory []) r' =
      (ok (), (sample_memory sample_history)\<lparr>fm_history := map stored_message sample_history\<rparr>, r'')"
    using flow_memory_round_trip [OF kv js saved, of "[]" turn_stats_zero] utf8 by (auto simp: sample_memory_def)
  with saved show ?thesis by (auto simp: sample_memory_def)
qed

end
