(* ===== verification/Turn.thy ===== *)
theory Turn
  imports Tools History_Json
begin

text \<open>
  The agent turn, \<^verbatim>\<open>src/core/executor/turn_executor.cpp\<close>: token counting, pruning of the
  history to the context window, the message views built in the arena, and the loop of
  \<open>run_turn_with_media\<close> that alternates inference and tool calls.

  The loop is \<open>turn_loop\<close>, a partial function in the option type: \<open>None\<close> stands for a loop that
  never ends. Token counts and statistics are mathematical integers; sizes are natural numbers.
  Log lines are not modelled.
\<close>

section \<open>Token counts\<close>

definition provider_counts_tokens :: "('w, 'm) session \<Rightarrow> bool" where
  "provider_counts_tokens S \<longleftrightarrow> cfg_provider (config S) = Engine"

text \<open>The lambda \<open>add\<close> over the parts of a message: empty parts and failed counts add nothing.\<close>

fun count_parts :: "('w, 'm) session \<Rightarrow> string list \<Rightarrow> int \<Rightarrow> 'w env \<Rightarrow> int \<times> 'w env" where
  "count_parts S [] tokens w = (tokens, w)"
| "count_parts S (p # ps) tokens w =
     (if p = [] then count_parts S ps tokens w
      else case count_tokens_engine S p w of
             (Inr n, w') \<Rightarrow> count_parts S ps (tokens + n) w'
           | (Inl _, w') \<Rightarrow> count_parts S ps tokens w')"

definition message_text_parts :: "message \<Rightarrow> string list" where
  "message_text_parts msg =
     msg_role msg # msg_content msg # concat (map (\<lambda>tc. [tc_name tc, tc_arguments tc]) (msg_tool_calls msg))"

definition estimate_tokens :: "message \<Rightarrow> int" where
  "estimate_tokens msg =
     int ((length (msg_role msg) + 2 + length (msg_content msg) + 1 +
           sum_list (map (\<lambda>tc. length (tc_name tc) + length (tc_arguments tc)) (msg_tool_calls msg)) + 3) div 4)"

definition count_message_tokens :: "('w, 'm) session \<Rightarrow> message \<Rightarrow> 'w env \<Rightarrow> int \<times> message \<times> 'w env" where
  "count_message_tokens S msg w =
     (if msg_token_count msg \<ge> 0 then (msg_token_count msg, msg, w)
      else
        case (if provider_counts_tokens S then count_parts S (message_text_parts msg) 0 w else (0, w)) of
          (t, w') \<Rightarrow>
            let tokens = (if t = 0 then estimate_tokens msg else t)
            in (tokens, msg\<lparr>msg_token_count := tokens\<rparr>, w'))"

text \<open>The sum over a list of messages; every message keeps its count.\<close>

fun count_all :: "('w, 'm) session \<Rightarrow> message list \<Rightarrow> 'w env \<Rightarrow> int \<times> message list \<times> 'w env" where
  "count_all S [] w = (0, [], w)"
| "count_all S (m # ms) w =
     (case count_message_tokens S m w of (n, m', w1) \<Rightarrow>
      case count_all S ms w1 of (tot, ms', w2) \<Rightarrow> (n + tot, m' # ms', w2))"

definition count_text_tokens :: "('w, 'm) session \<Rightarrow> string \<Rightarrow> 'w env \<Rightarrow> int \<times> 'w env" where
  "count_text_tokens S t w =
     (if t = [] then (0, w)
      else if provider_counts_tokens S then
        (case count_tokens_engine S t w of
           (Inr n, w') \<Rightarrow> (n, w')
         | (Inl _, w') \<Rightarrow> (int ((length t + 3) div 4), w'))
      else (int ((length t + 3) div 4), w))"

section \<open>Pruning\<close>

abbreviation is_tool :: "message \<Rightarrow> bool" where
  "is_tool m \<equiv> msg_role m = ''tool''"

abbreviation is_system :: "message \<Rightarrow> bool" where
  "is_system m \<equiv> msg_role m = ''system''"

text \<open>
  The number of messages dropped together from position \<open>i\<close>: a run of tool results, an assistant
  message with its tool results, or one message.
\<close>

definition group_size :: "message list \<Rightarrow> nat \<Rightarrow> nat" where
  "group_size h i =
     (if is_tool (h ! i) \<or> makes_calls (h ! i) then 1 + length (takeWhile is_tool (drop (i + 1) h)) else 1)"

lemma group_size_pos: "0 < group_size h i"
  by (simp add: group_size_def)

function prune_loop ::
    "('w, 'm) session \<Rightarrow> message list \<Rightarrow> int \<Rightarrow> nat \<Rightarrow> nat \<Rightarrow> nat \<Rightarrow> int \<Rightarrow> 'w env \<Rightarrow> nat \<times> 'w env" where
  "prune_loop S h max_allowed min_keep drop_from drop_to tot w =
     (if tot > max_allowed \<and> drop_to < length h \<and> \<not> length h - (drop_to - drop_from) \<le> min_keep \<and>
         \<not> length h - (drop_to - drop_from) - group_size h drop_to < min_keep
      then case count_all S (take (group_size h drop_to) (drop drop_to h)) w of
             (n, _, w') \<Rightarrow>
               prune_loop S h max_allowed min_keep drop_from (drop_to + group_size h drop_to) (tot - n) w'
      else (drop_to, w))"
  by pat_completeness auto
termination
  by (relation "measure (\<lambda>(S, h, _, _, _, drop_to, _, _). length h - drop_to)") (auto simp: group_size_pos diff_less_mono2)

declare prune_loop.simps [simp del]

definition fixed_start :: "message list \<Rightarrow> nat" where
  "fixed_start h =
     (let n = length (takeWhile is_system h) in if n = length h then length h - 1 else n)"

definition max_allowed_tokens :: "('w, 'm) session \<Rightarrow> int \<Rightarrow> int" where
  "max_allowed_tokens S prefix_tokens =
     max 200 (cfg_context_window (config S) - cfg_max_tokens (config S) - 100 - prefix_tokens)"

definition set_history :: "message list \<Rightarrow> ('w, 'm) rt \<Rightarrow> ('w, 'm) rt" where
  "set_history h r = r\<lparr>rt_memory := (rt_memory r)\<lparr>fm_history := h\<rparr>\<rparr>"

definition update_stats :: "(turn_stats \<Rightarrow> turn_stats) \<Rightarrow> ('w, 'm) rt \<Rightarrow> ('w, 'm) rt" where
  "update_stats f r = r\<lparr>rt_memory := (rt_memory r)\<lparr>fm_stats := f (fm_stats (rt_memory r))\<rparr>\<rparr>"

abbreviation history :: "('w, 'm) rt \<Rightarrow> message list" where
  "history r \<equiv> fm_history (rt_memory r)"

text \<open>\<open>prune_history_state\<close> returns \<open>ok\<close> on every path.\<close>

definition prune_history_state :: "('w, 'm) session \<Rightarrow> ('w, 'm) ambient \<Rightarrow> ('w, 'm) rt \<Rightarrow> ('w, 'm) rt" where
  "prune_history_state S amb r =
     (case count_text_tokens S (injected_system_text S amb) (rt_env r) of
        (prefix_tokens, w0) \<Rightarrow>
          if history r = [] then r\<lparr>rt_env := w0\<rparr>
          else
            case count_all S (history r) w0 of
              (tot, h, w1) \<Rightarrow>
                (case prune_loop S h (max_allowed_tokens S prefix_tokens) (fixed_start h + 1)
                        (fixed_start h) (fixed_start h) tot w1 of
                   (drop_to, w2) \<Rightarrow>
                     if drop_to > fixed_start h then
                       trigger_event S OnPrune []
                         (update_stats (\<lambda>st. st\<lparr>ts_prune_cycles := ts_prune_cycles st + 1\<rparr>)
                            (set_history (take (fixed_start h) h @ drop drop_to h) (r\<lparr>rt_env := w2\<rparr>)))
                     else set_history h (r\<lparr>rt_env := w2\<rparr>)))"

section \<open>Tool hooks\<close>

fun fire_hooks ::
    "('w, 'm) tool_hook list \<Rightarrow> hook_when \<Rightarrow> string \<Rightarrow> string \<Rightarrow> string \<Rightarrow> ('w, 'm) rt \<Rightarrow> ('w, 'm) rt" where
  "fire_hooks [] wh name args res r = r"
| "fire_hooks (h # hs) wh name args res r =
     fire_hooks hs wh name args res
       (if th_when h \<noteq> wh \<or> th_tool_name h \<noteq> [] \<and> th_tool_name h \<noteq> name then r
        else case th_callback h of None \<Rightarrow> r | Some f \<Rightarrow> f name args res r)"

definition fire_tool_hooks ::
    "('w, 'm) ambient \<Rightarrow> hook_when \<Rightarrow> string \<Rightarrow> string \<Rightarrow> string \<Rightarrow> ('w, 'm) rt \<Rightarrow> ('w, 'm) rt" where
  "fire_tool_hooks amb wh name args res r = fire_hooks (amb_active_hooks amb) wh name args res r"

section \<open>Message views\<close>

definition lead_count :: "message list \<Rightarrow> nat" where
  "lead_count h =
     (case h of
        [] \<Rightarrow> 0
      | m # ms \<Rightarrow>
          if is_system m
          then 1 + length (takeWhile (\<lambda>m. is_system m \<and> msg_media m = [] \<and> msg_tensors m = []) ms) else 0)"

definition views_full :: "error" where
  "views_full = Error DecodeFailed ''Arena capacity exhausted building message views.''"

definition views_full_hint :: "error" where
  "views_full_hint = Error DecodeFailed
     ''Arena capacity exhausted building message views. Increase Config::arena_capacity or reduce Config::context_window.''"

text \<open>Media a tool returned is sent only when the engine takes it; other media always is.\<close>

definition sent_media :: "('w, 'm) session \<Rightarrow> bool \<Rightarrow> message \<Rightarrow> media list" where
  "sent_media S rejected m =
     filter (\<lambda>md. \<not> is_tool m \<or> accepts_tool_media S rejected (media_mime md)) (msg_media m)"

definition take_span_if :: "u64 \<Rightarrow> nat \<Rightarrow> arena \<Rightarrow> bool \<times> arena" where
  "take_span_if sizeof n a = (if n = 0 then (True, a) else take_span sizeof n a)"

text \<open>
  The loop over the messages, \<open>first\<close> being the content of the next message when it is the merged
  system message. \<open>None\<close> when the arena is full; the flag is \<open>sent_tool_media\<close>.
\<close>

fun build_views ::
    "('w, 'm) session \<Rightarrow> bool \<Rightarrow> string \<Rightarrow> message list \<Rightarrow> arena \<Rightarrow> (message_view list \<times> bool) option \<times> arena" where
  "build_views S rejected combined [] a = (Some ([], False), a)"
| "build_views S rejected combined (m # ms) a =
     (case take_span_if sizeof_tool_call_view (length (msg_tool_calls m)) a of
        (False, a1) \<Rightarrow> (None, a1)
      | (True, a1) \<Rightarrow>
          (case take_span_if sizeof_tensor_view (length (msg_tensors m)) a1 of
             (False, a2) \<Rightarrow> (None, a2)
           | (True, a2) \<Rightarrow>
               (case take_span_if sizeof_media_view (length (sent_media S rejected m)) a2 of
                  (False, a3) \<Rightarrow> (None, a3)
                | (True, a3) \<Rightarrow>
                    (case build_views S rejected [] ms a3 of
                       (None, a4) \<Rightarrow> (None, a4)
                     | (Some (vs, sent), a4) \<Rightarrow>
                         (Some (\<lparr>mv_role = msg_role m,
                                 mv_content = (if combined \<noteq> [] then combined else msg_content m),
                                 mv_tool_calls = msg_tool_calls m, mv_tool_call_id = msg_tool_call_id m,
                                 mv_tensors = msg_tensors m, mv_media = sent_media S rejected m\<rparr> # vs,
                                sent \<or> is_tool m \<and> sent_media S rejected m \<noteq> []), a4)))))"

definition prefix_view :: "string \<Rightarrow> message_view" where
  "prefix_view injected =
     \<lparr>mv_role = ''system'', mv_content = injected, mv_tool_calls = [], mv_tool_call_id = [],
      mv_tensors = [], mv_media = []\<rparr>"

text \<open>The merged system message: the leading contents and the injected text.\<close>

definition combined_system :: "message list \<Rightarrow> nat \<Rightarrow> string \<Rightarrow> string" where
  "combined_system h n_lead injected =
     sep_by [CHR 0x0A, CHR 0x0A] (map msg_content (take n_lead h)) @
     (if injected = [] then [] else [CHR 0x0A] @ injected)"

definition build_message_views ::
    "('w, 'm) session \<Rightarrow> ('w, 'm) ambient \<Rightarrow> bool \<Rightarrow> message list \<Rightarrow> arena \<Rightarrow> (message_view list \<times> bool) result \<times> arena" where
  "build_message_views S amb rejected h a =
     (let injected = injected_system_text S amb;
          n_lead = lead_count h;
          need_tools_prefix = (injected \<noteq> [] \<and> n_lead = 0);
          merged = (if n_lead > 1 then n_lead - 1 else 0);
          view_count = length h - merged + (if need_tools_prefix then 1 else 0);
          merge = (n_lead > 1 \<or> n_lead = 1 \<and> injected \<noteq> []);
          bytes = (if injected = [] then 0 else length injected + 1) +
                  sum_list (map (\<lambda>m. length (msg_content m) + 2) (take n_lead h))
      in case take_span sizeof_message_view view_count a of (views_ok, a1) \<Rightarrow>
         if view_count \<noteq> 0 \<and> \<not> views_ok then (Inl views_full_hint, a1)
         else
           case (if merge then allocate (of_nat (bytes + 1)) 1 a1 else (Some 0, a1)) of
             (None, a2) \<Rightarrow> (Inl views_full, a2)
           | (Some _, a2) \<Rightarrow>
               let combined = (if merge then combined_system h n_lead injected else []);
                   kept = take 1 h @ drop (max 1 n_lead) h
               in case build_views S rejected combined kept a2 of
                    (None, a3) \<Rightarrow> (Inl views_full, a3)
                  | (Some (vs, sent), a3) \<Rightarrow>
                      (ok ((if need_tools_prefix then [prefix_view injected] else []) @ vs, sent), a3))"

section \<open>The turn\<close>

definition push_message :: "message \<Rightarrow> ('w, 'm) rt \<Rightarrow> ('w, 'm) rt" where
  "push_message m r = set_history (history r @ [m]) r"

definition request_cancel :: "('w, 'm) rt \<Rightarrow> ('w, 'm) rt" where
  "request_cancel r = r\<lparr>rt_env := (rt_env r)\<lparr>env_cancel := True\<rparr>\<rparr>"

definition clear_cancel :: "('w, 'm) rt \<Rightarrow> ('w, 'm) rt" where
  "clear_cancel r = r\<lparr>rt_env := (rt_env r)\<lparr>env_cancel := False\<rparr>\<rparr>"

text \<open>Statistics after an inference and after a tool call.\<close>

definition count_inference :: "token_usage \<Rightarrow> ('w, 'm) rt \<Rightarrow> ('w, 'm) rt" where
  "count_inference u r =
     (update_stats (\<lambda>st. st\<lparr>ts_prompt_tokens := ts_prompt_tokens st + tu_prompt_tokens u,
          ts_completion_tokens := ts_completion_tokens st + tu_completion_tokens u, ts_turns := ts_turns st + 1\<rparr>) r)
       \<lparr>rt_stats := (rt_stats r)
          \<lparr>ss_total_prompt_tokens := ss_total_prompt_tokens (rt_stats r) + tu_prompt_tokens u,
           ss_total_completion_tokens := ss_total_completion_tokens (rt_stats r) + tu_completion_tokens u,
           ss_total_turns := ss_total_turns (rt_stats r) + 1\<rparr>\<rparr>"

definition count_tool_call :: "('w, 'm) rt \<Rightarrow> ('w, 'm) rt" where
  "count_tool_call r =
     (update_stats (\<lambda>st. st\<lparr>ts_tool_calls := ts_tool_calls st + 1\<rparr>) r)
       \<lparr>rt_stats := (rt_stats r)\<lparr>ss_total_tool_calls := ss_total_tool_calls (rt_stats r) + 1\<rparr>\<rparr>"

definition assistant_message :: "message_view \<Rightarrow> message" where
  "assistant_message v =
     (new_message (mv_role v) (mv_content v))\<lparr>msg_tool_calls := mv_tool_calls v, msg_media := mv_media v\<rparr>"

definition tool_message :: "tool_call \<Rightarrow> tool_result \<Rightarrow> message" where
  "tool_message tc res =
     (new_message ''tool'' (tr_text res))
       \<lparr>msg_tool_call_id := tc_id tc, msg_media := tr_media res, msg_tensors := tr_tensors res\<rparr>"

text \<open>The body of the loop over the tool calls of a response.\<close>

definition run_call :: "('w, 'm) session \<Rightarrow> ('w, 'm) ambient \<Rightarrow> tool_call \<Rightarrow> ('w, 'm) rt \<Rightarrow> ('w, 'm) rt" where
  "run_call S amb tc r =
     (case execute_for_message S amb (tc_name tc) (tc_arguments tc)
             (fire_tool_hooks amb Pre (tc_name tc) (tc_arguments tc) []
                (trigger_event S OnToolCall (tc_name tc) r)) of
        (res, r1) \<Rightarrow>
          push_message (tool_message tc res)
            (count_tool_call
               (trigger_event S OnToolResult (tr_text res)
                  (fire_tool_hooks amb Post (tc_name tc) (tc_arguments tc) (tr_text res) r1))))"

definition run_calls :: "('w, 'm) session \<Rightarrow> ('w, 'm) ambient \<Rightarrow> tool_call list \<Rightarrow> ('w, 'm) rt \<Rightarrow> ('w, 'm) rt" where
  "run_calls S amb tcs r = fold (run_call S amb) tcs r"

text \<open>How one iteration of the loop ends: \<open>Again n\<close> continues with \<open>tool_rounds = n\<close>.\<close>

datatype turn_outcome = Done string | Failed error | Again int

definition limit_error :: "('w, 'm) session \<Rightarrow> error" where
  "limit_error S = Error ToolCallLimitExceeded
     (''Exceeded max_tool_call_rounds ('' @ to_string_int (cfg_max_tool_call_rounds (config S)) @ '')'')"

text \<open>The part of an iteration after a successful inference.\<close>

definition after_inference ::
    "('w, 'm) session \<Rightarrow> ('w, 'm) ambient \<Rightarrow> int \<Rightarrow> infer_response \<Rightarrow> ('w, 'm) rt \<Rightarrow> turn_outcome \<times> ('w, 'm) rt" where
  "after_inference S amb tool_rounds resp r =
     (let calls = mv_tool_calls (resp_message resp);
          r1 = push_message (assistant_message (resp_message resp))
                 (count_inference (resp_usage resp) (trigger_event S OnInferenceComplete [] r));
          final_text = mv_content (resp_message resp)
      in if calls = [] then (Done final_text, r1)
         else
           case (case amb_tool_pause_fn amb of None \<Rightarrow> (False, rt_env r1) | Some f \<Rightarrow> f calls (rt_env r1)) of
             (True, w) \<Rightarrow> (Done final_text, r1\<lparr>rt_env := w, rt_tools_paused := True\<rparr>)
           | (False, w) \<Rightarrow>
               if tool_rounds \<ge> cfg_max_tool_call_rounds (config S) then (Failed (limit_error S), r1\<lparr>rt_env := w\<rparr>)
               else (Again (tool_rounds + 1), run_calls S amb calls (r1\<lparr>rt_env := w\<rparr>)))"

definition turn_request :: "bool \<Rightarrow> (string \<Rightarrow> 'w env \<Rightarrow> 'w env) option \<Rightarrow> message_view list \<Rightarrow> 'w infer_request" where
  "turn_request stream on_token vs =
     \<lparr>req_messages = vs, req_max_tokens = 0, req_stream = stream, req_on_token = on_token, req_task = 0,
      req_params_json = []\<rparr>"

definition turn_step ::
    "('w, 'm) session \<Rightarrow> ('w, 'm) ambient \<Rightarrow> bool \<Rightarrow> (string \<Rightarrow> 'w env \<Rightarrow> 'w env) option \<Rightarrow> int \<Rightarrow> ('w, 'm) rt \<Rightarrow>
     turn_outcome \<times> ('w, 'm) rt" where
  "turn_step S amb stream on_token tool_rounds r =
     (let r1 = prune_history_state S amb r in
      case build_message_views S amb (rt_media_rejected r1) (history r1) (reset (current_arena amb r1)) of
        (Inl e, a) \<Rightarrow> (Failed e, set_current_arena amb a r1)
      | (Inr (vs, sent_tool_media), a) \<Rightarrow>
          let r2 = set_current_arena amb a r1 in
          if env_cancel (rt_env r2) then (Failed (Error CancelledCode ''Turn cancelled.''), r2)
          else
            case infer S amb (turn_request stream on_token vs) (trigger_event S OnInferenceSubmit [] r2) of
              (Inl e, r3) \<Rightarrow>
                if sent_tool_media \<and> code e \<noteq> CancelledCode \<and> code e \<noteq> EngineCrashed
                then (Again tool_rounds, reject_tool_media S r3)
                else (Failed e, r3)
            | (Inr resp, r3) \<Rightarrow> after_inference S amb tool_rounds resp r3)"

partial_function (option) turn_loop ::
    "('w, 'm) session \<Rightarrow> ('w, 'm) ambient \<Rightarrow> bool \<Rightarrow> (string \<Rightarrow> 'w env \<Rightarrow> 'w env) option \<Rightarrow> int \<Rightarrow> ('w, 'm) rt \<Rightarrow>
     (string result \<times> ('w, 'm) rt) option" where
  "turn_loop S amb stream on_token tool_rounds r =
     (case turn_step S amb stream on_token tool_rounds r of
        (out, r') \<Rightarrow>
          (case out of
             Done t \<Rightarrow> Some (ok t, r')
           | Failed e \<Rightarrow> Some (Inl e, r')
           | Again n \<Rightarrow> turn_loop S amb stream on_token n r'))"

declare turn_loop.simps [code]

text \<open>The start of a turn: the user's message, and a compression when the context is nearly full.\<close>

definition user_message :: "string \<Rightarrow> media list \<Rightarrow> message" where
  "user_message prompt ms = (new_message ''user'' prompt)\<lparr>msg_media := ms\<rparr>"

definition turn_begin ::
    "('w, 'm) session \<Rightarrow> ('w, 'm) ambient \<Rightarrow> string \<Rightarrow> media list \<Rightarrow> ('w, 'm) rt \<Rightarrow> ('w, 'm) rt" where
  "turn_begin S amb prompt ms r =
     (let r1 = trigger_event S OnTurnStart [] r;
          r2 = (if prompt \<noteq> [] \<or> ms \<noteq> [] then push_message (user_message prompt ms) r1 else r1)
      in case count_all S (history r2) (rt_env r2) of
           (tot, h, w) \<Rightarrow>
             let r3 = set_history h (r2\<lparr>rt_env := w\<rparr>)
             in if tot > cfg_context_window (config S) * 7 div 10 \<and> length h > 6
                then snd (compress_context S amb 6 r3) else r3)"

definition turn_end :: "('w, 'm) session \<Rightarrow> string result \<times> ('w, 'm) rt \<Rightarrow> string result \<times> ('w, 'm) rt" where
  "turn_end S out =
     (case out of
        (Inl e, r) \<Rightarrow> (Inl e, r)
      | (Inr t, r) \<Rightarrow> (ok t, snd (save_flow_memory S (rt_memory r) r)))"

text \<open>
  \<open>run_turn_with_media\<close> on the conversation \<open>mem\<close>, which it returns updated; the active
  conversation of the caller is restored.
\<close>

definition run_turn_with_media ::
    "('w, 'm) session \<Rightarrow> ('w, 'm) ambient \<Rightarrow> flow_memory \<Rightarrow> string \<Rightarrow> media list \<Rightarrow> bool \<Rightarrow>
     (string \<Rightarrow> 'w env \<Rightarrow> 'w env) option \<Rightarrow> ('w, 'm) rt \<Rightarrow> (string result \<times> flow_memory \<times> ('w, 'm) rt) option" where
  "run_turn_with_media S amb mem prompt ms stream on_token r =
     map_option
       (\<lambda>out. case turn_end S out of (res, r') \<Rightarrow> (res, rt_memory r', r'\<lparr>rt_memory := rt_memory r\<rparr>))
       (turn_loop S amb stream on_token 0 (turn_begin S amb prompt ms (r\<lparr>rt_memory := mem\<rparr>)))"

definition run_turn ::
    "('w, 'm) session \<Rightarrow> ('w, 'm) ambient \<Rightarrow> flow_memory \<Rightarrow> string \<Rightarrow> bool \<Rightarrow>
     (string \<Rightarrow> 'w env \<Rightarrow> 'w env) option \<Rightarrow> ('w, 'm) rt \<Rightarrow> (string result \<times> flow_memory \<times> ('w, 'm) rt) option" where
  "run_turn S amb mem prompt stream on_token r = run_turn_with_media S amb mem prompt [] stream on_token r"

end
