(* ===== verification/Std_Map.thy ===== *)
theory Std_Map
  imports Agent_Prelude
begin

text \<open>
  \<open>std::map<std::string, V>\<close> as the list of its entries in key order, the order in which the
  sources iterate over it. \<open>std::string\<close> compares byte-wise, as \<^typ>\<open>string\<close> does here. The
  operations keep the list sorted with distinct keys, and two such lists with the same lookups
  are equal.
\<close>

section \<open>Operations\<close>

type_synonym 'v std_map = "(string \<times> 'v) list"

definition smap_ok :: "'v std_map \<Rightarrow> bool" where
  "smap_ok m \<longleftrightarrow> sorted_wrt (<) (map fst m)"

abbreviation smap_find :: "'v std_map \<Rightarrow> string \<Rightarrow> 'v option" where
  "smap_find \<equiv> map_of"

text \<open>\<open>insert_or_assign\<close>.\<close>

fun smap_put :: "string \<Rightarrow> 'v \<Rightarrow> 'v std_map \<Rightarrow> 'v std_map" where
  "smap_put k v [] = [(k, v)]"
| "smap_put k v ((k', v') # m) =
     (if k < k' then (k, v) # (k', v') # m else if k = k' then (k, v) # m else (k', v') # smap_put k v m)"

definition smap_erase :: "string \<Rightarrow> 'v std_map \<Rightarrow> 'v std_map" where
  "smap_erase k m = filter (\<lambda>(k', _). k' \<noteq> k) m"

definition smap_put_all :: "'v std_map \<Rightarrow> 'v std_map \<Rightarrow> 'v std_map" where
  "smap_put_all new m = fold (\<lambda>(k, v). smap_put k v) new m"

text \<open>\<open>erase\<close> of every entry whose key satisfies \<open>p\<close>.\<close>

definition smap_erase_if :: "(string \<Rightarrow> bool) \<Rightarrow> 'v std_map \<Rightarrow> 'v std_map" where
  "smap_erase_if p m = filter (\<lambda>(k, _). \<not> p k) m"

section \<open>The interface\<close>

text \<open>
  A map with an invariant, as its clients use it: what a lookup returns after each update, and
  that the updates keep the invariant.
\<close>

locale key_map =
  fixes lookup :: "'m \<Rightarrow> string \<Rightarrow> 'v option"
    and update :: "string \<Rightarrow> 'v \<Rightarrow> 'm \<Rightarrow> 'm"
    and delete :: "string \<Rightarrow> 'm \<Rightarrow> 'm"
    and invar :: "'m \<Rightarrow> bool"
  assumes lookup_update: "lookup (update k v m) = (lookup m)(k \<mapsto> v)"
    and lookup_delete: "lookup (delete k m) = (lookup m)(k := None)"
    and invar_update: "invar m \<Longrightarrow> invar (update k v m)"
    and invar_delete: "invar m \<Longrightarrow> invar (delete k m)"
begin

lemma lookup_update_all: "lookup (fold (\<lambda>(k, v). update k v) kvs m) = lookup m ++ map_of (rev kvs)"
proof (induction kvs arbitrary: m)
  case (Cons kv kvs)
  then show ?case
    by (cases kv) (simp add: lookup_update fun_eq_iff map_add_def split: option.split)
qed simp

lemma invar_update_all: "invar m \<Longrightarrow> invar (fold (\<lambda>(k, v). update k v) kvs m)"
  by (induction kvs arbitrary: m) (auto simp: invar_update)

lemma delete_update_other: "k \<noteq> k' \<Longrightarrow> lookup (delete k (update k' v m)) = (lookup (delete k m))(k' \<mapsto> v)"
  by (auto simp: lookup_update lookup_delete)

end

lemma find_put: "smap_find (smap_put k v m) = (smap_find m)(k \<mapsto> v)"
  by (induction k v m rule: smap_put.induct) (auto simp: fun_eq_iff)

lemma find_erase: "smap_find (smap_erase k m) = (smap_find m)(k := None)"
  by (induction m) (auto simp: smap_erase_def fun_eq_iff)

lemma set_keys_put: "fst ` set (smap_put k v m) = insert k (fst ` set m)"
  by (induction k v m rule: smap_put.induct) auto

lemma smap_ok_put: "smap_ok m \<Longrightarrow> smap_ok (smap_put k v m)"
proof (induction k v m rule: smap_put.induct)
  case (2 k v k' v' m)
  then show ?case
    using set_keys_put [of k v m] by (auto simp: smap_ok_def)
qed (simp add: smap_ok_def)

lemma smap_ok_filter: "smap_ok m \<Longrightarrow> smap_ok (filter p m)"
  by (induction m) (auto simp: smap_ok_def)

lemma smap_ok_erase: "smap_ok m \<Longrightarrow> smap_ok (smap_erase k m)"
  by (simp add: smap_erase_def smap_ok_filter)

interpretation std_map: key_map smap_find smap_put smap_erase smap_ok
  by unfold_locales (simp_all add: find_put find_erase smap_ok_put smap_ok_erase)

lemma find_put_all: "smap_find (smap_put_all new m) = smap_find m ++ map_of (rev new)"
  unfolding smap_put_all_def by (rule std_map.lookup_update_all)

lemma smap_ok_put_all: "smap_ok m \<Longrightarrow> smap_ok (smap_put_all new m)"
  unfolding smap_put_all_def by (rule std_map.invar_update_all)

lemma find_erase_if: "smap_find (smap_erase_if p m) k = (if p k then None else smap_find m k)"
  by (induction m) (auto simp: smap_erase_if_def)

lemma smap_ok_erase_if: "smap_ok m \<Longrightarrow> smap_ok (smap_erase_if p m)"
  by (simp add: smap_erase_if_def smap_ok_filter)

lemma smap_ok_Nil: "smap_ok []"
  by (simp add: smap_ok_def)

lemma smap_ok_Cons: "smap_ok ((k, v) # m) \<longleftrightarrow> (\<forall>k' \<in> fst ` set m. k < k') \<and> smap_ok m"
  by (auto simp: smap_ok_def)

lemma smap_ok_distinct: "smap_ok m \<Longrightarrow> distinct (map fst m)"
  by (induction m) (auto simp: smap_ok_def)

lemma find_None: "smap_find m k = None \<longleftrightarrow> k \<notin> fst ` set m"
  by (simp add: map_of_eq_None_iff)

text \<open>A map is determined by its lookups.\<close>

lemma smap_ext:
  assumes "smap_ok m" "smap_ok m'" "smap_find m = smap_find m'"
  shows "m = m'"
  using assms
proof (induction m arbitrary: m')
  case Nil
  then have "fst ` set m' = {}" by (metis find_None empty_iff equals0I list.set(1) image_empty)
  then show ?case by simp
next
  case (Cons kv m)
  obtain k v where kv: "kv = (k, v)" by (cases kv)
  have "smap_find m' k = Some v" using Cons.prems(3) kv by (metis map_of_Cons_code(2) fun_upd_same)
  then obtain k2 v2 m2 where m': "m' = (k2, v2) # m2" by (cases m') auto
  note lt = Cons.prems(1) [unfolded kv smap_ok_Cons, THEN conjunct1] Cons.prems(1) [unfolded kv smap_ok_Cons, THEN conjunct2]
    Cons.prems(2) [unfolded m' smap_ok_Cons, THEN conjunct1] Cons.prems(2) [unfolded m' smap_ok_Cons, THEN conjunct2]
  have "smap_find (kv # m) k2 \<noteq> None" unfolding Cons.prems(3) m' by simp
  then have "k2 \<in> insert k (fst ` set m)" unfolding find_None by (simp add: kv)
  then have "k \<le> k2" using lt(1) by (auto simp: less_imp_le)
  have "k \<in> insert k2 (fst ` set m2)"
    using find_None [of m' k] \<open>smap_find m' k = Some v\<close> unfolding m' by (auto split: if_splits)
  then have "k2 \<le> k" using lt(3) by (auto simp: less_imp_le)
  with \<open>k \<le> k2\<close> have eq: "k2 = k" by simp
  then have v: "v2 = v" using \<open>smap_find m' k = Some v\<close> m' by simp
  have "smap_find m x = smap_find m2 x" for x
  proof (cases "x = k")
    case True
    then show ?thesis using lt eq by (metis find_None order_less_irrefl)
  next
    case False
    then show ?thesis using fun_cong [OF Cons.prems(3), of x] kv m' eq by simp
  qed
  then have "m = m2" using Cons.IH lt by blast
  with kv m' eq v show ?case by simp
qed

lemma put_all_empty: "smap_ok m \<Longrightarrow> smap_put_all m [] = m"
proof (rule smap_ext)
  assume "smap_ok m"
  then have "map_of (rev m) = map_of m"
    by (subst map_of_inject_set) (simp_all add: smap_ok_distinct rev_map [symmetric])
  then show "smap_find (smap_put_all m []) = smap_find m" by (simp add: find_put_all)
qed (auto intro: smap_ok_put_all simp: smap_ok_Nil)

end
