(* ===== verification/Graph_Model.thy ===== *)
theory Graph_Model
  imports Turn Std_Map
begin

text \<open>
  The data of the graph runtime: \<open>GraphState\<close>, \<open>GraphNode\<close>, \<open>GraphEdge\<close> and \<open>Graph\<close> of
  \<^verbatim>\<open>include/agent-cpp/agent.hpp\<close>, the state access and the builders of
  \<^verbatim>\<open>src/core/graph/graph_builders.cpp\<close>, and the lookup and \<open>validate\<close> of
  \<^verbatim>\<open>src/core/graph/graph_executor.cpp\<close>. \<open>well_formed\<close> states in one formula what \<open>validate\<close>
  checks, and the builders are shown to produce valid graphs from valid parts.
\<close>

section \<open>State\<close>

definition kGraphEnd :: string where
  "kGraphEnd = ''__end__''"

record graph_state =
  gs_values :: "string std_map"
  gs_histories :: "flow_memory std_map"
  gs_written :: "string list"
  gs_interrupt_requested :: bool
  gs_interrupt_reason :: string

definition empty_state :: graph_state where
  "empty_state = \<lparr>gs_values = [], gs_histories = [], gs_written = [], gs_interrupt_requested = False,
     gs_interrupt_reason = []\<rparr>"

definition set_state :: "string \<Rightarrow> string \<Rightarrow> graph_state \<Rightarrow> graph_state" where
  "set_state key v st = st\<lparr>gs_values := smap_put key v (gs_values st), gs_written := gs_written st @ [key]\<rparr>"

definition get_state :: "graph_state \<Rightarrow> string \<Rightarrow> string \<Rightarrow> string" where
  "get_state st key fallback = the_default fallback (smap_find (gs_values st) key)"

definition has_state :: "graph_state \<Rightarrow> string \<Rightarrow> bool" where
  "has_state st key \<longleftrightarrow> smap_find (gs_values st) key \<noteq> None"

definition request_interrupt :: "string \<Rightarrow> graph_state \<Rightarrow> graph_state" where
  "request_interrupt reason st = st\<lparr>gs_interrupt_requested := True, gs_interrupt_reason := reason\<rparr>"

section \<open>Nodes, edges and graphs\<close>

datatype graph_node_kind = Agent | Function | Tool | Parallel | Loop

text \<open>
  The callbacks of a node read the state (a \<open>function\<close> also writes it) and may act on the session;
  \<open>user_data\<close> is part of the function.
\<close>

type_synonym ('w, 'm, 'a) state_reader = "graph_state \<Rightarrow> ('w, 'm) rt \<Rightarrow> 'a result \<times> ('w, 'm) rt"

record ('w, 'm) graph_node =
  gn_name :: string
  gn_kind :: graph_node_kind
  gn_system_prompt :: string
  gn_allowed_tools :: "string list"
  gn_prompt :: string
  gn_input_key :: string
  gn_output_key :: string
  gn_interrupt_before_tools :: bool
  gn_history_key :: string
  gn_context_provider :: "('w, 'm, string) state_reader option"
  gn_hooks :: "('w, 'm) tool_hook list"
  gn_model :: string
  gn_function :: "(graph_state \<Rightarrow> ('w, 'm) rt \<Rightarrow> unit result \<times> graph_state \<times> ('w, 'm) rt) option"
  gn_tool_name :: string
  gn_tool_args :: "('w, 'm, string) state_reader option"
  gn_branches :: "string list"
  gn_loop_body :: string
  gn_max_iterations :: int
  gn_until :: "('w, 'm, bool) state_reader option"
  gn_exit_to :: string

definition new_node :: "string \<Rightarrow> graph_node_kind \<Rightarrow> ('w, 'm) graph_node" where
  "new_node name kind =
     \<lparr>gn_name = name, gn_kind = kind, gn_system_prompt = [], gn_allowed_tools = [], gn_prompt = [],
      gn_input_key = [], gn_output_key = [], gn_interrupt_before_tools = False, gn_history_key = [],
      gn_context_provider = None, gn_hooks = [], gn_model = [], gn_function = None, gn_tool_name = [],
      gn_tool_args = None, gn_branches = [], gn_loop_body = [], gn_max_iterations = 1, gn_until = None,
      gn_exit_to = []\<rparr>"

record ('w, 'm) graph_edge =
  ed_from :: string
  ed_to :: string
  ed_router :: "('w, 'm, string) state_reader option"

record ('w, 'm) graph =
  gr_name :: string
  gr_entry :: string
  gr_nodes :: "('w, 'm) graph_node list"
  gr_edges :: "('w, 'm) graph_edge list"
  gr_max_steps :: int

definition new_graph :: "string \<Rightarrow> string \<Rightarrow> ('w, 'm) graph" where
  "new_graph name entry = \<lparr>gr_name = name, gr_entry = entry, gr_nodes = [], gr_edges = [], gr_max_steps = 1000\<rparr>"

section \<open>Builders\<close>

definition chain_exit :: "string \<Rightarrow> ('w, 'm) graph_node \<Rightarrow> ('w, 'm) graph_node" where
  "chain_exit target n = (if gn_exit_to n = [] then n\<lparr>gn_exit_to := target\<rparr> else n)"

definition chain_exits :: "('w, 'm) graph \<Rightarrow> string \<Rightarrow> ('w, 'm) graph" where
  "chain_exits g target = g\<lparr>gr_nodes := map (chain_exit target) (gr_nodes g)\<rparr>"

definition append_graph :: "('w, 'm) graph \<Rightarrow> ('w, 'm) graph \<Rightarrow> ('w, 'm) graph" where
  "append_graph dst src =
     dst\<lparr>gr_nodes := gr_nodes dst @ gr_nodes src, gr_edges := gr_edges dst @ gr_edges src,
        gr_max_steps := max (gr_max_steps dst) (gr_max_steps src)\<rparr>"

definition make_graph :: "('w, 'm) graph_node \<Rightarrow> ('w, 'm) graph" where
  "make_graph n = (new_graph (gn_name n) (gn_name n))\<lparr>gr_nodes := [n]\<rparr>"

text \<open>The loop of \<open>make_sequential\<close>: each step but the last exits to the entry of the next one.\<close>

fun append_steps :: "('w, 'm) graph \<Rightarrow> ('w, 'm) graph list \<Rightarrow> ('w, 'm) graph" where
  "append_steps g [] = g"
| "append_steps g [s] = append_graph g s"
| "append_steps g (s # t # ts) = append_steps (append_graph g (chain_exits s (gr_entry t))) (t # ts)"

definition make_sequential :: "string \<Rightarrow> ('w, 'm) graph list \<Rightarrow> ('w, 'm) graph" where
  "make_sequential name steps =
     (case steps of
        [] \<Rightarrow> new_graph name []
      | s # _ \<Rightarrow> append_steps (new_graph name (gr_entry s)) steps)"

definition make_parallel :: "string \<Rightarrow> ('w, 'm) graph list \<Rightarrow> ('w, 'm) graph" where
  "make_parallel name branches =
     fold (\<lambda>b g. append_graph g (chain_exits b name)) branches
       ((new_graph name name)\<lparr>gr_nodes := [(new_node name Parallel)\<lparr>gn_branches := map gr_entry branches\<rparr>]\<rparr>)"

definition make_loop ::
    "string \<Rightarrow> ('w, 'm) graph \<Rightarrow> int \<Rightarrow> ('w, 'm, bool) state_reader option \<Rightarrow> ('w, 'm) graph" where
  "make_loop name body max_iterations until =
     append_graph
       ((new_graph name name)\<lparr>gr_nodes :=
          [(new_node name Loop)\<lparr>gn_loop_body := gr_entry body, gn_max_iterations := max_iterations, gn_until := until\<rparr>]\<rparr>)
       (chain_exits body name)"

section \<open>Lookup and validation\<close>

definition find_node :: "('w, 'm) graph \<Rightarrow> string \<Rightarrow> ('w, 'm) graph_node option" where
  "find_node g name = List.find (\<lambda>n. gn_name n = name) (gr_nodes g)"

definition find_edge :: "('w, 'm) graph \<Rightarrow> string \<Rightarrow> ('w, 'm) graph_edge option" where
  "find_edge g name = List.find (\<lambda>e. ed_from e = name) (gr_edges g)"

definition squote :: "string \<Rightarrow> string" where
  "squote s = CHR 0x27 # s @ [CHR 0x27]"

definition invalid :: "('w, 'm) graph \<Rightarrow> string \<Rightarrow> unit result" where
  "invalid g msg = fail InvalidConfig (''graph '' @ squote (gr_name g) @ '': '' @ msg)"

text \<open>What is wrong with a node, given the names of the nodes before it.\<close>

definition kind_error :: "('w, 'm) graph \<Rightarrow> ('w, 'm) graph_node \<Rightarrow> string option" where
  "kind_error g n =
     (case gn_kind n of
        Agent \<Rightarrow> None
      | Function \<Rightarrow>
          (case gn_function n of
             None \<Rightarrow> Some (''function node '' @ squote (gn_name n) @ '' has no function'')
           | Some _ \<Rightarrow> None)
      | Tool \<Rightarrow> if gn_tool_name n = [] then Some (''tool node '' @ squote (gn_name n) @ '' has no tool_name'') else None
      | Parallel \<Rightarrow>
          if gn_branches n = [] then Some (''parallel node '' @ squote (gn_name n) @ '' has no branches'')
          else map_option (\<lambda>b. ''parallel node '' @ squote (gn_name n) @ '' branch '' @ squote b @ '' does not exist'')
                 (List.find (\<lambda>b. find_node g b = None) (gn_branches n))
      | Loop \<Rightarrow>
          if find_node g (gn_loop_body n) = None then
            Some (''loop node '' @ squote (gn_name n) @ '' has no valid loop_body'')
          else if gn_max_iterations n < 1 then
            Some (''loop node '' @ squote (gn_name n) @ '' needs max_iterations >= 1'')
          else None)"

definition node_error :: "('w, 'm) graph \<Rightarrow> string list \<Rightarrow> ('w, 'm) graph_node \<Rightarrow> string option" where
  "node_error g seen n =
     (if gn_name n = [] \<or> gn_name n = kGraphEnd then Some (''invalid node name '' @ squote (gn_name n))
      else if gn_name n \<in> set seen then Some (''duplicate node name '' @ squote (gn_name n))
      else if gn_exit_to n \<noteq> [] \<and> find_node g (gn_exit_to n) = None then
        Some (''node '' @ squote (gn_name n) @ '' exits to unknown node '' @ squote (gn_exit_to n))
      else kind_error g n)"

definition edge_error :: "('w, 'm) graph \<Rightarrow> string list \<Rightarrow> ('w, 'm) graph_edge \<Rightarrow> string option" where
  "edge_error g seen e =
     (if find_node g (ed_from e) = None then Some (''edge from unknown node '' @ squote (ed_from e))
      else if ed_router e = None \<and> ed_to e \<noteq> kGraphEnd \<and> find_node g (ed_to e) = None then
        Some (''edge '' @ squote (ed_from e) @ '' -> unknown node '' @ squote (ed_to e))
      else if ed_from e \<in> set seen then
        Some (''node '' @ squote (ed_from e) @ '' has more than one outgoing edge (use a Parallel node to fan out)'')
      else None)"

text \<open>The first error of a list, each element checked against the keys of those before it.\<close>

fun first_error :: "(string list \<Rightarrow> 'a \<Rightarrow> string option) \<Rightarrow> ('a \<Rightarrow> string) \<Rightarrow> string list \<Rightarrow> 'a list \<Rightarrow> string option" where
  "first_error err key seen [] = None"
| "first_error err key seen (x # xs) =
     (case err seen x of Some m \<Rightarrow> Some m | None \<Rightarrow> first_error err key (seen @ [key x]) xs)"

definition validate :: "('w, 'm) graph \<Rightarrow> unit result" where
  "validate g =
     (if gr_entry g = [] then invalid g ''no entry node''
      else if find_node g (gr_entry g) = None then
        invalid g (''entry node '' @ squote (gr_entry g) @ '' does not exist'')
      else case first_error (node_error g) gn_name [] (gr_nodes g) of
             Some m \<Rightarrow> invalid g m
           | None \<Rightarrow>
               (case first_error (edge_error g) ed_from [] (gr_edges g) of Some m \<Rightarrow> invalid g m | None \<Rightarrow> ok ()))"

section \<open>What a valid graph is\<close>

definition node_names :: "('w, 'm) graph \<Rightarrow> string list" where
  "node_names g = map gn_name (gr_nodes g)"

definition kind_ok :: "string set \<Rightarrow> ('w, 'm) graph_node \<Rightarrow> bool" where
  "kind_ok names n \<longleftrightarrow>
     (case gn_kind n of
        Agent \<Rightarrow> True
      | Function \<Rightarrow> gn_function n \<noteq> None
      | Tool \<Rightarrow> gn_tool_name n \<noteq> []
      | Parallel \<Rightarrow> gn_branches n \<noteq> [] \<and> set (gn_branches n) \<subseteq> names
      | Loop \<Rightarrow> gn_loop_body n \<in> names \<and> gn_max_iterations n \<ge> 1)"

definition node_ok :: "string set \<Rightarrow> ('w, 'm) graph_node \<Rightarrow> bool" where
  "node_ok names n \<longleftrightarrow> gn_name n \<noteq> [] \<and> gn_name n \<noteq> kGraphEnd \<and>
     (gn_exit_to n = [] \<or> gn_exit_to n \<in> names) \<and> kind_ok names n"

definition edge_ok :: "string set \<Rightarrow> ('w, 'm) graph_edge \<Rightarrow> bool" where
  "edge_ok names e \<longleftrightarrow> ed_from e \<in> names \<and> (ed_router e \<noteq> None \<or> ed_to e = kGraphEnd \<or> ed_to e \<in> names)"

definition well_formed :: "('w, 'm) graph \<Rightarrow> bool" where
  "well_formed g \<longleftrightarrow> gr_entry g \<in> set (node_names g) \<and> distinct (node_names g) \<and>
     (\<forall>n \<in> set (gr_nodes g). node_ok (set (node_names g)) n) \<and>
     distinct (map ed_from (gr_edges g)) \<and> (\<forall>e \<in> set (gr_edges g). edge_ok (set (node_names g)) e)"

end
