(* ===== verification/Graph_Checkpoint.thy ===== *)
theory Graph_Checkpoint
  imports Graph_Model
begin

text \<open>
  Runs and their checkpoints: \<open>GraphRun\<close>, \<open>GraphEvent\<close> and the branch progress of
  \<^verbatim>\<open>src/core/graph/graph_internal.hpp\<close>, and the JSON they are stored as,
  \<^verbatim>\<open>src/core/graph/graph_checkpoint.cpp\<close>. Steps are natural numbers: the 64-bit counter grows by
  one per completed node.
\<close>

section \<open>Runs\<close>

datatype graph_durability = Durability_Exit | Durability_Async | Durability_Sync

datatype graph_run_status = Run_Pending | Run_Running | Run_Completed | Run_Interrupted | Run_Failed

text \<open>
  \<open>Unknown_Event\<close> is a value outside the enumerators, which the cast in \<open>decode_events\<close> produces
  from a number it does not check.
\<close>

datatype graph_event_type =
    Ev_NodeStart | Ev_NodeEnd | Ev_StateWrite | Ev_ToolCall | Ev_ToolResult | Ev_Interrupt | Ev_Resume
  | Ev_Checkpoint | Ev_NodeFailed | Ev_Fork | Unknown_Event int

record graph_event =
  ge_type :: graph_event_type
  ge_node :: string
  ge_key :: string
  ge_timestamp_ms :: int
  ge_payload :: string

record graph_interrupt =
  gi_branch :: string
  gi_node :: string
  gi_reason :: string
  gi_pending_tool_calls :: "tool_call list"

text \<open>\<open>GraphRun\<close> without the services of the caller (checkpointer, model registry, event callback).\<close>

record graph_run =
  run_thread_id :: string
  run_durability :: graph_durability
  run_state :: graph_state
  run_status :: graph_run_status
  run_next_node :: string
  run_step :: nat
  run_error :: error
  run_interrupt_node :: string
  run_interrupt_reason :: string
  run_pending_tool_calls :: "tool_call list"
  run_interrupts :: "graph_interrupt list"
  run_events :: "graph_event list"

definition no_error :: error where
  "no_error = Error OkCode []"

definition new_run :: "string \<Rightarrow> graph_run" where
  "new_run thread_id =
     \<lparr>run_thread_id = thread_id, run_durability = Durability_Async, run_state = empty_state, run_status = Run_Pending,
      run_next_node = [], run_step = 0, run_error = no_error, run_interrupt_node = [], run_interrupt_reason = [],
      run_pending_tool_calls = [], run_interrupts = [], run_events = []\<rparr>"

section \<open>Branch progress\<close>

datatype branch_status = Branch_Pending | Branch_Running | Branch_Done | Branch_Interrupted | Branch_Failed

record branch_progress =
  bp_entry :: string
  bp_status :: branch_status
  bp_next :: string
  bp_values :: "string std_map"
  bp_erased :: "string list"
  bp_writes :: "string list"
  bp_histories :: "flow_memory std_map"
  bp_interrupt_node :: string
  bp_interrupt_reason :: string
  bp_pending_tool_calls :: "tool_call list"
  bp_error :: string

definition new_progress :: "string \<Rightarrow> string \<Rightarrow> branch_progress" where
  "new_progress entry nxt =
     \<lparr>bp_entry = entry, bp_status = Branch_Pending, bp_next = nxt, bp_values = [], bp_erased = [], bp_writes = [],
      bp_histories = [], bp_interrupt_node = [], bp_interrupt_reason = [], bp_pending_tool_calls = [], bp_error = []\<rparr>"

record parallel_progress =
  pp_node :: string
  pp_branches :: "branch_progress list"

section \<open>Keys and names\<close>

definition is_temp_key :: "string \<Rightarrow> bool" where
  "is_temp_key k \<longleftrightarrow> starts_with k ''temp:''"

definition is_scoped_key :: "string \<Rightarrow> bool" where
  "is_scoped_key k \<longleftrightarrow> starts_with k ''user:'' \<or> starts_with k ''app:''"

definition kInternalPrefix :: string where
  "kInternalPrefix = ''__''"

definition is_internal_key :: "string \<Rightarrow> bool" where
  "is_internal_key k \<longleftrightarrow> starts_with k kInternalPrefix"

definition checkpoint_key :: "string \<Rightarrow> string \<Rightarrow> string" where
  "checkpoint_key thread_id suffix = ''checkpoint:'' @ thread_id @ '':'' @ suffix"

definition status_name :: "graph_run_status \<Rightarrow> string" where
  "status_name s =
     (case s of Run_Pending \<Rightarrow> ''pending'' | Run_Running \<Rightarrow> ''running'' | Run_Completed \<Rightarrow> ''completed''
      | Run_Interrupted \<Rightarrow> ''interrupted'' | Run_Failed \<Rightarrow> ''failed'')"

definition parse_status :: "string \<Rightarrow> graph_run_status" where
  "parse_status s =
     (if s = ''running'' then Run_Running else if s = ''completed'' then Run_Completed
      else if s = ''interrupted'' then Run_Interrupted else if s = ''failed'' then Run_Failed else Run_Pending)"

definition branch_status_name :: "branch_status \<Rightarrow> string" where
  "branch_status_name s =
     (case s of Branch_Pending \<Rightarrow> ''pending'' | Branch_Running \<Rightarrow> ''running'' | Branch_Done \<Rightarrow> ''done''
      | Branch_Interrupted \<Rightarrow> ''interrupted'' | Branch_Failed \<Rightarrow> ''failed'')"

definition parse_branch_status :: "string \<Rightarrow> branch_status" where
  "parse_branch_status s =
     (if s = ''running'' then Branch_Running else if s = ''done'' then Branch_Done
      else if s = ''interrupted'' then Branch_Interrupted else if s = ''failed'' then Branch_Failed else Branch_Pending)"

section \<open>Encoding\<close>

definition append_string_field :: "string \<Rightarrow> string \<Rightarrow> string" where
  "append_string_field name v = quote_char # name @ [quote_char] @ '':'' @ quoted v"

definition encode_calls :: "tool_call list \<Rightarrow> string" where
  "encode_calls calls =
     ''['' @ sep_by '','' (map (\<lambda>tc. ''{'' @ append_string_field ''id'' (tc_id tc) @ '','' @
        append_string_field ''name'' (tc_name tc) @ '','' @ append_string_field ''arguments'' (tc_arguments tc) @ ''}'') calls) @ '']''"

definition encode_values :: "string std_map \<Rightarrow> string" where
  "encode_values values =
     ''{'' @ sep_by '','' (map (\<lambda>(k, v). quoted k @ '':'' @ quoted v) (filter (\<lambda>(k, _). \<not> is_temp_key k) values)) @ ''}''"

definition encode_strings :: "string list \<Rightarrow> string" where
  "encode_strings items = ''['' @ sep_by '','' (map quoted items) @ '']''"

definition encode_histories :: "flow_memory std_map \<Rightarrow> string" where
  "encode_histories hs =
     ''{'' @ sep_by '','' (map (\<lambda>(n, mem). quoted n @ '':'' @ encode_history_json (fm_history mem)) hs) @ ''}''"

definition encode_branch :: "branch_progress \<Rightarrow> string" where
  "encode_branch b =
     ''{'' @ append_string_field ''entry'' (bp_entry b) @ '','' @
     append_string_field ''status'' (branch_status_name (bp_status b)) @ '','' @
     append_string_field ''next'' (bp_next b) @ '','' @
     quoted ''values'' @ '':'' @ encode_values (bp_values b) @ '','' @
     quoted ''erased'' @ '':'' @ encode_strings (bp_erased b) @ '','' @
     quoted ''writes'' @ '':'' @ encode_strings (bp_writes b) @ '','' @
     quoted ''histories'' @ '':'' @ encode_histories (bp_histories b) @ '','' @
     append_string_field ''interrupt_node'' (bp_interrupt_node b) @ '','' @
     append_string_field ''interrupt_reason'' (bp_interrupt_reason b) @ '','' @
     quoted ''pending_tool_calls'' @ '':'' @ encode_calls (bp_pending_tool_calls b) @ '','' @
     append_string_field ''error'' (bp_error b) @ ''}''"

definition encode_progress :: "parallel_progress \<Rightarrow> string" where
  "encode_progress p =
     ''{'' @ append_string_field ''node'' (pp_node p) @ '','' @ quoted ''branches'' @ '':['' @
     sep_by '','' (map encode_branch (pp_branches p)) @ '']}''"

definition encode_checkpoint :: "graph_run \<Rightarrow> string \<Rightarrow> parallel_progress option \<Rightarrow> string" where
  "encode_checkpoint run graph_name progress =
     ''{'' @ quoted ''version'' @ '':1,'' @ append_string_field ''graph'' graph_name @ '','' @
     append_string_field ''thread_id'' (run_thread_id run) @ '','' @
     quoted ''step'' @ '':'' @ to_string (run_step run) @ '','' @
     append_string_field ''next'' (run_next_node run) @ '','' @
     append_string_field ''status'' (status_name (run_status run)) @ '','' @
     append_string_field ''interrupt_node'' (run_interrupt_node run) @ '','' @
     append_string_field ''interrupt_reason'' (run_interrupt_reason run) @ '','' @
     quoted ''pending_tool_calls'' @ '':'' @ encode_calls (run_pending_tool_calls run) @ '','' @
     quoted ''state'' @ '':'' @ encode_values (gs_values (run_state run)) @ '','' @
     quoted ''histories'' @ '':'' @ encode_histories (gs_histories (run_state run)) @
     (case progress of None \<Rightarrow> [] | Some p \<Rightarrow> '','' @ quoted ''parallel'' @ '':'' @ encode_progress p) @ ''}''"

section \<open>Decoding\<close>

definition bad :: "string \<Rightarrow> 'a result" where
  "bad what = fail ParseError (''graph checkpoint: '' @ what)"

definition decode_calls :: "json \<Rightarrow> tool_call list result" where
  "decode_calls v =
     (case get_array (Some v) of
        None \<Rightarrow> bad ''bad pending_tool_calls.''
      | Some calls \<Rightarrow> ok (map decode_tool_call (objects_of calls)))"

fun decode_value_fields :: "(string \<times> json) list \<Rightarrow> string std_map \<Rightarrow> string std_map result" where
  "decode_value_fields [] out = ok out"
| "decode_value_fields ((k, v) # fs) out =
     (case get_string (Some v) of
        None \<Rightarrow> bad (''bad state value: '' @ k)
      | Some s \<Rightarrow> decode_value_fields fs (smap_put k s out))"

definition decode_values :: "json \<Rightarrow> string std_map \<Rightarrow> string std_map result" where
  "decode_values v out =
     (case get_object (Some v) of None \<Rightarrow> bad ''bad state.'' | Some fs \<Rightarrow> decode_value_fields fs out)"

fun decode_string_items :: "json list \<Rightarrow> string list \<Rightarrow> string list result" where
  "decode_string_items [] out = ok out"
| "decode_string_items (x # xs) out =
     (case get_string (Some x) of
        None \<Rightarrow> bad ''bad string array item.''
      | Some s \<Rightarrow> decode_string_items xs (out @ [s]))"

definition decode_strings :: "json \<Rightarrow> string list \<Rightarrow> string list result" where
  "decode_strings v out =
     (case get_array (Some v) of None \<Rightarrow> bad ''bad string array.'' | Some xs \<Rightarrow> decode_string_items xs out)"

text \<open>The raw text of a member is its compact rendering, which reads back the same.\<close>

type_synonym raw_histories = "(string \<times> string) list"

definition collect_histories :: "json \<Rightarrow> raw_histories \<Rightarrow> raw_histories result" where
  "collect_histories v out =
     (case get_object (Some v) of
        None \<Rightarrow> bad ''bad histories.''
      | Some fs \<Rightarrow> ok (out @ map (\<lambda>(k, x). (k, render x)) fs))"

fun build_histories ::
    "(string \<Rightarrow> json option) \<Rightarrow> string \<Rightarrow> raw_histories \<Rightarrow> flow_memory std_map \<Rightarrow> flow_memory std_map result" where
  "build_histories parse thread_id [] out = ok out"
| "build_histories parse thread_id ((n, txt) # raw) out =
     (case decode_history_json parse txt of
        Inl e \<Rightarrow> fail (code e) (''graph checkpoint: history of '' @ squote n @ '': '' @ message e)
      | Inr h \<Rightarrow>
          build_histories parse thread_id raw
            (smap_put n \<lparr>fm_id = thread_id @ '':'' @ n, fm_history = h, fm_stats = turn_stats_zero\<rparr> out))"

text \<open>One member of a branch, into the branch and its raw histories.\<close>

definition set_string :: "json \<Rightarrow> (string \<Rightarrow> 'a) \<Rightarrow> 'a \<Rightarrow> 'a" where
  "set_string v upd old = (case get_string (Some v) of Some t \<Rightarrow> upd t | None \<Rightarrow> old)"

definition decode_branch_field ::
    "string \<times> json \<Rightarrow> branch_progress \<times> raw_histories \<Rightarrow> (branch_progress \<times> raw_histories) result" where
  "decode_branch_field f acc =
     (case f of (k, v) \<Rightarrow> case acc of (b, raw) \<Rightarrow>
        if k = ''entry'' then ok (set_string v (\<lambda>t. b\<lparr>bp_entry := t\<rparr>) b, raw)
        else if k = ''status'' then ok (set_string v (\<lambda>t. b\<lparr>bp_status := parse_branch_status t\<rparr>) b, raw)
        else if k = ''next'' then ok (set_string v (\<lambda>t. b\<lparr>bp_next := t\<rparr>) b, raw)
        else if k = ''values'' then
          (case decode_values v (bp_values b) of Inl e \<Rightarrow> Inl e | Inr m \<Rightarrow> ok (b\<lparr>bp_values := m\<rparr>, raw))
        else if k = ''erased'' then
          (case decode_strings v (bp_erased b) of Inl e \<Rightarrow> Inl e | Inr xs \<Rightarrow> ok (b\<lparr>bp_erased := xs\<rparr>, raw))
        else if k = ''writes'' then
          (case decode_strings v (bp_writes b) of Inl e \<Rightarrow> Inl e | Inr xs \<Rightarrow> ok (b\<lparr>bp_writes := xs\<rparr>, raw))
        else if k = ''histories'' then
          (case collect_histories v raw of Inl e \<Rightarrow> Inl e | Inr raw' \<Rightarrow> ok (b, raw'))
        else if k = ''interrupt_node'' then ok (set_string v (\<lambda>t. b\<lparr>bp_interrupt_node := t\<rparr>) b, raw)
        else if k = ''interrupt_reason'' then ok (set_string v (\<lambda>t. b\<lparr>bp_interrupt_reason := t\<rparr>) b, raw)
        else if k = ''pending_tool_calls'' then
          (case decode_calls v of Inl e \<Rightarrow> Inl e | Inr cs \<Rightarrow> ok (b\<lparr>bp_pending_tool_calls := cs\<rparr>, raw))
        else if k = ''error'' then ok (set_string v (\<lambda>t. b\<lparr>bp_error := t\<rparr>) b, raw)
        else ok (b, raw))"

text \<open>A loop whose body may fail.\<close>

fun fold_result :: "('a \<Rightarrow> 'b \<Rightarrow> 'b result) \<Rightarrow> 'a list \<Rightarrow> 'b \<Rightarrow> 'b result" where
  "fold_result f [] acc = ok acc"
| "fold_result f (x # xs) acc = (case f x acc of Inl e \<Rightarrow> Inl e | Inr acc' \<Rightarrow> fold_result f xs acc')"

definition decode_branch ::
    "json \<Rightarrow> parallel_progress \<times> raw_histories list \<Rightarrow> (parallel_progress \<times> raw_histories list) result" where
  "decode_branch item acc =
     (case get_object (Some item) of
        None \<Rightarrow> bad ''bad parallel branch.''
      | Some bo \<Rightarrow>
          (case fold_result decode_branch_field bo (new_progress [] [], []) of
             Inl e \<Rightarrow> Inl e
           | Inr (b, raw) \<Rightarrow>
               ok ((fst acc)\<lparr>pp_branches := pp_branches (fst acc) @ [b]\<rparr>, snd acc @ [raw])))"

definition decode_progress_field ::
    "string \<times> json \<Rightarrow> parallel_progress \<times> raw_histories list \<Rightarrow> (parallel_progress \<times> raw_histories list) result" where
  "decode_progress_field f acc =
     (case f of (k, v) \<Rightarrow>
        if k = ''node'' then ok (set_string v (\<lambda>t. ((fst acc)\<lparr>pp_node := t\<rparr>, snd acc)) acc)
        else if k \<noteq> ''branches'' then ok acc
        else case get_array (Some v) of
               None \<Rightarrow> bad ''bad parallel branches.''
             | Some items \<Rightarrow> fold_result decode_branch items acc)"

definition decode_progress ::
    "json \<Rightarrow> parallel_progress \<times> raw_histories list \<Rightarrow> (parallel_progress \<times> raw_histories list) result" where
  "decode_progress v acc =
     (case get_object (Some v) of
        None \<Rightarrow> bad ''bad parallel progress.''
      | Some fs \<Rightarrow> fold_result decode_progress_field fs acc)"

text \<open>\<open>get_uint64\<close>: a number that is not negative.\<close>

definition get_uint64 :: "json option \<Rightarrow> nat option" where
  "get_uint64 v = (case get_int64 v of Some i \<Rightarrow> if i < 0 then None else Some (nat i) | None \<Rightarrow> None)"

text \<open>
  The variables of \<open>decode_checkpoint\<close>: the run it writes to, which keeps what was assigned before
  an error, and the locals.
\<close>

record decode_vars =
  dv_out :: graph_run
  dv_values :: "string std_map"
  dv_raw_histories :: raw_histories
  dv_parallel :: "parallel_progress \<times> raw_histories list"
  dv_found_progress :: bool

definition decode_root_field :: "bool \<Rightarrow> string \<times> json \<Rightarrow> decode_vars \<Rightarrow> unit result \<times> decode_vars" where
  "decode_root_field want_progress f d =
     (case f of (name, v) \<Rightarrow>
        let out = dv_out d in
        if name = ''step'' then
          (case get_uint64 (Some v) of
             None \<Rightarrow> (bad ''bad step.'', d)
           | Some n \<Rightarrow> (ok (), d\<lparr>dv_out := out\<lparr>run_step := n\<rparr>\<rparr>))
        else if name = ''next'' then (ok (), d\<lparr>dv_out := set_string v (\<lambda>t. out\<lparr>run_next_node := t\<rparr>) out\<rparr>)
        else if name = ''status'' then (ok (), d\<lparr>dv_out := set_string v (\<lambda>t. out\<lparr>run_status := parse_status t\<rparr>) out\<rparr>)
        else if name = ''interrupt_node'' then
          (ok (), d\<lparr>dv_out := set_string v (\<lambda>t. out\<lparr>run_interrupt_node := t\<rparr>) out\<rparr>)
        else if name = ''interrupt_reason'' then
          (ok (), d\<lparr>dv_out := set_string v (\<lambda>t. out\<lparr>run_interrupt_reason := t\<rparr>) out\<rparr>)
        else if name = ''pending_tool_calls'' then
          (case decode_calls v of
             Inl e \<Rightarrow> (Inl e, d)
           | Inr cs \<Rightarrow> (ok (), d\<lparr>dv_out := out\<lparr>run_pending_tool_calls := cs\<rparr>\<rparr>))
        else if name = ''state'' then
          (case decode_values v (dv_values d) of Inl e \<Rightarrow> (Inl e, d) | Inr m \<Rightarrow> (ok (), d\<lparr>dv_values := m\<rparr>))
        else if name = ''histories'' then
          (case collect_histories v (dv_raw_histories d) of
             Inl e \<Rightarrow> (Inl e, d)
           | Inr raw \<Rightarrow> (ok (), d\<lparr>dv_raw_histories := raw\<rparr>))
        else if name = ''parallel'' \<and> want_progress then
          (case decode_progress v (dv_parallel d) of
             Inl e \<Rightarrow> (Inl e, d\<lparr>dv_found_progress := True\<rparr>)
           | Inr p \<Rightarrow> (ok (), d\<lparr>dv_found_progress := True, dv_parallel := p\<rparr>))
        else (ok (), d))"

fun decode_root :: "bool \<Rightarrow> (string \<times> json) list \<Rightarrow> decode_vars \<Rightarrow> unit result \<times> decode_vars" where
  "decode_root want [] d = (ok (), d)"
| "decode_root want (f # fs) d =
     (case decode_root_field want f d of (Inl e, d') \<Rightarrow> (Inl e, d') | (Inr _, d') \<Rightarrow> decode_root want fs d')"

definition build_branch ::
    "(string \<Rightarrow> json option) \<Rightarrow> string \<Rightarrow> branch_progress \<times> raw_histories \<Rightarrow> branch_progress list \<Rightarrow> branch_progress list result" where
  "build_branch parse thread_id f out =
     (case build_histories parse thread_id (snd f) (bp_histories (fst f)) of
        Inl e \<Rightarrow> Inl e
      | Inr hs \<Rightarrow> ok (out @ [(fst f)\<lparr>bp_histories := hs\<rparr>]))"

definition decode_checkpoint ::
    "(string \<Rightarrow> json option) \<Rightarrow> string \<Rightarrow> bool \<Rightarrow> graph_run \<Rightarrow> unit result \<times> graph_run \<times> parallel_progress option" where
  "decode_checkpoint parse txt want_progress out =
     (case parse txt of
        None \<Rightarrow> (bad ''invalid JSON.'', out, None)
      | Some doc \<Rightarrow>
          (case get_object (Some doc) of
             None \<Rightarrow> (bad ''not a JSON object.'', out, None)
           | Some root \<Rightarrow>
               (case decode_root want_progress root
                       \<lparr>dv_out = out, dv_values = [], dv_raw_histories = [],
                        dv_parallel = (\<lparr>pp_node = [], pp_branches = []\<rparr>, []), dv_found_progress = False\<rparr> of
                  (Inl e, d) \<Rightarrow> (Inl e, dv_out d, None)
                | (Inr _, d) \<Rightarrow>
                    let run = dv_out d; thread_id = run_thread_id run in
                    (case build_histories parse thread_id (dv_raw_histories d) [] of
                       Inl e \<Rightarrow> (Inl e, run, None)
                     | Inr hs \<Rightarrow>
                         let run' = run\<lparr>run_state := (run_state run)\<lparr>gs_values := dv_values d, gs_histories := hs\<rparr>\<rparr>
                         in if \<not> dv_found_progress d then (ok (), run', None)
                            else case fold_result (build_branch parse thread_id)
                                        (zip (pp_branches (fst (dv_parallel d))) (snd (dv_parallel d))) [] of
                                   Inl e \<Rightarrow> (Inl e, run, None)
                                 | Inr bs \<Rightarrow> (ok (), run', Some ((fst (dv_parallel d))\<lparr>pp_branches := bs\<rparr>))))))"

section \<open>The event log\<close>

definition event_number :: "graph_event_type \<Rightarrow> int" where
  "event_number t =
     (case t of Ev_NodeStart \<Rightarrow> 0 | Ev_NodeEnd \<Rightarrow> 1 | Ev_StateWrite \<Rightarrow> 2 | Ev_ToolCall \<Rightarrow> 3 | Ev_ToolResult \<Rightarrow> 4
      | Ev_Interrupt \<Rightarrow> 5 | Ev_Resume \<Rightarrow> 6 | Ev_Checkpoint \<Rightarrow> 7 | Ev_NodeFailed \<Rightarrow> 8 | Ev_Fork \<Rightarrow> 9 | Unknown_Event i \<Rightarrow> i)"

definition event_of_number :: "int \<Rightarrow> graph_event_type" where
  "event_of_number n =
     (let i = to_int32 n in
      if 0 \<le> i \<and> i \<le> 9 then
        [Ev_NodeStart, Ev_NodeEnd, Ev_StateWrite, Ev_ToolCall, Ev_ToolResult, Ev_Interrupt, Ev_Resume, Ev_Checkpoint,
         Ev_NodeFailed, Ev_Fork] ! nat i
      else Unknown_Event i)"

definition encode_event :: "graph_event \<Rightarrow> string" where
  "encode_event e =
     ''{'' @ quoted ''type'' @ '':'' @ to_string_int (event_number (ge_type e)) @ '','' @
     append_string_field ''node'' (ge_node e) @ '','' @ append_string_field ''key'' (ge_key e) @ '','' @
     quoted ''ts'' @ '':'' @ to_string_int (ge_timestamp_ms e) @ '','' @
     append_string_field ''payload'' (ge_payload e) @ ''}''"

definition encode_events :: "graph_event list \<Rightarrow> string" where
  "encode_events events = ''['' @ sep_by '','' (map encode_event events) @ '']''"

definition decode_event_field :: "string \<times> json \<Rightarrow> graph_event \<Rightarrow> graph_event" where
  "decode_event_field f e =
     (case f of (k, v) \<Rightarrow>
        if k = ''type'' then (case get_int64 (Some v) of Some n \<Rightarrow> e\<lparr>ge_type := event_of_number n\<rparr> | None \<Rightarrow> e)
        else if k = ''ts'' then (case get_int64 (Some v) of Some n \<Rightarrow> e\<lparr>ge_timestamp_ms := n\<rparr> | None \<Rightarrow> e)
        else if k = ''node'' then set_string v (\<lambda>t. e\<lparr>ge_node := t\<rparr>) e
        else if k = ''key'' then set_string v (\<lambda>t. e\<lparr>ge_key := t\<rparr>) e
        else if k = ''payload'' then set_string v (\<lambda>t. e\<lparr>ge_payload := t\<rparr>) e
        else e)"

definition decode_event :: "json \<Rightarrow> graph_event list \<Rightarrow> graph_event list result" where
  "decode_event item out =
     (case get_object (Some item) of
        None \<Rightarrow> fail ParseError ''graph event log: bad event.''
      | Some fs \<Rightarrow>
          ok (out @ [fold decode_event_field fs
            \<lparr>ge_type = Ev_NodeStart, ge_node = [], ge_key = [], ge_timestamp_ms = 0, ge_payload = []\<rparr>]))"

definition decode_events :: "(string \<Rightarrow> json option) \<Rightarrow> string \<Rightarrow> graph_event list \<Rightarrow> graph_event list result" where
  "decode_events parse txt out =
     (case get_array (parse txt) of
        None \<Rightarrow> fail ParseError ''graph event log: not a JSON array.''
      | Some items \<Rightarrow> fold_result decode_event items out)"

section \<open>Scoped state\<close>

text \<open>
  \<open>user:\<close> and \<open>app:\<close> keys live in the session's store: one entry per key, and an index of the known
  keys, a \<open>std::set\<close>, here the sorted list of its elements.
\<close>

definition kScopedIndexKey :: string where
  "kScopedIndexKey = ''graph_state_keys''"

definition kScopedValuePrefix :: string where
  "kScopedValuePrefix = ''graph_state:''"

definition index_emplace :: "string \<Rightarrow> string list \<Rightarrow> string list" where
  "index_emplace k index = (if k \<in> set index then index else insort k index)"

fun load_scoped_values ::
    "('w, 'm) session \<Rightarrow> string list \<Rightarrow> graph_state \<Rightarrow> ('w, 'm) rt \<Rightarrow> unit result \<times> graph_state \<times> ('w, 'm) rt" where
  "load_scoped_values S [] st r = (ok (), st, r)"
| "load_scoped_values S (k # ks) st r =
     (case retrieve_memory S (kScopedValuePrefix @ k) r of
        (Inr v, r1) \<Rightarrow> load_scoped_values S ks (st\<lparr>gs_values := smap_put k v (gs_values st)\<rparr>) r1
      | (Inl e, r1) \<Rightarrow> if code e \<noteq> KeyNotFound then (Inl e, st, r1) else load_scoped_values S ks st r1)"

definition load_scoped_state ::
    "('w, 'm) session \<Rightarrow> graph_state \<Rightarrow> string list \<Rightarrow> ('w, 'm) rt \<Rightarrow>
     unit result \<times> graph_state \<times> string list \<times> ('w, 'm) rt" where
  "load_scoped_state S st index r =
     (case retrieve_memory S kScopedIndexKey r of
        (Inl e, r1) \<Rightarrow> (if code e = KeyNotFound then ok () else Inl e, st, index, r1)
      | (Inr txt, r1) \<Rightarrow>
          (case get_array (simdjson S txt) of
             None \<Rightarrow>
               (fail ParseError ''graph state: stored scoped key index is not a JSON array.'', st, index, r1)
           | Some keys \<Rightarrow>
               let index' = fold index_emplace (List.map_filter (\<lambda>x. get_string (Some x)) keys) index
               in case load_scoped_values S index' st r1 of (res, st', r2) \<Rightarrow> (res, st', index', r2)))"

definition persist_scoped_value ::
    "('w, 'm) session \<Rightarrow> string \<Rightarrow> string \<Rightarrow> string list \<Rightarrow> ('w, 'm) rt \<Rightarrow> unit result \<times> string list \<times> ('w, 'm) rt" where
  "persist_scoped_value S key v index r =
     (case store_memory S (kScopedValuePrefix @ key) v r of
        (Inl e, r1) \<Rightarrow> (Inl e, index, r1)
      | (Inr _, r1) \<Rightarrow>
          if key \<in> set index then (ok (), index, r1)
          else let index' = index_emplace key index
               in case store_memory S kScopedIndexKey (encode_strings index') r1 of (res, r2) \<Rightarrow> (res, index', r2))"

end
