(* ===== verification/Checkpointer.thy ===== *)
theory Checkpointer
  imports Graph_Checkpoint
begin

text \<open>
  Checkpointers, \<^verbatim>\<open>src/core/graph/graph_checkpointer.cpp\<close>: the in-memory \<open>CheckpointerOps\<close>, the
  adapter that keeps checkpoints in the session's key-value store, and the operations on a
  thread's checkpoints. The time of a write is an argument, read from the clock by the caller.
  The required operations of \<open>CheckpointerOps\<close> are present; the two of the event log may be null.
\<close>

section \<open>Operations\<close>

record checkpoint_info =
  ci_step :: nat
  ci_timestamp_ms :: int
  ci_metadata :: string

record 's checkpointer_ops =
  co_put :: "string \<Rightarrow> nat \<Rightarrow> string \<Rightarrow> string \<Rightarrow> int \<Rightarrow> 's \<Rightarrow> unit result \<times> 's"
  co_get_latest :: "string \<Rightarrow> 's \<Rightarrow> string result \<times> 's"
  co_get :: "string \<Rightarrow> nat \<Rightarrow> 's \<Rightarrow> string result \<times> 's"
  co_list :: "string \<Rightarrow> 's \<Rightarrow> checkpoint_info list result \<times> 's"
  co_delete_thread :: "string \<Rightarrow> 's \<Rightarrow> unit result \<times> 's"
  co_append_events :: "(string \<Rightarrow> graph_event list \<Rightarrow> 's \<Rightarrow> unit result \<times> 's) option"
  co_list_events :: "(string \<Rightarrow> 's \<Rightarrow> graph_event list result \<times> 's) option"

section \<open>The in-memory checkpointer\<close>

text \<open>\<open>std::map<uint64_t, MemCheckpoint>\<close> as the list of its entries in step order.\<close>

type_synonym step_map = "(nat \<times> string \<times> string \<times> int) list"

fun step_put :: "nat \<Rightarrow> 'v \<Rightarrow> (nat \<times> 'v) list \<Rightarrow> (nat \<times> 'v) list" where
  "step_put n v [] = [(n, v)]"
| "step_put n v ((k, x) # m) = (if n < k then (n, v) # (k, x) # m else if n = k then (n, v) # m else (k, x) # step_put n v m)"

record mem_checkpointer =
  mc_threads :: "step_map std_map"
  mc_events :: "graph_event list std_map"

definition mem_open :: mem_checkpointer where
  "mem_open = \<lparr>mc_threads = [], mc_events = []\<rparr>"

definition mem_put ::
    "string \<Rightarrow> nat \<Rightarrow> string \<Rightarrow> string \<Rightarrow> int \<Rightarrow> mem_checkpointer \<Rightarrow> unit result \<times> mem_checkpointer" where
  "mem_put thread_id n blob metadata now s =
     (let m = the_default [] (smap_find (mc_threads s) thread_id)
      in (ok (), s\<lparr>mc_threads := smap_put thread_id (step_put n (blob, metadata, now) m) (mc_threads s)\<rparr>))"

definition no_checkpoint :: "string \<Rightarrow> string result" where
  "no_checkpoint thread_id = fail KeyNotFound (''no checkpoint for thread '' @ squote thread_id)"

definition mem_get_latest :: "string \<Rightarrow> mem_checkpointer \<Rightarrow> string result \<times> mem_checkpointer" where
  "mem_get_latest thread_id s =
     (case smap_find (mc_threads s) thread_id of
        None \<Rightarrow> no_checkpoint thread_id
      | Some m \<Rightarrow> if m = [] then no_checkpoint thread_id else ok (fst (snd (last m))), s)"

definition mem_get :: "string \<Rightarrow> nat \<Rightarrow> mem_checkpointer \<Rightarrow> string result \<times> mem_checkpointer" where
  "mem_get thread_id n s =
     (case smap_find (mc_threads s) thread_id of
        None \<Rightarrow> no_checkpoint thread_id
      | Some m \<Rightarrow>
          (case map_of m n of
             None \<Rightarrow> fail KeyNotFound (''no checkpoint at step '' @ to_string n @ '' of thread '' @ squote thread_id)
           | Some cp \<Rightarrow> ok (fst cp)), s)"

definition mem_list :: "string \<Rightarrow> mem_checkpointer \<Rightarrow> checkpoint_info list result \<times> mem_checkpointer" where
  "mem_list thread_id s =
     (ok (map (\<lambda>(n, _, metadata, ts). \<lparr>ci_step = n, ci_timestamp_ms = ts, ci_metadata = metadata\<rparr>)
            (the_default [] (smap_find (mc_threads s) thread_id))), s)"

definition mem_delete_thread :: "string \<Rightarrow> mem_checkpointer \<Rightarrow> unit result \<times> mem_checkpointer" where
  "mem_delete_thread thread_id s =
     (ok (), s\<lparr>mc_threads := smap_erase thread_id (mc_threads s), mc_events := smap_erase thread_id (mc_events s)\<rparr>)"

definition mem_append_events :: "string \<Rightarrow> graph_event list \<Rightarrow> mem_checkpointer \<Rightarrow> unit result \<times> mem_checkpointer" where
  "mem_append_events thread_id events s =
     (ok (), s\<lparr>mc_events :=
        smap_put thread_id (the_default [] (smap_find (mc_events s) thread_id) @ events) (mc_events s)\<rparr>)"

definition mem_list_events :: "string \<Rightarrow> mem_checkpointer \<Rightarrow> graph_event list result \<times> mem_checkpointer" where
  "mem_list_events thread_id s = (ok (the_default [] (smap_find (mc_events s) thread_id)), s)"

definition in_memory_checkpointer :: "mem_checkpointer checkpointer_ops" where
  "in_memory_checkpointer =
     \<lparr>co_put = mem_put, co_get_latest = mem_get_latest, co_get = mem_get, co_list = mem_list,
      co_delete_thread = mem_delete_thread, co_append_events = Some mem_append_events,
      co_list_events = Some mem_list_events\<rparr>"

section \<open>Numbers read from the store\<close>

text \<open>\<open>std::from_chars\<close> into 64-bit integers: a value out of range is an error.\<close>

definition from_chars_u64 :: "string \<Rightarrow> nat option" where
  "from_chars_u64 s = (case from_chars s of Some n \<Rightarrow> if n < 2 ^ 64 then Some n else None | None \<Rightarrow> None)"

definition from_chars_i64 :: "string \<Rightarrow> int option" where
  "from_chars_i64 s =
     (case s of
        [] \<Rightarrow> None
      | c # cs \<Rightarrow>
          if c = CHR ''-'' then
            (case from_chars cs of Some n \<Rightarrow> if n \<le> 2 ^ 63 then Some (- int n) else None | None \<Rightarrow> None)
          else (case from_chars s of Some n \<Rightarrow> if n < 2 ^ 63 then Some (int n) else None | None \<Rightarrow> None))"

section \<open>The store adapter\<close>

definition meta_key :: "string \<Rightarrow> string \<Rightarrow> string" where
  "meta_key thread_id suffix = ''checkpoint_meta:'' @ thread_id @ '':'' @ suffix"

definition store_get_nonempty :: "('w, 'm) session \<Rightarrow> string \<Rightarrow> ('w, 'm) rt \<Rightarrow> string result \<times> ('w, 'm) rt" where
  "store_get_nonempty S key r =
     (case retrieve_memory S key r of
        (Inr v, r') \<Rightarrow> (if v = [] then fail KeyNotFound (''Key not found: '' @ key) else ok v, r')
      | (Inl e, r') \<Rightarrow> (Inl e, r'))"

text \<open>Writes one after another; the first failure ends them.\<close>

fun store_all :: "('w, 'm) session \<Rightarrow> (string \<times> string) list \<Rightarrow> ('w, 'm) rt \<Rightarrow> unit result \<times> ('w, 'm) rt" where
  "store_all S [] r = (ok (), r)"
| "store_all S ((k, v) # kvs) r =
     (case store_memory S k v r of (Inl e, r') \<Rightarrow> (Inl e, r') | (Inr _, r') \<Rightarrow> store_all S kvs r')"

definition store_put ::
    "('w, 'm) session \<Rightarrow> string \<Rightarrow> nat \<Rightarrow> string \<Rightarrow> string \<Rightarrow> int \<Rightarrow> ('w, 'm) rt \<Rightarrow> unit result \<times> ('w, 'm) rt" where
  "store_put S thread_id n blob metadata now r =
     store_all S
       [(checkpoint_key thread_id (to_string n), blob), (checkpoint_key thread_id ''latest'', blob),
        (meta_key thread_id (to_string n), to_string_int now @ '' '' @ metadata), (meta_key thread_id ''latest'', to_string n)] r"

definition store_get_latest :: "('w, 'm) session \<Rightarrow> string \<Rightarrow> ('w, 'm) rt \<Rightarrow> string result \<times> ('w, 'm) rt" where
  "store_get_latest S thread_id r =
     (case store_get_nonempty S (checkpoint_key thread_id ''latest'') r of
        (Inl e, r') \<Rightarrow> (if code e = KeyNotFound then no_checkpoint thread_id else Inl e, r')
      | (Inr v, r') \<Rightarrow> (ok v, r'))"

definition store_get :: "('w, 'm) session \<Rightarrow> string \<Rightarrow> nat \<Rightarrow> ('w, 'm) rt \<Rightarrow> string result \<times> ('w, 'm) rt" where
  "store_get S thread_id n r = store_get_nonempty S (checkpoint_key thread_id (to_string n)) r"

definition store_latest_step :: "('w, 'm) session \<Rightarrow> string \<Rightarrow> ('w, 'm) rt \<Rightarrow> nat result \<times> ('w, 'm) rt" where
  "store_latest_step S thread_id r =
     (case store_get_nonempty S (meta_key thread_id ''latest'') r of
        (Inl e, r') \<Rightarrow> (Inl e, r')
      | (Inr v, r') \<Rightarrow>
          (case from_chars_u64 v of
             None \<Rightarrow> fail ParseError (''checkpoint index of thread '' @ squote thread_id @ '' is corrupt'')
           | Some n \<Rightarrow> ok n, r'))"

text \<open>The value of \<open>checkpoint_meta:<t>:<step>\<close>: the time, a space, the metadata.\<close>

definition parse_meta :: "nat \<Rightarrow> string \<Rightarrow> checkpoint_info" where
  "parse_meta n v =
     (let stamp = takeWhile (\<lambda>c. c \<noteq> CHR '' '') v; rest = dropWhile (\<lambda>c. c \<noteq> CHR '' '') v
      in \<lparr>ci_step = n, ci_timestamp_ms = the_default 0 (from_chars_i64 stamp),
          ci_metadata = (if rest = [] then [] else tl rest)\<rparr>)"

fun store_list_steps ::
    "('w, 'm) session \<Rightarrow> string \<Rightarrow> nat list \<Rightarrow> checkpoint_info list \<Rightarrow> ('w, 'm) rt \<Rightarrow>
     checkpoint_info list result \<times> ('w, 'm) rt" where
  "store_list_steps S thread_id [] out r = (ok out, r)"
| "store_list_steps S thread_id (n # ns) out r =
     (case store_get_nonempty S (meta_key thread_id (to_string n)) r of
        (Inl e, r') \<Rightarrow> if code e = KeyNotFound then store_list_steps S thread_id ns out r' else (Inl e, r')
      | (Inr v, r') \<Rightarrow> store_list_steps S thread_id ns (out @ [parse_meta n v]) r')"

definition store_list :: "('w, 'm) session \<Rightarrow> string \<Rightarrow> ('w, 'm) rt \<Rightarrow> checkpoint_info list result \<times> ('w, 'm) rt" where
  "store_list S thread_id r =
     (case store_latest_step S thread_id r of
        (Inl e, r') \<Rightarrow> (if code e = KeyNotFound then ok [] else Inl e, r')
      | (Inr latest, r') \<Rightarrow> store_list_steps S thread_id [0..<Suc latest] [] r')"

definition events_key :: "string \<Rightarrow> string \<Rightarrow> string" where
  "events_key thread_id suffix = ''graph_events:'' @ thread_id @ '':'' @ suffix"

definition store_event_batches :: "('w, 'm) session \<Rightarrow> string \<Rightarrow> ('w, 'm) rt \<Rightarrow> nat result \<times> ('w, 'm) rt" where
  "store_event_batches S thread_id r =
     (case store_get_nonempty S (events_key thread_id ''count'') r of
        (Inl e, r') \<Rightarrow> (if code e = KeyNotFound then ok 0 else Inl e, r')
      | (Inr v, r') \<Rightarrow> (ok (the_default 0 (from_chars_u64 v)), r'))"

definition store_append_events ::
    "('w, 'm) session \<Rightarrow> string \<Rightarrow> graph_event list \<Rightarrow> ('w, 'm) rt \<Rightarrow> unit result \<times> ('w, 'm) rt" where
  "store_append_events S thread_id events r =
     (case store_event_batches S thread_id r of
        (Inl e, r') \<Rightarrow> (Inl e, r')
      | (Inr n, r') \<Rightarrow>
          store_all S [(events_key thread_id (to_string n), encode_events events),
                       (events_key thread_id ''count'', to_string (n + 1))] r')"

fun store_read_batches ::
    "('w, 'm) session \<Rightarrow> string \<Rightarrow> nat list \<Rightarrow> graph_event list \<Rightarrow> ('w, 'm) rt \<Rightarrow> graph_event list result \<times> ('w, 'm) rt" where
  "store_read_batches S thread_id [] out r = (ok out, r)"
| "store_read_batches S thread_id (i # is) out r =
     (case retrieve_memory S (events_key thread_id (to_string i)) r of
        (Inl e, r') \<Rightarrow> (Inl e, r')
      | (Inr batch, r') \<Rightarrow>
          (case decode_events (simdjson S) batch out of
             Inl e \<Rightarrow> (Inl e, r')
           | Inr out' \<Rightarrow> store_read_batches S thread_id is out' r'))"

definition store_list_events :: "('w, 'm) session \<Rightarrow> string \<Rightarrow> ('w, 'm) rt \<Rightarrow> graph_event list result \<times> ('w, 'm) rt" where
  "store_list_events S thread_id r =
     (case store_event_batches S thread_id r of
        (Inl e, r') \<Rightarrow> (Inl e, r')
      | (Inr n, r') \<Rightarrow> store_read_batches S thread_id [0..<n] [] r')"

fun store_erase_steps :: "('w, 'm) session \<Rightarrow> string \<Rightarrow> nat list \<Rightarrow> ('w, 'm) rt \<Rightarrow> unit result \<times> ('w, 'm) rt" where
  "store_erase_steps S thread_id [] r = (ok (), r)"
| "store_erase_steps S thread_id (n # ns) r =
     (case store_get_nonempty S (meta_key thread_id (to_string n)) r of
        (Inl _, r1) \<Rightarrow> store_erase_steps S thread_id ns r1
      | (Inr _, r1) \<Rightarrow>
          (case store_all S [(meta_key thread_id (to_string n), []), (checkpoint_key thread_id (to_string n), [])] r1 of
             (Inl e, r2) \<Rightarrow> (Inl e, r2)
           | (Inr _, r2) \<Rightarrow> store_erase_steps S thread_id ns r2))"

text \<open>The three stages of \<open>store_delete_thread\<close>: the event count, the steps, the latest checkpoint.\<close>

definition store_erase_events :: "('w, 'm) session \<Rightarrow> string \<Rightarrow> ('w, 'm) rt \<Rightarrow> unit result \<times> ('w, 'm) rt" where
  "store_erase_events S thread_id r =
     (case store_get_nonempty S (events_key thread_id ''count'') r of
        (Inl _, r') \<Rightarrow> (ok (), r')
      | (Inr _, r') \<Rightarrow> store_memory S (events_key thread_id ''count'') [] r')"

definition store_erase_all_steps :: "('w, 'm) session \<Rightarrow> string \<Rightarrow> ('w, 'm) rt \<Rightarrow> unit result \<times> ('w, 'm) rt" where
  "store_erase_all_steps S thread_id r =
     (case store_latest_step S thread_id r of
        (Inl e, r') \<Rightarrow> (if code e \<noteq> KeyNotFound then Inl e else ok (), r')
      | (Inr latest, r') \<Rightarrow>
          (case store_erase_steps S thread_id [0..<Suc latest] r' of
             (Inl e, r2) \<Rightarrow> (Inl e, r2)
           | (Inr _, r2) \<Rightarrow> store_memory S (meta_key thread_id ''latest'') [] r2))"

definition store_erase_latest :: "('w, 'm) session \<Rightarrow> string \<Rightarrow> ('w, 'm) rt \<Rightarrow> unit result \<times> ('w, 'm) rt" where
  "store_erase_latest S thread_id r =
     (case retrieve_memory S (checkpoint_key thread_id ''latest'') r of
        (Inl _, r') \<Rightarrow> (ok (), r')
      | (Inr _, r') \<Rightarrow> store_memory S (checkpoint_key thread_id ''latest'') [] r')"

definition store_delete_thread :: "('w, 'm) session \<Rightarrow> string \<Rightarrow> ('w, 'm) rt \<Rightarrow> unit result \<times> ('w, 'm) rt" where
  "store_delete_thread S thread_id r =
     (case store_erase_events S thread_id r of
        (Inl e, r1) \<Rightarrow> (Inl e, r1)
      | (Inr _, r1) \<Rightarrow>
          (case store_erase_all_steps S thread_id r1 of
             (Inl e, r2) \<Rightarrow> (Inl e, r2)
           | (Inr _, r2) \<Rightarrow> store_erase_latest S thread_id r2))"

definition store_checkpointer :: "('w, 'm) session \<Rightarrow> ('w, 'm) rt checkpointer_ops" where
  "store_checkpointer S =
     \<lparr>co_put = store_put S, co_get_latest = store_get_latest S, co_get = store_get S, co_list = store_list S,
      co_delete_thread = store_delete_thread S, co_append_events = Some (store_append_events S),
      co_list_events = Some (store_list_events S)\<rparr>"

section \<open>The checkpointer of a run\<close>

definition complete :: "'s checkpointer_ops \<Rightarrow> bool" where
  "complete ops \<longleftrightarrow> (co_append_events ops = None) = (co_list_events ops = None)"

text \<open>
  The sink of a run: the caller's checkpointer, or the session's store. The caller's checkpointer
  is given by operations on the state of the run.
\<close>

definition resolve_sink ::
    "('w, 'm) session \<Rightarrow> ('w, 'm) rt checkpointer_ops option \<Rightarrow> ('w, 'm) rt \<Rightarrow> ('w, 'm) rt checkpointer_ops result" where
  "resolve_sink S checkpointer r =
     (case checkpointer of
        Some ops \<Rightarrow>
          if complete ops then ok ops
          else fail InvalidConfig (''graph checkpointer is missing one of put/get_latest/get/list/delete_thread, or '' @
                 ''sets only one of append_events/list_events'')
      | None \<Rightarrow>
          if rt_store r = None then fail ProviderInitFailed ''Memory store not initialized.''
          else ok (store_checkpointer S))"

definition default_thread :: "string \<Rightarrow> string" where
  "default_thread thread_id = (if thread_id = [] then ''default'' else thread_id)"

definition list_graph_checkpoints ::
    "('w, 'm) session \<Rightarrow> string \<Rightarrow> ('w, 'm) rt checkpointer_ops option \<Rightarrow> ('w, 'm) rt \<Rightarrow>
     checkpoint_info list result \<times> ('w, 'm) rt" where
  "list_graph_checkpoints S thread_id checkpointer r =
     (case resolve_sink S checkpointer r of
        Inl e \<Rightarrow> (Inl e, r)
      | Inr ops \<Rightarrow> co_list ops (default_thread thread_id) r)"

definition list_graph_events ::
    "('w, 'm) session \<Rightarrow> string \<Rightarrow> ('w, 'm) rt checkpointer_ops option \<Rightarrow> ('w, 'm) rt \<Rightarrow>
     graph_event list result \<times> ('w, 'm) rt" where
  "list_graph_events S thread_id checkpointer r =
     (case resolve_sink S checkpointer r of
        Inl e \<Rightarrow> (Inl e, r)
      | Inr ops \<Rightarrow>
          (case co_list_events ops of
             None \<Rightarrow> (fail UnsupportedProvider ''graph checkpointer has no event log'', r)
           | Some lst \<Rightarrow> lst (default_thread thread_id) r))"

definition delete_graph_thread ::
    "('w, 'm) session \<Rightarrow> string \<Rightarrow> ('w, 'm) rt checkpointer_ops option \<Rightarrow> ('w, 'm) rt \<Rightarrow> unit result \<times> ('w, 'm) rt" where
  "delete_graph_thread S thread_id checkpointer r =
     (case resolve_sink S checkpointer r of
        Inl e \<Rightarrow> (Inl e, r)
      | Inr ops \<Rightarrow> co_delete_thread ops (default_thread thread_id) r)"

text \<open>A checkpointer whose state is a part of a larger one.\<close>

definition lift_ops :: "('s \<Rightarrow> 'c) \<Rightarrow> ('c \<Rightarrow> 's \<Rightarrow> 's) \<Rightarrow> 'c checkpointer_ops \<Rightarrow> 's checkpointer_ops" where
  "lift_ops part upd ops =
     \<lparr>co_put = (\<lambda>t n b m now s. case co_put ops t n b m now (part s) of (res, c) \<Rightarrow> (res, upd c s)),
          co_get_latest = (\<lambda>t s. case co_get_latest ops t (part s) of (res, c) \<Rightarrow> (res, upd c s)),
          co_get = (\<lambda>t n s. case co_get ops t n (part s) of (res, c) \<Rightarrow> (res, upd c s)),
          co_list = (\<lambda>t s. case co_list ops t (part s) of (res, c) \<Rightarrow> (res, upd c s)),
          co_delete_thread = (\<lambda>t s. case co_delete_thread ops t (part s) of (res, c) \<Rightarrow> (res, upd c s)),
          co_append_events =
            map_option (\<lambda>f t es s. case f t es (part s) of (res, c) \<Rightarrow> (res, upd c s)) (co_append_events ops),
          co_list_events = map_option (\<lambda>f t s. case f t (part s) of (res, c) \<Rightarrow> (res, upd c s)) (co_list_events ops)\<rparr>"

end
