(* ===== verification/Async_Writer.thy ===== *)
theory Async_Writer
  imports Checkpointer
begin

text \<open>
  The background writer behind \<open>GraphDurability::Async\<close>, \<open>AsyncWriter\<close> of
  \<^verbatim>\<open>src/core/graph/graph_checkpointer.cpp\<close>, as a step relation: the threads of a run enqueue
  jobs and wait in \<open>flush\<close>, and one background thread takes a job off the queue and, without the
  lock, performs it. A step is what happens under the lock, or the write itself; conditions of the
  condition variables are guards.
\<close>

section \<open>State and steps\<close>

datatype job =
    Put_Job string nat string string
  | Events_Job string "graph_event list"

record 's async_writer =
  aw_queue :: "job list"
  aw_taken :: "job option"
  aw_queued :: nat
  aw_written :: nat
  aw_waiting :: "nat list"
  aw_started :: bool
  aw_stop :: bool
  aw_joined :: bool
  aw_error :: "error option"
  aw_sink :: 's

definition aw_new :: "'s \<Rightarrow> 's async_writer" where
  "aw_new s = \<lparr>aw_queue = [], aw_taken = None, aw_queued = 0, aw_written = 0, aw_waiting = [],
       aw_started = False, aw_stop = False, aw_joined = False, aw_error = None, aw_sink = s\<rparr>"

text \<open>
  The call the background thread makes, at time \<open>now\<close>. Event batches are queued only when the
  checkpointer has an event log.
\<close>

definition perform :: "'s checkpointer_ops \<Rightarrow> int \<Rightarrow> job \<Rightarrow> 's \<Rightarrow> unit result \<times> 's" where
  "perform ops now j s =
     (case j of
        Put_Job t n blob metadata \<Rightarrow> co_put ops t n blob metadata now s
      | Events_Job t es \<Rightarrow> (case co_append_events ops of Some f \<Rightarrow> f t es s | None \<Rightarrow> (ok (), s)))"

text \<open>What the two public calls enqueue; \<open>append_events\<close> ignores an empty batch and a missing log.\<close>

definition append_events_jobs :: "'s checkpointer_ops \<Rightarrow> string \<Rightarrow> graph_event list \<Rightarrow> job list" where
  "append_events_jobs ops t es = (if co_append_events ops = None \<or> es = [] then [] else [Events_Job t es])"

definition first_failure :: "error option \<Rightarrow> unit result \<Rightarrow> error option" where
  "first_failure err res = (case err of Some e \<Rightarrow> Some e | None \<Rightarrow> (case res of Inl e \<Rightarrow> Some e | Inr _ \<Rightarrow> None))"

definition flush_result :: "error option \<Rightarrow> unit result" where
  "flush_result err = (case err of Some e \<Rightarrow> Inl e | None \<Rightarrow> ok ())"

text \<open>
  Labels: a job is enqueued, which starts the background thread the first time; the background
  thread takes a job; it has performed it at a time with a result; a \<open>flush\<close> is called and reads
  its target; a \<open>flush\<close> with a target returns a result; the destructor asks the background thread
  to stop; the background thread has left its loop. Nothing is enqueued on a writer under
  destruction.
\<close>

datatype label =
    L_Enqueue job
  | L_Take
  | L_Write int "unit result"
  | L_Flush
  | L_Flushed nat "unit result"
  | L_Stop
  | L_Exit

inductive aw_step :: "'s checkpointer_ops \<Rightarrow> nat \<Rightarrow> 's async_writer \<Rightarrow> label \<Rightarrow> 's async_writer \<Rightarrow> bool"
  for ops cap where
  enqueue: "\<not> aw_stop w \<Longrightarrow> length (aw_queue w) < cap \<Longrightarrow>
    aw_step ops cap w (L_Enqueue j)
      (w\<lparr>aw_started := True, aw_queue := aw_queue w @ [j], aw_queued := Suc (aw_queued w)\<rparr>)"
| take_job: "aw_started w \<Longrightarrow> \<not> aw_joined w \<Longrightarrow> aw_taken w = None \<Longrightarrow> aw_queue w = j # q \<Longrightarrow>
    aw_step ops cap w L_Take (w\<lparr>aw_queue := q, aw_taken := Some j\<rparr>)"
| wrote: "aw_taken w = Some j \<Longrightarrow> perform ops now j (aw_sink w) = (res, s') \<Longrightarrow>
    aw_step ops cap w (L_Write now res)
      (w\<lparr>aw_taken := None, aw_sink := s', aw_error := first_failure (aw_error w) res, aw_written := Suc (aw_written w)\<rparr>)"
| flush: "aw_step ops cap w L_Flush (w\<lparr>aw_waiting := aw_queued w # aw_waiting w\<rparr>)"
| flushed: "n \<in> set (aw_waiting w) \<Longrightarrow> n \<le> aw_written w \<Longrightarrow>
    aw_step ops cap w (L_Flushed n (flush_result (aw_error w)))
      (w\<lparr>aw_waiting := remove1 n (aw_waiting w), aw_error := None\<rparr>)"
| stop: "aw_step ops cap w L_Stop (w\<lparr>aw_stop := True\<rparr>)"
| leave: "aw_started w \<Longrightarrow> \<not> aw_joined w \<Longrightarrow> aw_taken w = None \<Longrightarrow> aw_stop w \<Longrightarrow> aw_queue w = [] \<Longrightarrow>
    aw_step ops cap w L_Exit (w\<lparr>aw_joined := True\<rparr>)"

inductive aw_run :: "'s checkpointer_ops \<Rightarrow> nat \<Rightarrow> 's async_writer \<Rightarrow> label list \<Rightarrow> 's async_writer \<Rightarrow> bool"
  for ops cap where
  run_nil: "aw_run ops cap w [] w"
| run_snoc: "aw_run ops cap w tr w1 \<Longrightarrow> aw_step ops cap w1 l w2 \<Longrightarrow> aw_run ops cap w (tr @ [l]) w2"

section \<open>What a trace did\<close>

definition enqueued :: "label list \<Rightarrow> job list" where
  "enqueued tr = List.map_filter (\<lambda>l. case l of L_Enqueue j \<Rightarrow> Some j | _ \<Rightarrow> None) tr"

definition writes :: "label list \<Rightarrow> (int \<times> unit result) list" where
  "writes tr = List.map_filter (\<lambda>l. case l of L_Write now res \<Rightarrow> Some (now, res) | _ \<Rightarrow> None) tr"

text \<open>The writes since the last \<open>flush\<close> returned.\<close>

definition is_flush :: "label \<Rightarrow> bool" where
  "is_flush l \<longleftrightarrow> (case l of L_Flushed _ _ \<Rightarrow> True | _ \<Rightarrow> False)"

definition since_flush :: "label list \<Rightarrow> label list" where
  "since_flush tr = rev (takeWhile (\<lambda>l. \<not> is_flush l) (rev tr))"

text \<open>The jobs performed directly, one after another, at the given times.\<close>

fun perform_all :: "'s checkpointer_ops \<Rightarrow> (job \<times> int) list \<Rightarrow> 's \<Rightarrow> unit result list \<times> 's" where
  "perform_all ops [] s = ([], s)"
| "perform_all ops ((j, now) # js) s =
     (case perform ops now j s of (res, s1) \<Rightarrow> case perform_all ops js s1 of (rs, s2) \<Rightarrow> (res # rs, s2))"

lemma perform_all_append:
  "perform_all ops (xs @ ys) s =
     (case perform_all ops xs s of (rs, s1) \<Rightarrow> case perform_all ops ys s1 of (rs', s2) \<Rightarrow> (rs @ rs', s2))"
  by (induction xs arbitrary: s) (auto split: prod.split)

lemma trace_snoc [simp]:
  "enqueued [] = []" "writes [] = []"
  "enqueued (tr @ [L_Enqueue j]) = enqueued tr @ [j]" "writes (tr @ [L_Enqueue j]) = writes tr"
  "enqueued (tr @ [L_Take]) = enqueued tr" "writes (tr @ [L_Take]) = writes tr"
  "enqueued (tr @ [L_Write now res]) = enqueued tr" "writes (tr @ [L_Write now res]) = writes tr @ [(now, res)]"
  "enqueued (tr @ [L_Flush]) = enqueued tr" "writes (tr @ [L_Flush]) = writes tr"
  "enqueued (tr @ [L_Flushed n res]) = enqueued tr" "writes (tr @ [L_Flushed n res]) = writes tr"
  "enqueued (tr @ [L_Exit]) = enqueued tr" "writes (tr @ [L_Exit]) = writes tr"
  "enqueued (tr @ [L_Stop]) = enqueued tr" "writes (tr @ [L_Stop]) = writes tr"
  by (simp_all add: enqueued_def writes_def List.map_filter_def)

lemma since_flush_snoc: "since_flush (tr @ [l]) = (if is_flush l then [] else since_flush tr @ [l])"
  by (simp add: since_flush_def)

section \<open>Invariant\<close>

text \<open>
  Everything enqueued is, in order, performed, taken or waiting; the counters count; the sink is
  what performing the first jobs directly gives; the pending error is the first one since the last
  \<open>flush\<close>.
\<close>

definition aw_inv :: "'s checkpointer_ops \<Rightarrow> nat \<Rightarrow> 's \<Rightarrow> label list \<Rightarrow> 's async_writer \<Rightarrow> bool" where
  "aw_inv ops cap s0 tr w \<longleftrightarrow>
     aw_queued w = length (enqueued tr) \<and> aw_written w = length (writes tr) \<and>
     drop (aw_written w) (enqueued tr) = (case aw_taken w of None \<Rightarrow> [] | Some j \<Rightarrow> [j]) @ aw_queue w \<and>
     aw_written w \<le> aw_queued w \<and> length (aw_queue w) \<le> cap \<and>
     (aw_queued w > 0 \<longrightarrow> aw_started w) \<and> (\<forall>n \<in> set (aw_waiting w). n \<le> aw_queued w) \<and>
     (aw_joined w \<longrightarrow> aw_stop w \<and> aw_queue w = [] \<and> aw_taken w = None) \<and>
     perform_all ops (zip (take (aw_written w) (enqueued tr)) (map fst (writes tr))) s0 = (map snd (writes tr), aw_sink w) \<and>
     aw_error w = fold (\<lambda>(_, res) err. first_failure err res) (writes (since_flush tr)) None"

lemma aw_inv_init: "aw_inv ops cap s0 [] (aw_new s0)"
  by (simp add: aw_inv_def aw_new_def since_flush_def)

lemma aw_inv_step:
  assumes "aw_inv ops cap s0 tr w" "aw_step ops cap w l w'"
  shows "aw_inv ops cap s0 (tr @ [l]) w'"
  using assms(2)
proof cases
  case (enqueue j)
  then show ?thesis using assms(1) by (auto simp: aw_inv_def since_flush_snoc is_flush_def)
next
  case (take_job j q)
  then show ?thesis using assms(1) by (auto simp: aw_inv_def since_flush_snoc is_flush_def)
next
  case (wrote j now res s')
  let ?n = "aw_written w" and ?js = "enqueued tr"
  have d: "drop ?n ?js = j # aw_queue w" using assms(1) wrote(3) unfolding aw_inv_def by auto
  then have n: "?n < length ?js" by (metis drop_all leI list.distinct(1))
  then have jn: "?js ! ?n = j" using d by (metis Cons_nth_drop_Suc list.inject)
  have "take (Suc ?n) ?js = take ?n ?js @ [j]" using n jn by (simp add: take_Suc_conv_app_nth)
  moreover have "drop (Suc ?n) ?js = aw_queue w" using d n by (metis Cons_nth_drop_Suc list.inject)
  ultimately show ?thesis
    using assms(1) wrote n
    by (auto simp: aw_inv_def since_flush_snoc is_flush_def perform_all_append)
next
  case flush
  then show ?thesis using assms(1) by (auto simp: aw_inv_def since_flush_snoc is_flush_def)
next
  case (flushed n)
  then show ?thesis
    using assms(1) by (auto simp: aw_inv_def since_flush_snoc is_flush_def dest: set_mp [OF set_remove1_subset])
next
  case leave
  then show ?thesis using assms(1) by (auto simp: aw_inv_def since_flush_snoc is_flush_def)
next
  case stop
  then show ?thesis using assms(1) by (auto simp: aw_inv_def since_flush_snoc is_flush_def)
qed

lemma aw_inv_run: "aw_run ops cap (aw_new s0) tr w \<Longrightarrow> aw_inv ops cap s0 tr w"
  by (induction "aw_new s0" tr w rule: aw_run.induct) (auto simp: aw_inv_init intro: aw_inv_step)

section \<open>Flushing\<close>

text \<open>The targets of the waiting \<open>flush\<close> calls are the numbers of jobs enqueued before them.\<close>

lemma waiting_targets:
  assumes "aw_run ops cap (aw_new s0) tr w" "n \<in> set (aw_waiting w)"
  shows "\<exists>tr1 tr2. tr = tr1 @ L_Flush # tr2 \<and> n = length (enqueued tr1)"
  using assms
proof (induction "aw_new s0" tr w rule: aw_run.induct)
  case run_nil
  then show ?case by (simp add: aw_new_def)
next
  case (run_snoc tr w1 l w2)
  have inv: "aw_queued w1 = length (enqueued tr)" using aw_inv_run [OF run_snoc(1)] by (simp add: aw_inv_def)
  have "n \<in> set (aw_waiting w1) \<or> l = L_Flush \<and> n = aw_queued w1"
    using run_snoc(3,4) set_remove1_subset by cases (auto dest: set_mp [OF set_remove1_subset])
  then show ?case using run_snoc(2) inv by fastforce
qed

lemma first_failure_fold:
  "flush_result (fold (\<lambda>(_, res) err. first_failure err res) xs err) =
     (case err of Some e \<Rightarrow> Inl e | None \<Rightarrow> (case filter isl (map snd xs) of [] \<Rightarrow> ok () | r # _ \<Rightarrow> r))"
  by (induction xs arbitrary: err)
    (auto simp: flush_result_def first_failure_def split: option.splits sum.splits)

lemmas flush_first = first_failure_fold [of _ None, simplified]

definition writer_label :: "label \<Rightarrow> bool" where
  "writer_label l \<longleftrightarrow> (case l of L_Take \<Rightarrow> True | L_Write _ _ \<Rightarrow> True | _ \<Rightarrow> False)"

definition backlog :: "'s async_writer \<Rightarrow> nat" where
  "backlog w = 2 * length (aw_queue w) + (if aw_taken w = None then 0 else 1)"

lemma writer_step_decreases:
  "aw_step ops cap w l w' \<Longrightarrow> writer_label l \<Longrightarrow> backlog w = Suc (backlog w') \<and> aw_queued w' = aw_queued w"
  by (cases rule: aw_step.cases) (auto simp: writer_label_def backlog_def)

lemma writer_step_enabled:
  assumes "aw_inv ops cap s0 tr w" "backlog w > 0"
  shows "\<exists>l w'. writer_label l \<and> aw_step ops cap w l w'"
proof (cases "aw_taken w")
  case None
  then obtain j q where q: "aw_queue w = j # q" using assms(2) by (cases "aw_queue w") (auto simp: backlog_def)
  have "aw_queued w > 0" using assms(1) q None by (auto simp: aw_inv_def)
  then have "aw_started w" "\<not> aw_joined w" using assms(1) q by (auto simp: aw_inv_def)
  then have "aw_step ops cap w L_Take (w\<lparr>aw_queue := q, aw_taken := Some j\<rparr>)" by (rule take_job [OF _ _ None q])
  then show ?thesis by (intro exI [of _ L_Take]) (auto simp: writer_label_def)
next
  case (Some j)
  obtain res s' where "perform ops 0 j (aw_sink w) = (res, s')" by fastforce
  then show ?thesis
    using wrote [OF Some, of ops 0 res s' cap] by (intro exI [of _ "L_Write 0 res"]) (auto simp: writer_label_def)
qed

lemma no_backlog:
  assumes "aw_inv ops cap s0 tr w" "backlog w = 0"
  shows "aw_written w = aw_queued w"
proof -
  have "drop (aw_written w) (enqueued tr) = []"
    using assms by (cases "aw_taken w") (auto simp: aw_inv_def backlog_def)
  then show ?thesis using assms(1) by (simp add: aw_inv_def)
qed

lemma writer_run_backlog:
  "aw_run ops cap w tr w' \<Longrightarrow> list_all writer_label tr \<Longrightarrow>
     length tr + backlog w' = backlog w \<and> aw_queued w' = aw_queued w"
  by (induction rule: aw_run.induct) (auto dest: writer_step_decreases)

lemma aw_run_trans:
  assumes "aw_run ops cap w1 tr2 w2" "aw_run ops cap w0 tr1 w1"
  shows "aw_run ops cap w0 (tr1 @ tr2) w2"
  using assms
proof (induction rule: aw_run.induct)
  case (run_snoc w tr w1 l w2)
  then show ?case using aw_run.run_snoc [of ops cap w0 "tr1 @ tr" w1 l w2] by simp
qed simp

section \<open>Executing the steps\<close>

text \<open>The step relation is a partial function of the label.\<close>

definition aw_exec :: "'s checkpointer_ops \<Rightarrow> nat \<Rightarrow> label \<Rightarrow> 's async_writer \<Rightarrow> 's async_writer option" where
  "aw_exec ops cap l w =
     (case l of
        L_Enqueue j \<Rightarrow>
          if \<not> aw_stop w \<and> length (aw_queue w) < cap
          then Some (w\<lparr>aw_started := True, aw_queue := aw_queue w @ [j], aw_queued := Suc (aw_queued w)\<rparr>) else None
      | L_Take \<Rightarrow>
          if aw_started w \<and> \<not> aw_joined w \<and> aw_taken w = None \<and> aw_queue w \<noteq> []
          then Some (w\<lparr>aw_queue := tl (aw_queue w), aw_taken := Some (hd (aw_queue w))\<rparr>) else None
      | L_Write now res \<Rightarrow>
          (case aw_taken w of None \<Rightarrow> None
           | Some j \<Rightarrow>
              if fst (perform ops now j (aw_sink w)) = res
              then Some (w\<lparr>aw_taken := None, aw_sink := snd (perform ops now j (aw_sink w)),
                           aw_error := first_failure (aw_error w) res, aw_written := Suc (aw_written w)\<rparr>) else None)
      | L_Flush \<Rightarrow> Some (w\<lparr>aw_waiting := aw_queued w # aw_waiting w\<rparr>)
      | L_Flushed n res \<Rightarrow>
          if n \<in> set (aw_waiting w) \<and> n \<le> aw_written w \<and> res = flush_result (aw_error w)
          then Some (w\<lparr>aw_waiting := remove1 n (aw_waiting w), aw_error := None\<rparr>) else None
      | L_Stop \<Rightarrow> Some (w\<lparr>aw_stop := True\<rparr>)
      | L_Exit \<Rightarrow>
          if aw_started w \<and> \<not> aw_joined w \<and> aw_taken w = None \<and> aw_stop w \<and> aw_queue w = []
          then Some (w\<lparr>aw_joined := True\<rparr>) else None)"

lemma aw_exec_sound:
  assumes "aw_exec ops cap l w = Some w'"
  shows "aw_step ops cap w l w'"
proof (cases l)
  case L_Take
  with assms show ?thesis
    by (cases "aw_queue w") (auto simp: aw_exec_def split: if_splits intro: aw_step.take_job)
next
  case (L_Write now res)
  with assms show ?thesis
    by (auto simp: aw_exec_def split: if_splits option.splits intro: aw_step.wrote [OF _ surjective_pairing])
qed (use assms in \<open>auto simp: aw_exec_def split: if_splits intro: aw_step.intros\<close>)

fun aw_exec_all :: "'s checkpointer_ops \<Rightarrow> nat \<Rightarrow> label list \<Rightarrow> 's async_writer \<Rightarrow> 's async_writer option" where
  "aw_exec_all ops cap [] w = Some w"
| "aw_exec_all ops cap (l # ls) w = Option.bind (aw_exec ops cap l w) (aw_exec_all ops cap ls)"

lemma aw_exec_all_sound: "aw_exec_all ops cap ls w = Some w' \<Longrightarrow> aw_run ops cap w ls w'"
proof (induction ls arbitrary: w)
  case (Cons l ls)
  then obtain w1 where w1: "aw_exec ops cap l w = Some w1" "aw_exec_all ops cap ls w1 = Some w'"
    by (auto split: bind_splits)
  have "aw_run ops cap w ([] @ [l]) w1" by (rule run_snoc [OF run_nil aw_exec_sound [OF w1(1)]])
  then show ?case using aw_run_trans [OF Cons.IH [OF w1(2)]] by fastforce
qed (simp add: run_nil)

text \<open>Two checkpoints through a queue of one, over the in-memory checkpointer.\<close>

definition sample_trace :: "label list" where
  "sample_trace =
     [L_Enqueue (Put_Job ''t'' 1 ''a'' ''m''), L_Take, L_Enqueue (Put_Job ''t'' 2 ''b'' ''m''), L_Flush,
      L_Write 5 (ok ()), L_Take, L_Write 6 (ok ())]"

definition sample_writer :: "mem_checkpointer async_writer" where
  "sample_writer = the (aw_exec_all in_memory_checkpointer 1 sample_trace (aw_new mem_open))"

lemma sample_run: "aw_run in_memory_checkpointer 1 (aw_new mem_open) sample_trace sample_writer"
proof (rule aw_exec_all_sound)
  have "aw_exec_all in_memory_checkpointer 1 sample_trace (aw_new mem_open) \<noteq> None" by code_simp
  then show "aw_exec_all in_memory_checkpointer 1 sample_trace (aw_new mem_open) = Some sample_writer"
    unfolding sample_writer_def by simp
qed

section \<open>Claims\<close>

text \<open>
  C28. However the threads interleave, the asynchronous writer does what direct writes do: with a
  trace of steps from a fresh writer, the sink is the one that performing the first \<open>written\<close> of
  the enqueued jobs one after another gives, with the same results; the jobs still to perform are
  the one taken and the queue, in order; the queue never exceeds its cap; and when the
  background thread has left its loop every job has been performed.
\<close>

theorem async_writer_fifo:
  assumes "aw_run ops cap (aw_new s0) tr w"
  shows "perform_all ops (zip (take (aw_written w) (enqueued tr)) (map fst (writes tr))) s0 = (map snd (writes tr), aw_sink w) \<and>
    drop (aw_written w) (enqueued tr) = (case aw_taken w of None \<Rightarrow> [] | Some j \<Rightarrow> [j]) @ aw_queue w \<and>
    length (aw_queue w) \<le> cap \<and> aw_written w \<le> aw_queued w \<and> aw_queued w = length (enqueued tr) \<and>
    (aw_joined w \<longrightarrow> aw_written w = aw_queued w)"
  using aw_inv_run [OF assms] no_backlog [OF aw_inv_run [OF assms]] by (auto simp: aw_inv_def backlog_def)

theorem async_writer_fifo_witness:
  "aw_run in_memory_checkpointer 1 (aw_new mem_open) sample_trace sample_writer \<and>
   aw_queued sample_writer = length (enqueued sample_trace) \<and> length (aw_queue sample_writer) \<le> 1"
  using sample_run async_writer_fifo [OF sample_run] by simp

text \<open>
  C29. When a \<open>flush\<close> returns, everything enqueued before it was called has been performed, and it
  returns the first error of the writes since the last \<open>flush\<close> returned, if one failed.
\<close>

theorem async_flush_covers:
  assumes "aw_run ops cap (aw_new s0) tr w" "aw_step ops cap w (L_Flushed n res) w'"
  shows "(\<exists>tr1 tr2. tr = tr1 @ L_Flush # tr2 \<and> n = length (enqueued tr1)) \<and> n \<le> length (writes tr) \<and>
    res = (case filter isl (map snd (writes (since_flush tr))) of [] \<Rightarrow> ok () | r # _ \<Rightarrow> r) \<and> aw_error w' = None"
proof -
  have step: "n \<in> set (aw_waiting w)" "n \<le> aw_written w" "res = flush_result (aw_error w)" "aw_error w' = None"
    using assms(2) by (cases rule: aw_step.cases; simp)+
  have inv: "aw_inv ops cap s0 tr w" by (rule aw_inv_run [OF assms(1)])
  then show ?thesis
    using step waiting_targets [OF assms(1) step(1)]
    by (simp add: aw_inv_def flush_first)
qed

theorem async_flush_covers_witness:
  "2 \<le> length (writes sample_trace) \<and>
   aw_step in_memory_checkpointer 1 sample_writer (L_Flushed 2 (ok ()))
     (the (aw_exec in_memory_checkpointer 1 (L_Flushed 2 (ok ())) sample_writer))"
proof -
  have "aw_exec in_memory_checkpointer 1 (L_Flushed 2 (ok ())) sample_writer \<noteq> None" by code_simp
  then have "aw_step in_memory_checkpointer 1 sample_writer (L_Flushed 2 (ok ()))
      (the (aw_exec in_memory_checkpointer 1 (L_Flushed 2 (ok ())) sample_writer))"
    by (intro aw_exec_sound) simp
  then show ?thesis using async_flush_covers [OF sample_run] by blast
qed

text \<open>
  C30. A \<open>flush\<close> cannot wait forever: from a reachable state the background thread alone always has
  a step while something is enqueued and not performed, it makes at most two steps per job, and
  when it has none left everything is performed, so that every waiting \<open>flush\<close> may return.
\<close>

theorem async_writer_drains:
  assumes "aw_run ops cap (aw_new s0) tr w"
    and "aw_run ops cap w tr' w'" "list_all writer_label tr'"
  shows "length tr' \<le> 2 * (aw_queued w - aw_written w) \<and>
    ((\<exists>l w2. writer_label l \<and> aw_step ops cap w' l w2) \<or>
     aw_written w' = aw_queued w \<and> (\<forall>n \<in> set (aw_waiting w'). \<exists>res w2. aw_step ops cap w' (L_Flushed n res) w2))"
proof -
  have inv: "aw_inv ops cap s0 tr w" by (rule aw_inv_run [OF assms(1)])
  have inv': "aw_inv ops cap s0 (tr @ tr') w'" by (rule aw_inv_run [OF aw_run_trans [OF assms(2,1)]])
  have "length ((case aw_taken w of None \<Rightarrow> [] | Some j \<Rightarrow> [j]) @ aw_queue w) = aw_queued w - aw_written w"
    using inv unfolding aw_inv_def by (metis length_drop)
  then have "backlog w \<le> 2 * (aw_queued w - aw_written w)"
    by (auto simp: backlog_def split: option.splits)
  then have len: "length tr' \<le> 2 * (aw_queued w - aw_written w)"
    using writer_run_backlog [OF assms(2,3)] by linarith
  show ?thesis
  proof (cases "backlog w' = 0")
    case True
    then have "aw_written w' = aw_queued w'" by (rule no_backlog [OF inv'])
    moreover have "\<forall>n \<in> set (aw_waiting w'). n \<le> aw_queued w'" using inv' unfolding aw_inv_def by blast
    ultimately show ?thesis using len writer_run_backlog [OF assms(2,3)] flushed by fastforce
  next
    case False
    then show ?thesis using len writer_step_enabled [OF inv'] by blast
  qed
qed

theorem async_writer_drains_witness:
  "aw_queued sample_writer - aw_written sample_writer = 0 \<and>
   (\<exists>res w2. aw_step in_memory_checkpointer 1 sample_writer (L_Flushed 2 res) w2)"
proof -
  have none: "backlog sample_writer = 0" "aw_queued sample_writer - aw_written sample_writer = 0" by code_simp+
  have w: "2 \<in> set (aw_waiting sample_writer)" by code_simp
  have "\<nexists>l w2. writer_label l \<and> aw_step in_memory_checkpointer 1 sample_writer l w2"
    using none writer_step_decreases by fastforce
  then show ?thesis using async_writer_drains [OF sample_run run_nil list.pred_inject(1)] none(2) w by blast
qed

end
