(* ===== verification/Graph_Exec.thy ===== *)
theory Graph_Exec
  imports Async_Writer "HOL-Library.Monad_Syntax"
begin

text \<open>
  The nodes of a graph run, the first half of \<^verbatim>\<open>src/core/graph/graph_executor.cpp\<close>: the
  event log, the checkpoint a run writes, the conversation of an agent node, and one definition
  per kind of node (agent, function, tool, loop) with the choice of the next node. Parallel nodes
  and the run itself are in \<open>Graph_Run\<close>.

  The event vector of the running chain of nodes is part of the world the callbacks act on,
  because the tool hooks an agent node installs append to it in the middle of a turn. Everything
  that a chain changes is in one record \<open>xst\<close>: the session, the chain's \<open>GraphState\<close>, the keys it
  wrote, the index of stored scoped keys, and the \<open>RunCtx\<close>. A definition that may run a turn
  returns an option, \<open>None\<close> when the turn does not return.
\<close>

section \<open>Services of a run\<close>

record 'u graph_world =
  gw_user :: 'u
  gw_events :: "graph_event list"

type_synonym ('u, 'm) grt = "('u graph_world, 'm) rt"

text \<open>
  \<open>ModelRegistry\<close> as a run uses it: a lease gives a session with its own state, and returning it
  hands that state back.
\<close>

record ('u, 'm) model_leases =
  ml_acquire :: "string \<Rightarrow> ('u, 'm) grt \<Rightarrow> (('u graph_world, 'm) session \<times> ('u, 'm) grt) result \<times> ('u, 'm) grt"
  ml_release :: "string \<Rightarrow> ('u, 'm) grt \<Rightarrow> ('u, 'm) grt \<Rightarrow> ('u, 'm) grt"

text \<open>
  What a run is given: the session and the ambient variables of the calling thread, the
  checkpointer of the \<open>Sink\<close>, \<open>GraphRun::models\<close>, \<open>GraphRun::on_event\<close> and the clock.
\<close>

record ('u, 'm) services =
  sv_session :: "('u graph_world, 'm) session"
  sv_ambient :: "('u graph_world, 'm) ambient"
  sv_ops :: "('u, 'm) grt checkpointer_ops"
  sv_models :: "('u, 'm) model_leases option"
  sv_on_event :: "(graph_event \<Rightarrow> 'u graph_world env \<Rightarrow> 'u graph_world env) option"
  sv_now :: "'u graph_world env \<Rightarrow> int \<times> 'u graph_world env"

definition events_of :: "('u, 'm) grt \<Rightarrow> graph_event list" where
  "events_of r = gw_events (env_user (rt_env r))"

definition set_events :: "graph_event list \<Rightarrow> ('u, 'm) grt \<Rightarrow> ('u, 'm) grt" where
  "set_events es r = r\<lparr>rt_env := (rt_env r)\<lparr>env_user := (env_user (rt_env r))\<lparr>gw_events := es\<rparr>\<rparr>\<rparr>"

section \<open>Events\<close>

definition kPayloadMax :: nat where
  "kPayloadMax = 200"

definition clip :: "string \<Rightarrow> string" where
  "clip txt = (if length txt \<le> kPayloadMax then txt else take kPayloadMax txt @ ''...'')"

text \<open>\<open>std::string_view::find\<close>: the first position of a substring.\<close>

fun find_text :: "string \<Rightarrow> string \<Rightarrow> nat option" where
  "find_text pat [] = (if pat = [] then Some 0 else None)"
| "find_text pat (c # cs) = (if starts_with (c # cs) pat then Some 0 else map_option Suc (find_text pat cs))"

definition clip_tool_result :: "string \<Rightarrow> string" where
  "clip_tool_result txt =
     (if length txt \<le> kPayloadMax then txt
      else case find_text ''[attached: '' txt of
             None \<Rightarrow> clip txt
           | Some at \<Rightarrow>
               let out = clip (take at txt)
               in (if out \<noteq> [] \<and> last out \<noteq> CHR 0x0A then out @ [CHR 0x0A] else out) @
                  take (4 * kPayloadMax) (drop at txt))"

definition make_event ::
    "('u, 'm) services \<Rightarrow> graph_event_type \<Rightarrow> string \<Rightarrow> string \<Rightarrow> string \<Rightarrow> ('u, 'm) grt \<Rightarrow> graph_event \<times> ('u, 'm) grt" where
  "make_event sv ty node key payload r =
     (case sv_now sv (rt_env r) of
        (t, w) \<Rightarrow>
          (\<lparr>ge_type = ty, ge_node = node, ge_key = key, ge_timestamp_ms = t,
            ge_payload = (if ty = Ev_ToolResult then clip_tool_result payload else clip payload)\<rparr>,
           r\<lparr>rt_env := w\<rparr>))"

definition log_event ::
    "('u, 'm) services \<Rightarrow> graph_event_type \<Rightarrow> string \<Rightarrow> string \<Rightarrow> string \<Rightarrow> ('u, 'm) grt \<Rightarrow> ('u, 'm) grt" where
  "log_event sv ty node key payload r =
     (case make_event sv ty node key payload r of (e, r1) \<Rightarrow> set_events (events_of r1 @ [e]) r1)"

definition emit ::
    "('u, 'm) services \<Rightarrow> graph_event_type \<Rightarrow> string \<Rightarrow> string \<Rightarrow> string \<Rightarrow> ('u, 'm) grt \<Rightarrow> ('u, 'm) grt" where
  "emit sv ty node key payload r =
     (case make_event sv ty node key payload r of
        (e, r1) \<Rightarrow>
          let r2 = set_events (events_of r1 @ [e]) r1
          in (case sv_on_event sv of None \<Rightarrow> r2 | Some f \<Rightarrow> r2\<lparr>rt_env := f e (rt_env r2)\<rparr>))"

section \<open>Checkpoints of a run\<close>

record pending_resume =
  pr_calls :: "tool_call list"
  pr_approved :: bool
  pr_human_input :: string

text \<open>
  \<open>RunCtx\<close>, with the pending error of the asynchronous writer. The run of the model enqueues a
  write and performs it at once, one of the schedules of \<open>Async_Writer\<close>, where every schedule is
  shown to leave the same checkpoints once it is flushed. The worker slots are left out: branches
  run one after another, as they do without worker arenas.
\<close>

record run_ctx =
  rc_run :: graph_run
  rc_persisted_events :: nat
  rc_forked_from :: string
  rc_progress :: "parallel_progress option"
  rc_branch_resume :: "pending_resume std_map"
  rc_write_error :: "error option"

definition new_ctx :: "graph_run \<Rightarrow> run_ctx" where
  "new_ctx run =
     \<lparr>rc_run = run, rc_persisted_events = length (run_events run), rc_forked_from = [], rc_progress = None,
      rc_branch_resume = [], rc_write_error = None\<rparr>"

definition checkpoint_metadata :: "('w, 'm) graph \<Rightarrow> run_ctx \<Rightarrow> string" where
  "checkpoint_metadata g c =
     ''{'' @ append_string_field ''graph'' (gr_name g) @ '','' @
     quoted ''step'' @ '':'' @ to_string (run_step (rc_run c)) @ '','' @
     append_string_field ''next'' (run_next_node (rc_run c)) @ '','' @
     append_string_field ''status'' (status_name (run_status (rc_run c))) @
     (if rc_forked_from c \<noteq> [] then '','' @ append_string_field ''forked_from'' (rc_forked_from c) else []) @ ''}''"

definition now_ms :: "('u, 'm) services \<Rightarrow> ('u, 'm) grt \<Rightarrow> int \<times> ('u, 'm) grt" where
  "now_ms sv r = (case sv_now sv (rt_env r) of (t, w) \<Rightarrow> (t, r\<lparr>rt_env := w\<rparr>))"

definition perform_now :: "('u, 'm) services \<Rightarrow> job \<Rightarrow> ('u, 'm) grt \<Rightarrow> unit result \<times> ('u, 'm) grt" where
  "perform_now sv j r = (case now_ms sv r of (t, r1) \<Rightarrow> perform (sv_ops sv) t j r1)"

fun writer_enqueue ::
    "('u, 'm) services \<Rightarrow> job list \<Rightarrow> error option \<Rightarrow> ('u, 'm) grt \<Rightarrow> error option \<times> ('u, 'm) grt" where
  "writer_enqueue sv [] err r = (err, r)"
| "writer_enqueue sv (j # js) err r =
     (case perform_now sv j r of (res, r1) \<Rightarrow> writer_enqueue sv js (first_failure err res) r1)"

definition fresh_events :: "('u, 'm) services \<Rightarrow> run_ctx \<Rightarrow> graph_event list" where
  "fresh_events sv c =
     (if co_append_events (sv_ops sv) \<noteq> None then drop (rc_persisted_events c) (run_events (rc_run c)) else [])"

definition write_checkpoint ::
    "('u, 'm) services \<Rightarrow> ('u graph_world, 'm) graph \<Rightarrow> bool \<Rightarrow> run_ctx \<Rightarrow> ('u, 'm) grt \<Rightarrow>
     unit result \<times> run_ctx \<times> ('u, 'm) grt" where
  "write_checkpoint sv g through_writer c r =
     (let run = rc_run c; t = run_thread_id run; n = run_step run in
      case make_event sv Ev_Checkpoint (run_next_node run) (checkpoint_key t (to_string n)) [] r of
        (e, r1) \<Rightarrow>
          let c1 = c\<lparr>rc_run := run\<lparr>run_events := run_events run @ [e]\<rparr>\<rparr>;
              put = Put_Job t n (encode_checkpoint (rc_run c1) (gr_name g) (rc_progress c1)) (checkpoint_metadata g c1);
              fresh = fresh_events sv c1;
              c2 = c1\<lparr>rc_persisted_events := length (run_events (rc_run c1))\<rparr>
          in if through_writer then
               (case writer_enqueue sv (put # append_events_jobs (sv_ops sv) t fresh) (rc_write_error c2) r1 of
                  (err, r2) \<Rightarrow> (ok (), c2\<lparr>rc_write_error := err\<rparr>, r2))
             else
               (case perform_now sv put r1 of
                  (res, r2) \<Rightarrow>
                    if \<not> is_ok res \<or> fresh = [] then (res, c2, r2)
                    else case perform_now sv (Events_Job t fresh) r2 of (res', r3) \<Rightarrow> (res', c2, r3)))"

section \<open>Execution context\<close>

record ('u, 'm) xst =
  xs_rt :: "('u, 'm) grt"
  xs_state :: graph_state
  xs_writes :: "string list"
  xs_index :: "string list"
  xs_ctx :: run_ctx

text \<open>
  \<open>Exec\<close>: the services, the graph, the depth of the chain and the states of the enclosing chains,
  innermost first. A chain at depth 0 is the run itself and persists scoped keys; the others record
  the keys they write.
\<close>

record ('u, 'm) exec =
  ex_services :: "('u, 'm) services"
  ex_graph :: "('u graph_world, 'm) graph"
  ex_depth :: nat
  ex_parents :: "graph_state list"

abbreviation ex_session :: "('u, 'm) exec \<Rightarrow> ('u graph_world, 'm) session" where
  "ex_session x \<equiv> sv_session (ex_services x)"

definition on_rt :: "(('u, 'm) grt \<Rightarrow> ('u, 'm) grt) \<Rightarrow> ('u, 'm) xst \<Rightarrow> ('u, 'm) xst" where
  "on_rt f st = st\<lparr>xs_rt := f (xs_rt st)\<rparr>"

definition x_thread_id :: "('u, 'm) xst \<Rightarrow> string" where
  "x_thread_id st = run_thread_id (rc_run (xs_ctx st))"

record node_result =
  nr_interrupted :: bool
  nr_reason :: string
  nr_pending :: "tool_call list"
  nr_forced_next :: string
  nr_interrupts :: "graph_interrupt list"

definition node_done :: node_result where
  "node_done = \<lparr>nr_interrupted = False, nr_reason = [], nr_pending = [], nr_forced_next = [], nr_interrupts = []\<rparr>"

section \<open>Conversations\<close>

definition history_name :: "('w, 'm) graph_node \<Rightarrow> string" where
  "history_name n = (if gn_history_key n = [] then gn_name n else gn_history_key n)"

definition new_memory :: "string \<Rightarrow> flow_memory" where
  "new_memory name = \<lparr>fm_id = name, fm_history = [], fm_stats = turn_stats_zero\<rparr>"

fun inherited_history :: "graph_state list \<Rightarrow> string \<Rightarrow> flow_memory" where
  "inherited_history [] name = new_memory []"
| "inherited_history (p # ps) name =
     (case smap_find (gs_histories p) name of Some m \<Rightarrow> m | None \<Rightarrow> inherited_history ps name)"

definition put_history :: "string \<Rightarrow> flow_memory \<Rightarrow> ('u, 'm) xst \<Rightarrow> ('u, 'm) xst" where
  "put_history name m st = st\<lparr>xs_state := (xs_state st)\<lparr>gs_histories := smap_put name m (gs_histories (xs_state st))\<rparr>\<rparr>"

definition history_for :: "('u, 'm) exec \<Rightarrow> string \<Rightarrow> ('u, 'm) xst \<Rightarrow> flow_memory \<times> ('u, 'm) xst" where
  "history_for x name st =
     (case smap_find (gs_histories (xs_state st)) name of
        Some m \<Rightarrow> (m, st)
      | None \<Rightarrow>
          let inherited = inherited_history (ex_parents x) name;
              m = (if fm_id inherited = [] then inherited\<lparr>fm_id := x_thread_id st @ '':'' @ name\<rparr> else inherited)
          in (m, put_history name m st))"

section \<open>Processing written keys\<close>

fun drain_keys ::
    "('u, 'm) exec \<Rightarrow> string \<Rightarrow> string list \<Rightarrow> ('u, 'm) xst \<Rightarrow> unit result \<times> ('u, 'm) xst" where
  "drain_keys x node [] st = (ok (), st)"
| "drain_keys x node (key # keys) st =
     (let v = get_state (xs_state st) key [];
          st1 = on_rt (log_event (ex_services x) Ev_StateWrite node key v) st
      in if ex_depth x > 0 then drain_keys x node keys (st1\<lparr>xs_writes := xs_writes st1 @ [key]\<rparr>)
         else if is_scoped_key key then
           (case persist_scoped_value (ex_session x) key v (xs_index st1) (xs_rt st1) of
              (Inl e, index, r) \<Rightarrow> (Inl e, st1\<lparr>xs_index := index, xs_rt := r\<rparr>)
            | (Inr _, index, r) \<Rightarrow> drain_keys x node keys (st1\<lparr>xs_index := index, xs_rt := r\<rparr>))
         else drain_keys x node keys st1)"

definition clear_written :: "('u, 'm) xst \<Rightarrow> ('u, 'm) xst" where
  "clear_written st = st\<lparr>xs_state := (xs_state st)\<lparr>gs_written := []\<rparr>\<rparr>"

definition drain_writes :: "('u, 'm) exec \<Rightarrow> string \<Rightarrow> ('u, 'm) xst \<Rightarrow> unit result \<times> ('u, 'm) xst" where
  "drain_writes x node st = drain_keys x node (gs_written (xs_state st)) (clear_written st)"

section \<open>Agent nodes\<close>

fun any_ask ::
    "(string \<Rightarrow> string \<Rightarrow> 'w env \<Rightarrow> permission_decision \<times> 'w env) \<Rightarrow> tool_call list \<Rightarrow> 'w env \<Rightarrow> bool \<times> 'w env" where
  "any_ask check [] w = (False, w)"
| "any_ask check (c # cs) w =
     (case check (tc_name c) (tc_arguments c) w of
        (d, w1) \<Rightarrow> if d = Ask then (True, w1) else any_ask check cs w1)"

definition pause_before_tools :: "('w, 'm) session \<Rightarrow> tool_call list \<Rightarrow> 'w env \<Rightarrow> bool \<times> 'w env" where
  "pause_before_tools S calls w =
     (case cfg_permission_check (config S) of None \<Rightarrow> (True, w) | Some check \<Rightarrow> any_ask check calls w)"

text \<open>
  \<open>SystemPromptScope\<close>: the constructor installs the node's prompt and remembers how, the destructor
  takes it out again. \<open>memory.history[0]\<close> exists whenever the constructor replaced it.
\<close>

datatype prompt_scope = No_Prompt | Injected | Saved message

definition enter_prompt :: "string \<Rightarrow> flow_memory \<Rightarrow> prompt_scope \<times> flow_memory" where
  "enter_prompt prompt m =
     (if prompt = [] then (No_Prompt, m)
      else case fm_history m of
             h # hs \<Rightarrow>
               if msg_role h = ''system'' \<and> \<not> starts_with (msg_content h) kCompressedHistoryPrefix
               then (Saved h, m\<lparr>fm_history := h\<lparr>msg_content := prompt, msg_token_count := -1\<rparr> # hs\<rparr>)
               else (Injected, m\<lparr>fm_history := new_message ''system'' prompt # h # hs\<rparr>)
           | [] \<Rightarrow> (Injected, m\<lparr>fm_history := [new_message ''system'' prompt]\<rparr>))"

definition leave_prompt :: "prompt_scope \<Rightarrow> flow_memory \<Rightarrow> flow_memory" where
  "leave_prompt scope m =
     (case scope of
        No_Prompt \<Rightarrow> m
      | Injected \<Rightarrow>
          (case fm_history m of
             h # hs \<Rightarrow> if msg_role h = ''system'' then m\<lparr>fm_history := hs\<rparr> else m
           | [] \<Rightarrow> m)
      | Saved old \<Rightarrow>
          (case fm_history m of h # hs \<Rightarrow> m\<lparr>fm_history := old\<lparr>msg_token_count := -1\<rparr> # hs\<rparr> | [] \<Rightarrow> m))"

definition agent_hooks :: "('u, 'm) services \<Rightarrow> ('u graph_world, 'm) graph_node \<Rightarrow> ('u graph_world, 'm) tool_hook list" where
  "agent_hooks sv n =
     [\<lparr>th_when = Pre, th_tool_name = [], th_callback = Some (\<lambda>tool args res. emit sv Ev_ToolCall (gn_name n) tool args)\<rparr>] @
     gn_hooks n @
     [\<lparr>th_when = Post, th_tool_name = [], th_callback = Some (\<lambda>tool args res. emit sv Ev_ToolResult (gn_name n) tool res)\<rparr>]"

definition agent_ambient ::
    "('u, 'm) services \<Rightarrow> ('u graph_world, 'm) session \<Rightarrow> ('u graph_world, 'm) graph_node \<Rightarrow> ('u graph_world, 'm) ambient" where
  "agent_ambient sv S n =
     (sv_ambient sv)\<lparr>amb_allowed_tools := gn_allowed_tools n, amb_active_hooks := agent_hooks sv n,
       amb_tool_pause_fn := (if gn_interrupt_before_tools n then Some (pause_before_tools S) else None)\<rparr>"

definition denied_result :: "pending_resume \<Rightarrow> tool_result" where
  "denied_result resume =
     (text_result (''Error: tool call denied by human reviewer'' @
        (if pr_human_input resume = [] then [] else '': '' @ pr_human_input resume)))\<lparr>tr_is_error := True\<rparr>"

text \<open>
  \<open>run_approved_call\<close> on the conversation \<open>rt_memory\<close>, with the ambient variables the node installed.
\<close>

definition approved_policy :: "('w, 'm) session \<Rightarrow> tool_call \<Rightarrow> 'w env \<Rightarrow> permission_decision \<times> 'w env" where
  "approved_policy S tc w =
     (case cfg_permission_check (config S) of None \<Rightarrow> (Ask, w) | Some check \<Rightarrow> check (tc_name tc) (tc_arguments tc) w)"

definition run_approved_call ::
    "('u, 'm) services \<Rightarrow> ('u graph_world, 'm) session \<Rightarrow> ('u graph_world, 'm) ambient \<Rightarrow> ('u graph_world, 'm) graph_node \<Rightarrow>
     pending_resume \<Rightarrow> tool_call \<Rightarrow> ('u, 'm) grt \<Rightarrow> tool_result \<times> ('u, 'm) grt" where
  "run_approved_call sv S amb n resume tc r =
     (let r1 = trigger_event S OnToolCall (tc_name tc) (emit sv Ev_ToolCall (gn_name n) (tc_name tc) (tc_arguments tc) r) in
      case approved_policy S tc (rt_env r1) of
        (policy, w) \<Rightarrow>
          let r2 = r1\<lparr>rt_env := w\<rparr> in
          case (if policy = Ask \<and> \<not> pr_approved resume then (denied_result resume, r2)
                else case execute_for_message S (amb\<lparr>amb_tool_call_preapproved := (policy = Ask)\<rparr>) (tc_name tc) (tc_arguments tc)
                            (fire_hooks (gn_hooks n) Pre (tc_name tc) (tc_arguments tc) [] r2) of
                       (res, r3) \<Rightarrow> (res, fire_hooks (gn_hooks n) Post (tc_name tc) (tc_arguments tc) (tr_text res) r3)) of
            (res, r4) \<Rightarrow>
              (res, count_tool_call (trigger_event S OnToolResult (tr_text res)
                      (emit sv Ev_ToolResult (gn_name n) (tc_name tc) (tr_text res) r4))))"

definition answer_call ::
    "('u, 'm) services \<Rightarrow> ('u graph_world, 'm) session \<Rightarrow> ('u graph_world, 'm) ambient \<Rightarrow> ('u graph_world, 'm) graph_node \<Rightarrow>
     pending_resume \<Rightarrow> tool_call \<Rightarrow> ('u, 'm) grt \<Rightarrow> ('u, 'm) grt" where
  "answer_call sv S amb n resume tc r =
     (case run_approved_call sv S amb n resume tc r of (res, r1) \<Rightarrow> push_message (tool_message tc res) r1)"

text \<open>The turn of an agent node on the conversation \<open>m\<close>: the reply, the calls it paused on, the conversation.\<close>

definition agent_turn ::
    "('u, 'm) services \<Rightarrow> ('u graph_world, 'm) session \<Rightarrow> ('u graph_world, 'm) graph_node \<Rightarrow> pending_resume option \<Rightarrow>
     string \<Rightarrow> string \<Rightarrow> flow_memory \<Rightarrow> ('u, 'm) grt \<Rightarrow>
     (string result \<times> tool_call list option \<times> flow_memory \<times> ('u, 'm) grt) option" where
  "agent_turn sv S n resume system_prompt prompt m r =
     (case enter_prompt system_prompt m of
        (scope, m1) \<Rightarrow>
          let amb = agent_ambient sv S n;
              r1 = r\<lparr>rt_tools_paused := False\<rparr>;
              started =
                (case resume of
                   None \<Rightarrow> (m1, prompt, r1)
                 | Some pr \<Rightarrow>
                     let r2 = fold (answer_call sv S amb n pr) (pr_calls pr) (r1\<lparr>rt_memory := m1\<rparr>)
                     in (rt_memory r2, [], r2\<lparr>rt_memory := rt_memory r\<rparr>))
          in case started of
               (m2, input, r2) \<Rightarrow>
                 do {
                   (reply, m3, r3) \<leftarrow> run_turn S amb m2 input False None r2;
                   Some (reply,
                     if rt_tools_paused r3
                     then Some (case fm_history m3 of [] \<Rightarrow> [] | h # hs \<Rightarrow> msg_tool_calls (last (h # hs))) else None,
                     leave_prompt scope m3, r3\<lparr>rt_tools_paused := rt_tools_paused r\<rparr>)
                 })"

text \<open>
  The state of a leased session: its own, with the thread's variables and the data of the callbacks.
\<close>

definition enter_lease :: "('u, 'm) grt \<Rightarrow> ('u, 'm) grt \<Rightarrow> ('u, 'm) grt" where
  "enter_lease r rm =
     rm\<lparr>rt_env := (rt_env rm)\<lparr>env_user := env_user (rt_env r)\<rparr>, rt_memory := rt_memory r,
        rt_tools_paused := rt_tools_paused r, rt_summary_arena := rt_summary_arena r\<rparr>"

definition with_system_prompt :: "string \<Rightarrow> string \<Rightarrow> string" where
  "with_system_prompt extra prompt =
     (if extra = [] then prompt else if prompt = [] then extra else extra @ [CHR 0x0A] @ prompt)"

definition agent_prompt :: "graph_state \<Rightarrow> ('w, 'm) graph_node \<Rightarrow> string" where
  "agent_prompt st n =
     (if gn_input_key n \<noteq> [] \<and> has_state st (gn_input_key n) then get_state st (gn_input_key n) [] else gn_prompt n)"

definition pause_reason :: "tool_call list \<Rightarrow> string" where
  "pause_reason calls = ''approval required for tool call:'' @ concat (map (\<lambda>tc. '' '' @ tc_name tc) calls)"

definition agent_result ::
    "('w, 'm) graph_node \<Rightarrow> string result \<Rightarrow> tool_call list option \<Rightarrow> ('u, 'm) xst \<Rightarrow> node_result result \<times> ('u, 'm) xst" where
  "agent_result n reply paused st =
     (case reply of
        Inl e \<Rightarrow> (Inl e, st)
      | Inr txt \<Rightarrow>
          (case paused of
             Some calls \<Rightarrow>
               (ok (node_done\<lparr>nr_interrupted := True, nr_pending := calls, nr_reason := pause_reason calls\<rparr>), st)
           | None \<Rightarrow>
               (ok node_done,
                if gn_output_key n = [] then st else st\<lparr>xs_state := set_state (gn_output_key n) txt (xs_state st)\<rparr>)))"

definition agent_context ::
    "('w, 'm) graph_node \<Rightarrow> graph_state \<Rightarrow> ('w, 'm) rt \<Rightarrow> string result \<times> ('w, 'm) rt" where
  "agent_context n gs r =
     (case gn_context_provider n of
        None \<Rightarrow> (ok (gn_system_prompt n), r)
      | Some f \<Rightarrow>
          (case f gs r of
             (Inl e, r1) \<Rightarrow> (Inl e, r1)
           | (Inr extra, r1) \<Rightarrow> (ok (with_system_prompt extra (gn_system_prompt n)), r1)))"

text \<open>The turn on the run's own session, or on a leased one.\<close>

definition agent_run_turn ::
    "('u, 'm) exec \<Rightarrow> ('u graph_world, 'm) graph_node \<Rightarrow> pending_resume option \<Rightarrow> string \<Rightarrow>
     ('u graph_world, 'm) session \<Rightarrow> (('u, 'm) grt \<Rightarrow> ('u, 'm) grt) \<Rightarrow> (('u, 'm) grt \<Rightarrow> ('u, 'm) grt \<Rightarrow> ('u, 'm) grt) \<Rightarrow>
     ('u, 'm) xst \<Rightarrow> (node_result result \<times> ('u, 'm) xst) option" where
  "agent_run_turn x n resume system_prompt S enter leave st =
     (case history_for x (history_name n) st of
        (m, st1) \<Rightarrow>
          do {
            (reply, paused, m', r') \<leftarrow>
              agent_turn (ex_services x) S n resume system_prompt (agent_prompt (xs_state st1) n) m (enter (xs_rt st1));
            let st2 = put_history (history_name n) m' (st1\<lparr>xs_rt := leave r' (xs_rt st1)\<rparr>);
            Some (agent_result n reply paused st2)
          })"

definition run_agent_node ::
    "('u, 'm) exec \<Rightarrow> ('u graph_world, 'm) graph_node \<Rightarrow> pending_resume option \<Rightarrow> ('u, 'm) xst \<Rightarrow>
     (node_result result \<times> ('u, 'm) xst) option" where
  "run_agent_node x n resume st =
     (if gn_interrupt_before_tools n \<and> ex_depth x > 1 then
        Some (fail InvalidConfig (''agent node '' @ squote (gn_name n) @
                '': interrupt_before_tools is not supported inside nested parallel branches''), st)
      else case agent_context n (xs_state st) (xs_rt st) of
             (Inl e, r) \<Rightarrow> Some (Inl e, st\<lparr>xs_rt := r\<rparr>)
           | (Inr system_prompt, r) \<Rightarrow>
               let st1 = st\<lparr>xs_rt := r\<rparr> in
               if gn_model n = [] then
                 agent_run_turn x n resume system_prompt (ex_session x) (\<lambda>r. r) (\<lambda>r' _. r') st1
               else (case sv_models (ex_services x) of
                      None \<Rightarrow>
                        Some (fail InvalidConfig (''agent node '' @ squote (gn_name n) @ '' names model '' @
                                squote (gn_model n) @ '' but GraphRun::models is not set''), st1)
                    | Some models \<Rightarrow>
                        (case ml_acquire models (gn_model n) r of
                           (Inl e, r1) \<Rightarrow>
                             Some (fail (code e) (''agent node '' @ squote (gn_name n) @ '': '' @ message e), st1\<lparr>xs_rt := r1\<rparr>)
                         | (Inr (S, rm), r1) \<Rightarrow>
                             agent_run_turn x n resume system_prompt S (\<lambda>r. enter_lease r rm)
                               (\<lambda>rm' r. ml_release models (gn_model n) rm'
                                  (r\<lparr>rt_env := (rt_env r)\<lparr>env_user := env_user (rt_env rm')\<rparr>,
                                     rt_summary_arena := rt_summary_arena rm'\<rparr>))
                               (st1\<lparr>xs_rt := r1\<rparr>))))"

section \<open>Function, tool and loop nodes\<close>

definition clear_interrupt :: "graph_state \<Rightarrow> graph_state" where
  "clear_interrupt st = st\<lparr>gs_interrupt_requested := False, gs_interrupt_reason := []\<rparr>"

definition run_function_node ::
    "('u, 'm) exec \<Rightarrow> ('u graph_world, 'm) graph_node \<Rightarrow> ('u, 'm) xst \<Rightarrow> (node_result result \<times> ('u, 'm) xst) option" where
  "run_function_node x n st =
     (case gn_function n of
        None \<Rightarrow> None
      | Some f \<Rightarrow>
          (case f ((xs_state st)\<lparr>gs_interrupt_requested := False\<rparr>) (xs_rt st) of
             (res, gs, r) \<Rightarrow>
               let st1 = st\<lparr>xs_state := clear_interrupt gs, xs_rt := r\<rparr> in
               Some (case res of
                       Inl e \<Rightarrow> (Inl e, st1)
                     | Inr _ \<Rightarrow>
                         if gs_interrupt_requested gs then
                           if ex_depth x > 1 then
                             (fail InvalidConfig (''function node '' @ squote (gn_name n) @
                                '': interrupts are not supported inside nested parallel branches''), st1)
                           else (ok (node_done\<lparr>nr_interrupted := True, nr_reason := gs_interrupt_reason gs\<rparr>), st1)
                         else (ok node_done, st1))))"

definition tool_arguments :: "('w, 'm) graph_node \<Rightarrow> graph_state \<Rightarrow> ('w, 'm) rt \<Rightarrow> string result \<times> ('w, 'm) rt" where
  "tool_arguments n gs r =
     (case gn_tool_args n of
        Some f \<Rightarrow> f gs r
      | None \<Rightarrow>
          (ok (if gn_input_key n \<noteq> [] \<and> has_state gs (gn_input_key n) then get_state gs (gn_input_key n) [] else ''{}''), r))"

definition run_tool_node ::
    "('u, 'm) exec \<Rightarrow> ('u graph_world, 'm) graph_node \<Rightarrow> ('u, 'm) xst \<Rightarrow> node_result result \<times> ('u, 'm) xst" where
  "run_tool_node x n st =
     (let sv = ex_services x; S = ex_session x in
      case tool_arguments n (xs_state st) (xs_rt st) of
        (Inl e, r) \<Rightarrow> (Inl e, st\<lparr>xs_rt := r\<rparr>)
      | (Inr args, r) \<Rightarrow>
          (case execute_tool S (sv_ambient sv) (gn_tool_name n) args
                  (trigger_event S OnToolCall (gn_tool_name n) (emit sv Ev_ToolCall (gn_name n) (gn_tool_name n) args r)) of
             (Inl e, r1) \<Rightarrow>
               (Inl e, st\<lparr>xs_rt := emit sv Ev_ToolResult (gn_name n) (gn_tool_name n) (''Error: '' @ message e) r1\<rparr>)
           | (Inr v, r1) \<Rightarrow>
               let r2 = trigger_event S OnToolResult v (emit sv Ev_ToolResult (gn_name n) (gn_tool_name n) v r1);
                   r3 = r2\<lparr>rt_stats := (rt_stats r2)\<lparr>ss_total_tool_calls := ss_total_tool_calls (rt_stats r2) + 1\<rparr>\<rparr>;
                   st1 = st\<lparr>xs_rt := r3\<rparr>
               in (ok node_done,
                   if gn_output_key n = [] then st1 else st1\<lparr>xs_state := set_state (gn_output_key n) v (xs_state st1)\<rparr>)))"

text \<open>\<open>std::from_chars\<close> into an \<open>int\<close>.\<close>

definition from_chars_int :: "string \<Rightarrow> int option" where
  "from_chars_int s =
     (case from_chars_i64 s of Some n \<Rightarrow> if - (2 ^ 31) \<le> n \<and> n < 2 ^ 31 then Some n else None | None \<Rightarrow> None)"

definition loop_key :: "('w, 'm) graph_node \<Rightarrow> string" where
  "loop_key n = kInternalPrefix @ ''loop:'' @ gn_name n"

definition loop_count :: "('w, 'm) graph_node \<Rightarrow> graph_state \<Rightarrow> int" where
  "loop_count n gs = (case from_chars_int (get_state gs (loop_key n) ''0'') of Some d \<Rightarrow> d | None \<Rightarrow> 0)"

definition loop_exit :: "('w, 'm) graph_node \<Rightarrow> graph_state \<Rightarrow> ('w, 'm) rt \<Rightarrow> bool result \<times> ('w, 'm) rt" where
  "loop_exit n gs r =
     (let done_count = loop_count n gs in
      if done_count \<ge> gn_max_iterations n then (ok True, r)
      else (case gn_until n of
              Some f \<Rightarrow> if done_count > 0 then f gs r else (ok False, r)
            | None \<Rightarrow> (ok False, r)))"

definition run_loop_node ::
    "('u, 'm) exec \<Rightarrow> ('u graph_world, 'm) graph_node \<Rightarrow> ('u, 'm) xst \<Rightarrow> node_result result \<times> ('u, 'm) xst" where
  "run_loop_node x n st =
     (case loop_exit n (xs_state st) (xs_rt st) of
        (Inl e, r) \<Rightarrow> (Inl e, st\<lparr>xs_rt := r\<rparr>)
      | (Inr stop, r) \<Rightarrow>
          let gs = xs_state st; st1 = st\<lparr>xs_rt := r\<rparr> in
          if stop then (ok node_done, st1\<lparr>xs_state := gs\<lparr>gs_values := smap_erase (loop_key n) (gs_values gs)\<rparr>\<rparr>)
          else (ok (node_done\<lparr>nr_forced_next := gn_loop_body n\<rparr>),
                st1\<lparr>xs_state := gs\<lparr>gs_values :=
                      smap_put (loop_key n) (to_string_int (loop_count n gs + 1)) (gs_values gs)\<rparr>\<rparr>))"

section \<open>The next node\<close>

definition resolve_next ::
    "('u, 'm) exec \<Rightarrow> ('u graph_world, 'm) graph_node \<Rightarrow> node_result \<Rightarrow> ('u, 'm) xst \<Rightarrow> string result \<times> ('u, 'm) xst" where
  "resolve_next x n result st =
     (if nr_forced_next result \<noteq> [] then (ok (nr_forced_next result), st)
      else
        case (case find_edge (ex_graph x) (gn_name n) of
                None \<Rightarrow> (ok kGraphEnd, st)
              | Some e \<Rightarrow>
                  (case ed_router e of
                     None \<Rightarrow> (ok (ed_to e), st)
                   | Some f \<Rightarrow>
                       (case f (xs_state st) (xs_rt st) of
                          (Inl er, r) \<Rightarrow> (Inl er, st\<lparr>xs_rt := r\<rparr>)
                        | (Inr target, r) \<Rightarrow>
                            (if target \<noteq> kGraphEnd \<and> find_node (ex_graph x) target = None
                             then fail InvalidConfig (''router of node '' @ squote (gn_name n) @
                                    '' returned unknown node '' @ squote target)
                             else ok target, st\<lparr>xs_rt := r\<rparr>)))) of
          (Inl er, st1) \<Rightarrow> (Inl er, st1)
        | (Inr next_node, st1) \<Rightarrow>
            (ok (if next_node = kGraphEnd \<and> gn_exit_to n \<noteq> [] then gn_exit_to n else next_node), st1))"

end
