(* ===== verification/Graph_Run.thy ===== *)
theory Graph_Run
  imports Graph_Exec
begin

text \<open>
  Parallel nodes and whole runs, the second half of \<^verbatim>\<open>src/core/graph/graph_executor.cpp\<close>:
  branches with their recorded progress, the join, \<open>run_node\<close>, \<open>drive\<close>, and the entry points
  \<open>run_graph\<close>, \<open>resume_graph\<close> and \<open>fork_graph_run\<close>.

  A parallel node runs its branches by calling \<open>run_node\<close> again, one level deeper, and a graph may
  nest parallel nodes without bound. The number of levels is the fuel of \<open>run_node\<close>; \<open>None\<close> means
  that the fuel did not suffice or that a turn does not return. The loops over the nodes of a chain
  are bounded by \<open>Graph::max_steps\<close> in the source and need no fuel.
\<close>

section \<open>Branches\<close>

record branch =
  br_state :: graph_state
  br_events :: "graph_event list"
  br_writes :: "string list"
  br_result :: "unit result"
  br_next :: string
  br_run :: bool
  br_done :: bool
  br_interrupted :: bool
  br_interrupt_node :: string
  br_interrupt_reason :: string
  br_pending :: "tool_call list"
  br_resume :: "pending_resume option"

definition new_branch :: "graph_state \<Rightarrow> string \<Rightarrow> branch" where
  "new_branch gs nxt =
     \<lparr>br_state = gs, br_events = [], br_writes = [], br_result = ok (), br_next = nxt, br_run = False, br_done = False,
      br_interrupted = False, br_interrupt_node = [], br_interrupt_reason = [], br_pending = [], br_resume = None\<rparr>"

type_synonym ('u, 'm) node_runner =
  "('u, 'm) exec \<Rightarrow> ('u graph_world, 'm) graph_node \<Rightarrow> pending_resume option \<Rightarrow> ('u, 'm) xst \<Rightarrow>
   (node_result result \<times> ('u, 'm) xst) option"

text \<open>
  \<open>save_branch\<close>: while a branch runs, its state and writes are those of the chain, and \<open>b\<close> holds the
  rest of it.
\<close>

definition changed_values :: "string std_map \<Rightarrow> string std_map \<Rightarrow> string std_map" where
  "changed_values parent values =
     filter (\<lambda>(k, v). \<not> is_temp_key k \<and> smap_find parent k \<noteq> Some v) values"

definition erased_keys :: "string std_map \<Rightarrow> string std_map \<Rightarrow> string list" where
  "erased_keys parent values =
     filter (\<lambda>k. \<not> is_temp_key k \<and> smap_find values k = None) (map fst parent)"

definition record_branch ::
    "branch_status \<Rightarrow> string \<Rightarrow> string std_map \<Rightarrow> branch \<Rightarrow> graph_state \<Rightarrow> string list \<Rightarrow> branch_progress \<Rightarrow> branch_progress" where
  "record_branch status nxt parent b gs keys rec =
     (if status = Branch_Failed then
        rec\<lparr>bp_status := status, bp_next := nxt, bp_error := (case br_result b of Inl e \<Rightarrow> message e | Inr _ \<Rightarrow> [])\<rparr>
      else
        rec\<lparr>bp_status := status, bp_next := nxt, bp_values := changed_values parent (gs_values gs),
            bp_erased := erased_keys parent (gs_values gs), bp_writes := keys, bp_histories := gs_histories gs,
            bp_error := [], bp_interrupt_node := br_interrupt_node b, bp_interrupt_reason := br_interrupt_reason b,
            bp_pending_tool_calls := br_pending b\<rparr>)"

definition update_branch :: "nat \<Rightarrow> (branch_progress \<Rightarrow> branch_progress) \<Rightarrow> run_ctx \<Rightarrow> run_ctx" where
  "update_branch i f c =
     c\<lparr>rc_progress := map_option (\<lambda>p. p\<lparr>pp_branches := (pp_branches p)[i := f (pp_branches p ! i)]\<rparr>) (rc_progress c)\<rparr>"

definition parent_values :: "('u, 'm) exec \<Rightarrow> string std_map" where
  "parent_values x = (case ex_parents x of [] \<Rightarrow> [] | p # _ \<Rightarrow> gs_values p)"

definition save_branch ::
    "('u, 'm) exec \<Rightarrow> nat \<Rightarrow> branch \<Rightarrow> branch_status \<Rightarrow> string \<Rightarrow> ('u, 'm) xst \<Rightarrow> unit result \<times> ('u, 'm) xst" where
  "save_branch x i b status nxt st =
     (let c = update_branch i (record_branch status nxt (parent_values x) b (xs_state st) (xs_writes st)) (xs_ctx st);
          durability = run_durability (rc_run c)
      in if durability = Durability_Exit then (ok (), st\<lparr>xs_ctx := c\<rparr>)
         else case write_checkpoint (ex_services x) (ex_graph x) (durability = Durability_Async) c (xs_rt st) of
                (res, c', r) \<Rightarrow> (res, st\<lparr>xs_ctx := c', xs_rt := r\<rparr>))"

definition branch_failed ::
    "('u, 'm) exec \<Rightarrow> nat option \<Rightarrow> branch \<Rightarrow> string \<Rightarrow> error \<Rightarrow> ('u, 'm) xst \<Rightarrow> branch \<times> ('u, 'm) xst" where
  "branch_failed x index b current e st =
     (let b1 = b\<lparr>br_result := Inl e, br_next := current\<rparr>; st1 = clear_written st
      in case index of
           None \<Rightarrow> (b1, st1)
         | Some i \<Rightarrow> (b1, snd (save_branch x i b1 Branch_Failed current st1)))"

definition branch_paused ::
    "('u, 'm) exec \<Rightarrow> nat option \<Rightarrow> branch \<Rightarrow> string \<Rightarrow> string \<Rightarrow> node_result \<Rightarrow> ('u, 'm) xst \<Rightarrow> branch \<times> ('u, 'm) xst" where
  "branch_paused x index b node current result st =
     (let b1 = b\<lparr>br_interrupted := True, br_interrupt_node := node, br_interrupt_reason := nr_reason result,
                br_pending := nr_pending result, br_next := current\<rparr>
      in case index of
           None \<Rightarrow> (b1, st)
         | Some i \<Rightarrow>
             (case save_branch x i b1 Branch_Interrupted current st of
                (Inl e, st1) \<Rightarrow> (b1\<lparr>br_result := Inl e\<rparr>, st1)
              | (Inr _, st1) \<Rightarrow> (b1, st1)))"

definition at_join :: "string \<Rightarrow> string \<Rightarrow> bool" where
  "at_join join_node current \<longleftrightarrow> current = kGraphEnd \<or> current = join_node"

text \<open>One iteration of \<open>run_branch\<close>: the branch has ended (\<open>Inl\<close>), or continues at a node (\<open>Inr\<close>).\<close>

definition branch_step ::
    "('u, 'm) node_runner \<Rightarrow> ('u, 'm) exec \<Rightarrow> string \<Rightarrow> nat option \<Rightarrow> branch \<Rightarrow> string \<Rightarrow> pending_resume option \<Rightarrow>
     ('u, 'm) xst \<Rightarrow> ((branch + string) \<times> ('u, 'm) xst) option" where
  "branch_step run x join_node index b current resume st =
     (let failed = (\<lambda>at e s. case branch_failed x index b at e s of (b', s') \<Rightarrow> Some (Inl b', s')) in
      case find_node (ex_graph x) current of
        None \<Rightarrow> failed current (Error InvalidConfig (''unknown node '' @ squote current)) st
      | Some n \<Rightarrow>
          do {
            (res, st1) \<leftarrow> run x n (if gn_kind n = Agent then resume else None) st;
            case res of
              Inl e \<Rightarrow> failed current e st1
            | Inr result \<Rightarrow>
                (case drain_writes x (gn_name n) st1 of
                   (Inl e, st2) \<Rightarrow> failed current e st2
                 | (Inr _, st2) \<Rightarrow>
                     if nr_interrupted result then
                       (case branch_paused x index b (gn_name n) current result st2 of (b', st3) \<Rightarrow> Some (Inl b', st3))
                     else
                       (case resolve_next x n result st2 of
                          (Inl e, st3) \<Rightarrow> failed current e st3
                        | (Inr nxt, st3) \<Rightarrow>
                            (case index of
                               None \<Rightarrow> Some (Inr nxt, st3)
                             | Some i \<Rightarrow>
                                 (case save_branch x i b (if at_join join_node nxt then Branch_Done else Branch_Running) nxt st3 of
                                    (Inl e, st4) \<Rightarrow> failed nxt e st4
                                  | (Inr _, st4) \<Rightarrow> Some (Inr nxt, st4)))))
          })"

primrec run_branch ::
    "nat \<Rightarrow> ('u, 'm) node_runner \<Rightarrow> ('u, 'm) exec \<Rightarrow> string \<Rightarrow> nat option \<Rightarrow> branch \<Rightarrow> string \<Rightarrow> pending_resume option \<Rightarrow>
     ('u, 'm) xst \<Rightarrow> (branch \<times> ('u, 'm) xst) option" where
  "run_branch 0 run x join_node index b current resume st =
     (if at_join join_node current then Some (b\<lparr>br_done := True\<rparr>, st)
      else Some (branch_failed x index b current
             (Error InvalidConfig (''branch exceeded max_steps ('' @ to_string_int (gr_max_steps (ex_graph x)) @ '')'')) st))"
| "run_branch (Suc steps) run x join_node index b current resume st =
     (if at_join join_node current then Some (b\<lparr>br_done := True\<rparr>, st)
      else do {
        (out, st1) \<leftarrow> branch_step run x join_node index b current resume st;
        case out of
          Inl b' \<Rightarrow> Some (b', st1)
        | Inr nxt \<Rightarrow> run_branch steps run x join_node index b nxt None st1
      })"

text \<open>The branches to run, one after another, each as a chain of its own.\<close>

definition enter_branch :: "branch \<Rightarrow> ('u, 'm) xst \<Rightarrow> ('u, 'm) xst" where
  "enter_branch b st = st\<lparr>xs_state := br_state b, xs_writes := br_writes b, xs_rt := set_events (br_events b) (xs_rt st)\<rparr>"

definition leave_branch :: "branch \<Rightarrow> ('u, 'm) xst \<Rightarrow> branch" where
  "leave_branch b st = b\<lparr>br_state := xs_state st, br_writes := xs_writes st, br_events := events_of (xs_rt st)\<rparr>"

fun run_branches ::
    "('u, 'm) node_runner \<Rightarrow> ('u, 'm) exec \<Rightarrow> string \<Rightarrow> bool \<Rightarrow> nat list \<Rightarrow> branch list \<Rightarrow> ('u, 'm) xst \<Rightarrow>
     (branch list \<times> ('u, 'm) xst) option" where
  "run_branches run bx join_node tracked [] bs st = Some (bs, st)"
| "run_branches run bx join_node tracked (i # is) bs st =
     do {
       (b, st1) \<leftarrow> run_branch (nat (gr_max_steps (ex_graph bx))) run bx join_node (if tracked then Some i else None)
                     (bs ! i) (br_next (bs ! i)) (br_resume (bs ! i)) (enter_branch (bs ! i) st);
       run_branches run bx join_node tracked is (bs[i := leave_branch b st1]) st1
     }"

section \<open>Restoring progress\<close>

definition same_fanout :: "('w, 'm) graph_node \<Rightarrow> parallel_progress \<Rightarrow> bool" where
  "same_fanout n p \<longleftrightarrow> pp_node p = gn_name n \<and> map bp_entry (pp_branches p) = gn_branches n"

definition fanout_progress :: "('w, 'm) graph_node \<Rightarrow> parallel_progress option \<Rightarrow> parallel_progress" where
  "fanout_progress n progress =
     (let fresh = \<lparr>pp_node = gn_name n, pp_branches = map (\<lambda>entry. new_progress entry entry) (gn_branches n)\<rparr>
      in case progress of None \<Rightarrow> fresh | Some p \<Rightarrow> if same_fanout n p then p else fresh)"

definition kHumanInput :: string where
  "kHumanInput = ''temp:human_input''"

definition restored_values :: "string std_map \<Rightarrow> branch_progress \<Rightarrow> string std_map" where
  "restored_values values rec = fold smap_erase (bp_erased rec) (smap_put_all (bp_values rec) values)"

definition restore_branch ::
    "('u, 'm) services \<Rightarrow> string std_map \<Rightarrow> pending_resume std_map \<Rightarrow> branch_progress \<Rightarrow> ('u, 'm) grt \<Rightarrow> branch \<times> ('u, 'm) grt" where
  "restore_branch sv values inputs rec r =
     (let gs = empty_state\<lparr>gs_values := restored_values values rec, gs_histories := bp_histories rec\<rparr>;
          b = (new_branch gs (if bp_next rec = [] then bp_entry rec else bp_next rec))\<lparr>br_writes := bp_writes rec\<rparr>
      in case bp_status rec of
           Branch_Done \<Rightarrow> (b\<lparr>br_done := True\<rparr>, r)
         | Branch_Interrupted \<Rightarrow>
             (case smap_find inputs (bp_entry rec) of
                None \<Rightarrow>
                  (b\<lparr>br_interrupted := True, br_interrupt_node := bp_interrupt_node rec,
                     br_interrupt_reason := bp_interrupt_reason rec, br_pending := bp_pending_tool_calls rec\<rparr>, r)
              | Some input \<Rightarrow>
                  let human = pr_human_input input in
                  case (if human = [] then ([], r)
                        else case make_event sv Ev_StateWrite (bp_interrupt_node rec) kHumanInput human r of
                               (e, r1) \<Rightarrow> ([e], r1)) of
                    (es, r1) \<Rightarrow>
                      (case make_event sv Ev_Resume (bp_interrupt_node rec) (bp_entry rec) human r1 of
                         (e, r2) \<Rightarrow>
                           (b\<lparr>br_state := (if human = [] then gs
                                          else gs\<lparr>gs_values := smap_put kHumanInput human (gs_values gs)\<rparr>),
                              br_events := es @ [e],
                              br_resume := (if bp_pending_tool_calls rec = [] then None
                                            else Some (input\<lparr>pr_calls := bp_pending_tool_calls rec\<rparr>)),
                              br_run := True\<rparr>, r2)))
         | _ \<Rightarrow> (b\<lparr>br_run := True\<rparr>, r))"

fun restore_branches ::
    "('u, 'm) services \<Rightarrow> string std_map \<Rightarrow> pending_resume std_map \<Rightarrow> branch_progress list \<Rightarrow> ('u, 'm) grt \<Rightarrow>
     branch list \<times> ('u, 'm) grt" where
  "restore_branches sv values inputs [] r = ([], r)"
| "restore_branches sv values inputs (rec # recs) r =
     (case restore_branch sv values inputs rec r of
        (b, r1) \<Rightarrow> case restore_branches sv values inputs recs r1 of (bs, r2) \<Rightarrow> (b # bs, r2))"

section \<open>Join\<close>

text \<open>
  \<open>key_owner\<close> and \<open>history_owner\<close>: who wrote a name first. A conflict is the name, its owner and the
  branch that claims it too; a branch may write a key twice, but a history is used by one branch.
\<close>

fun claim_names :: "(nat \<Rightarrow> bool) \<Rightarrow> nat \<Rightarrow> string list \<Rightarrow> nat std_map \<Rightarrow> (string \<times> nat \<times> nat) + nat std_map" where
  "claim_names shared i [] own = Inr own"
| "claim_names shared i (k # ks) own =
     (case smap_find own k of
        None \<Rightarrow> claim_names shared i ks (smap_put k i own)
      | Some j \<Rightarrow> if shared j then claim_names shared i ks own else Inl (k, j, i))"

fun claim_all ::
    "(nat \<Rightarrow> nat \<Rightarrow> bool) \<Rightarrow> nat \<Rightarrow> string list list \<Rightarrow> nat std_map \<Rightarrow> (string \<times> nat \<times> nat) + nat std_map" where
  "claim_all shared i [] own = Inr own"
| "claim_all shared i (ks # kss) own =
     (case claim_names (shared i) i ks own of
        Inl conflict \<Rightarrow> Inl conflict
      | Inr own' \<Rightarrow> claim_all shared (Suc i) kss own')"

fun join_values :: "('u, 'm) exec \<Rightarrow> branch list \<Rightarrow> nat std_map \<Rightarrow> ('u, 'm) xst \<Rightarrow> unit result \<times> ('u, 'm) xst" where
  "join_values x bs [] st = (ok (), st)"
| "join_values x bs ((k, i) # own) st =
     (case smap_find (gs_values (br_state (bs ! i))) k of
        None \<Rightarrow> join_values x bs own st
      | Some v \<Rightarrow>
          let st1 = st\<lparr>xs_state := (xs_state st)\<lparr>gs_values := smap_put k v (gs_values (xs_state st))\<rparr>\<rparr>
          in if ex_depth x > 0 then join_values x bs own (st1\<lparr>xs_writes := xs_writes st1 @ [k]\<rparr>)
             else if is_scoped_key k then
               (case persist_scoped_value (ex_session x) k v (xs_index st1) (xs_rt st1) of
                  (Inl e, index, r) \<Rightarrow> (Inl e, st1\<lparr>xs_index := index, xs_rt := r\<rparr>)
                | (Inr _, index, r) \<Rightarrow> join_values x bs own (st1\<lparr>xs_index := index, xs_rt := r\<rparr>))
             else join_values x bs own st1)"

definition join_histories :: "branch list \<Rightarrow> graph_state \<Rightarrow> graph_state" where
  "join_histories bs gs = gs\<lparr>gs_histories := fold (\<lambda>b. smap_put_all (gs_histories (br_state b))) bs (gs_histories gs)\<rparr>"

definition join_branches ::
    "('u, 'm) exec \<Rightarrow> ('u graph_world, 'm) graph_node \<Rightarrow> branch list \<Rightarrow> ('u, 'm) xst \<Rightarrow> node_result result \<times> ('u, 'm) xst" where
  "join_branches x n bs st =
     (let entry = (\<lambda>i. squote (gn_branches n ! i)) in
      case claim_all (\<lambda>i j. j = i) 0 (map br_writes bs) [] of
        Inl (k, j, i) \<Rightarrow>
          (fail InvalidConfig (''parallel '' @ squote (gn_name n) @ '': state key '' @ squote k @
             '' written by branches '' @ entry j @ '' and '' @ entry i @ ''; parallel branches must write unique keys''), st)
      | Inr key_owner \<Rightarrow>
          (case claim_all (\<lambda>i j. False) 0 (map (\<lambda>b. map fst (gs_histories (br_state b))) bs) [] of
             Inl (k, j, i) \<Rightarrow>
               (fail InvalidConfig (''parallel '' @ squote (gn_name n) @ '': agent history '' @ squote k @
                  '' used in branches '' @ entry j @ '' and '' @ entry i), st)
           | Inr _ \<Rightarrow>
               (case join_values x bs key_owner st of
                  (Inl e, st1) \<Rightarrow> (Inl e, st1)
                | (Inr _, st1) \<Rightarrow>
                    (ok node_done,
                     st1\<lparr>xs_state := join_histories bs (xs_state st1),
                         xs_ctx := (if ex_depth x = 0 then (xs_ctx st1)\<lparr>rc_progress := None\<rparr> else xs_ctx st1)\<rparr>))))"

section \<open>Parallel nodes\<close>

definition branch_error :: "('w, 'm) graph_node \<Rightarrow> nat \<Rightarrow> error \<Rightarrow> string" where
  "branch_error n i e = ''parallel '' @ squote (gn_name n) @ '' branch '' @ squote (gn_branches n ! i) @ '': '' @ message e"

fun first_branch_error :: "('w, 'm) graph_node \<Rightarrow> nat \<Rightarrow> branch list \<Rightarrow> error option" where
  "first_branch_error n i [] = None"
| "first_branch_error n i (b # bs) =
     (case br_result b of
        Inl e \<Rightarrow> Some (Error (code e) (branch_error n i e))
      | Inr _ \<Rightarrow> first_branch_error n (Suc i) bs)"

definition pause_with :: "('w, 'm) graph_node \<Rightarrow> nat \<times> branch \<Rightarrow> node_result \<Rightarrow> node_result" where
  "pause_with n ib paused =
     (case ib of
        (i, b) \<Rightarrow>
          if \<not> br_interrupted b then paused
          else paused\<lparr>nr_interrupted := True,
            nr_reason := (if nr_interrupted paused then nr_reason paused @ ''; '' else []) @
              ''branch '' @ squote (gn_branches n ! i) @ '': '' @ br_interrupt_reason b,
            nr_pending := nr_pending paused @ br_pending b,
            nr_interrupts := nr_interrupts paused @
              [\<lparr>gi_branch = gn_branches n ! i, gi_node = br_interrupt_node b, gi_reason = br_interrupt_reason b,
                gi_pending_tool_calls = br_pending b\<rparr>]\<rparr>)"

definition paused_branches :: "('w, 'm) graph_node \<Rightarrow> branch list \<Rightarrow> node_result" where
  "paused_branches n bs = fold (pause_with n) (zip [0..<length bs] bs) node_done"

definition announce_branch ::
    "('w, 'm) session \<Rightarrow> ('w, 'm) graph_node \<Rightarrow> nat \<times> branch \<Rightarrow> ('w, 'm) rt \<Rightarrow> ('w, 'm) rt" where
  "announce_branch S n ib r =
     (case ib of
        (i, b) \<Rightarrow>
          if br_run b \<and> br_done b \<and> is_ok (br_result b) then trigger_event S OnSubAgentComplete (gn_branches n ! i) r else r)"

text \<open>The chain of the run itself shares its state and events with the \<open>GraphRun\<close>.\<close>

definition sync_run :: "('u, 'm) xst \<Rightarrow> run_ctx" where
  "sync_run st =
     (xs_ctx st)\<lparr>rc_run := (rc_run (xs_ctx st))\<lparr>run_state := xs_state st, run_events := events_of (xs_rt st)\<rparr>\<rparr>"

definition fanout_branches ::
    "('u, 'm) exec \<Rightarrow> ('u graph_world, 'm) graph_node \<Rightarrow> ('u, 'm) xst \<Rightarrow> branch list \<times> ('u, 'm) xst" where
  "fanout_branches x n st =
     (if ex_depth x = 0 then
        let p = fanout_progress n (rc_progress (xs_ctx st)) in
        case restore_branches (ex_services x) (gs_values (xs_state st)) (rc_branch_resume (xs_ctx st)) (pp_branches p) (xs_rt st) of
          (bs, r) \<Rightarrow>
            let st1 = st\<lparr>xs_rt := r, xs_ctx := (xs_ctx st)\<lparr>rc_progress := Some p\<rparr>\<rparr>
            in (bs, st1\<lparr>xs_ctx := sync_run st1\<rparr>)
      else
        (map (\<lambda>entry. (new_branch (empty_state\<lparr>gs_values := gs_values (xs_state st)\<rparr>) entry)\<lparr>br_run := True\<rparr>) (gn_branches n),
         st))"

definition branch_exec :: "('u, 'm) exec \<Rightarrow> ('u, 'm) xst \<Rightarrow> ('u, 'm) exec" where
  "branch_exec x st = x\<lparr>ex_depth := Suc (ex_depth x), ex_parents := xs_state st # ex_parents x\<rparr>"

text \<open>Back in the enclosing chain: its own state and writes, and its events followed by those of the branches.\<close>

definition after_branches ::
    "('u, 'm) exec \<Rightarrow> ('u graph_world, 'm) graph_node \<Rightarrow> branch list \<Rightarrow> ('u, 'm) xst \<Rightarrow> ('u, 'm) xst \<Rightarrow> ('u, 'm) xst" where
  "after_branches x n bs st0 st =
     (let own = (if ex_depth x = 0 then run_events (rc_run (xs_ctx st)) else events_of (xs_rt st0));
          r = set_events (own @ concat (map br_events bs)) (xs_rt st)
      in st\<lparr>xs_state := xs_state st0, xs_writes := xs_writes st0,
            xs_rt := fold (announce_branch (ex_session x) n) (zip [0..<length bs] bs) r\<rparr>)"

definition run_parallel_node ::
    "('u, 'm) node_runner \<Rightarrow> ('u, 'm) exec \<Rightarrow> ('u graph_world, 'm) graph_node \<Rightarrow> ('u, 'm) xst \<Rightarrow>
     (node_result result \<times> ('u, 'm) xst) option" where
  "run_parallel_node run x n st =
     (case fanout_branches x n st of
        (bs, st1) \<Rightarrow>
          do {
            (bs', st2) \<leftarrow>
              run_branches run (branch_exec x st1) (gn_name n) (ex_depth x = 0)
                (filter (\<lambda>i. br_run (bs ! i)) [0..<length bs]) bs st1;
            let st3 = after_branches x n bs' st1 st2;
            Some (case first_branch_error n 0 bs' of
                    Some e \<Rightarrow> (Inl e, st3)
                  | None \<Rightarrow>
                      let paused = paused_branches n bs'
                      in if nr_interrupted paused then (ok paused, st3) else join_branches x n bs' st3)
          })"

section \<open>Nodes\<close>

definition run_node_with ::
    "('u, 'm) node_runner \<Rightarrow> ('u, 'm) node_runner" where
  "run_node_with run x n resume st =
     (let sv = ex_services x;
          st0 = on_rt (\<lambda>r. trigger_event (ex_session x) OnStateTransition (gn_name n)
                             (emit sv Ev_NodeStart (gn_name n) [] [] r)) st
      in do {
           (res, st1) \<leftarrow>
             (case gn_kind n of
                Agent \<Rightarrow> run_agent_node x n resume st0
              | Function \<Rightarrow> run_function_node x n st0
              | Tool \<Rightarrow> Some (run_tool_node x n st0)
              | Parallel \<Rightarrow> run_parallel_node run x n st0
              | Loop \<Rightarrow> Some (run_loop_node x n st0));
           Some (res,
             on_rt (case res of
                      Inl e \<Rightarrow> emit sv Ev_NodeFailed (gn_name n) [] (message e)
                    | Inr result \<Rightarrow>
                        if nr_interrupted result then emit sv Ev_Interrupt (gn_name n) [] (nr_reason result)
                        else emit sv Ev_NodeEnd (gn_name n) [] []) st1)
         })"

primrec run_node :: "nat \<Rightarrow> ('u, 'm) node_runner" where
  "run_node 0 = (\<lambda>x n resume st. None)"
| "run_node (Suc fuel) = run_node_with (run_node fuel)"

end
