(* ===== verification/Graph_Drive.thy ===== *)
theory Graph_Drive
  imports Graph_Run
begin

text \<open>
  The top level of \<^verbatim>\<open>src/core/graph/graph_executor.cpp\<close>: \<open>drive\<close>, which runs the chain of
  nodes of a run and writes its checkpoints, and the entry points \<open>run_graph\<close>, \<open>resume_graph\<close> (three
  overloads over \<open>resume_impl\<close>) and \<open>fork_graph_run\<close>. An entry point returns its result, the
  \<open>GraphRun\<close> as it leaves it, and the session.
\<close>

section \<open>Ending a call\<close>

definition clear_temp :: "graph_state \<Rightarrow> graph_state" where
  "clear_temp gs =
     gs\<lparr>gs_values := smap_erase_if is_temp_key (gs_values gs), gs_written := [], gs_interrupt_requested := False,
        gs_interrupt_reason := []\<rparr>"

type_synonym ('u, 'm) run_outcome = "unit result \<times> graph_run \<times> ('u, 'm) grt"

definition fail_run :: "error \<Rightarrow> graph_run \<Rightarrow> graph_run" where
  "fail_run e run = run\<lparr>run_status := Run_Failed, run_error := e\<rparr>"

definition finish :: "('u, 'm) exec \<Rightarrow> error option \<Rightarrow> ('u, 'm) xst \<Rightarrow> ('u, 'm) run_outcome" where
  "finish x err st =
     (let c = sync_run st;
          c1 = (case err of None \<Rightarrow> c | Some e \<Rightarrow> c\<lparr>rc_run := fail_run e (rc_run c)\<rparr>);
          flushed = flush_result (rc_write_error c1)
      in case write_checkpoint (ex_services x) (ex_graph x) False (c1\<lparr>rc_write_error := None\<rparr>) (xs_rt st) of
           (written, c2, r) \<Rightarrow>
             let cp = (if is_ok flushed then written else flushed);
                 run = (rc_run c2)\<lparr>run_state := clear_temp (run_state (rc_run c2))\<rparr>
             in (case err of
                   Some e \<Rightarrow> (Inl e, run, r)
                 | None \<Rightarrow> (case cp of Inl e \<Rightarrow> (Inl e, fail_run e run, r) | Inr _ \<Rightarrow> (ok (), run, r))))"

section \<open>Driving a run\<close>

definition set_run :: "(graph_run \<Rightarrow> graph_run) \<Rightarrow> ('u, 'm) xst \<Rightarrow> ('u, 'm) xst" where
  "set_run f st = st\<lparr>xs_ctx := (xs_ctx st)\<lparr>rc_run := f (rc_run (xs_ctx st))\<rparr>\<rparr>"

definition run_checkpoint :: "('u, 'm) exec \<Rightarrow> bool \<Rightarrow> ('u, 'm) xst \<Rightarrow> unit result \<times> ('u, 'm) xst" where
  "run_checkpoint x through_writer st =
     (case write_checkpoint (ex_services x) (ex_graph x) through_writer (sync_run st) (xs_rt st) of
        (res, c, r) \<Rightarrow> (res, st\<lparr>xs_ctx := c, xs_rt := set_events (run_events (rc_run c)) r\<rparr>))"

definition interrupt_run :: "string \<Rightarrow> node_result \<Rightarrow> graph_run \<Rightarrow> graph_run" where
  "interrupt_run node result run =
     run\<lparr>run_status := Run_Interrupted, run_interrupt_node := node, run_interrupt_reason := nr_reason result,
         run_pending_tool_calls := nr_pending result,
         run_interrupts :=
           (if nr_interrupts result = []
            then run_interrupts run @ [\<lparr>gi_branch = [], gi_node = node, gi_reason = nr_reason result,
                                        gi_pending_tool_calls = nr_pending result\<rparr>]
            else nr_interrupts result)\<rparr>"

definition advance_run :: "string \<Rightarrow> graph_run \<Rightarrow> graph_run" where
  "advance_run nxt run = run\<lparr>run_next_node := nxt, run_step := run_step run + 1\<rparr>"

definition complete_run :: "('u, 'm) exec \<Rightarrow> ('u, 'm) xst \<Rightarrow> ('u, 'm) run_outcome" where
  "complete_run x st = finish x None (set_run (\<lambda>run. run\<lparr>run_status := Run_Completed, run_next_node := []\<rparr>) st)"

text \<open>One iteration of the loop of \<open>drive\<close>: the call has ended (\<open>Inl\<close>), or the run goes on (\<open>Inr\<close>).\<close>

definition drive_step ::
    "('u, 'm) node_runner \<Rightarrow> ('u, 'm) exec \<Rightarrow> pending_resume option \<Rightarrow> ('u, 'm) xst \<Rightarrow>
     (('u, 'm) run_outcome + ('u, 'm) xst) option" where
  "drive_step run x resume st =
     (let current = run_next_node (rc_run (xs_ctx st)) in
      case find_node (ex_graph x) current of
        None \<Rightarrow> Some (Inl (finish x (Some (Error InvalidConfig (''unknown node '' @ squote current))) st))
      | Some n \<Rightarrow>
          do {
            (res, st1) \<leftarrow> run x n (if gn_kind n = Agent then resume else None) st;
            Some (case res of
              Inl e \<Rightarrow> Inl (finish x (Some e) (clear_written st1))
            | Inr result \<Rightarrow>
                (case drain_writes x (gn_name n) st1 of
                   (Inl e, st2) \<Rightarrow> Inl (finish x (Some e) st2)
                 | (Inr _, st2) \<Rightarrow>
                     if nr_interrupted result then
                       Inl (finish x None (set_run (interrupt_run (gn_name n) result) st2))
                     else
                       (case resolve_next x n result st2 of
                          (Inl e, st3) \<Rightarrow> Inl (finish x (Some e) st3)
                        | (Inr nxt, st3) \<Rightarrow>
                            let st4 = set_run (advance_run nxt) st3;
                                durability = run_durability (rc_run (xs_ctx st4))
                            in if nxt = kGraphEnd \<or> durability = Durability_Exit then Inr st4
                               else (case run_checkpoint x (durability = Durability_Async) st4 of
                                       (Inl e, st5) \<Rightarrow> Inl (finish x (Some e) st5)
                                     | (Inr _, st5) \<Rightarrow> Inr st5))))
          })"

definition steps_error :: "('w, 'm) graph \<Rightarrow> error" where
  "steps_error g = Error InvalidConfig
     (''graph '' @ squote (gr_name g) @ '' exceeded max_steps ('' @ to_string_int (gr_max_steps g) @ '')'')"

primrec drive_loop ::
    "nat \<Rightarrow> ('u, 'm) node_runner \<Rightarrow> ('u, 'm) exec \<Rightarrow> pending_resume option \<Rightarrow> ('u, 'm) xst \<Rightarrow> ('u, 'm) run_outcome option" where
  "drive_loop 0 run x resume st =
     Some (if run_next_node (rc_run (xs_ctx st)) = kGraphEnd then complete_run x st
           else finish x (Some (steps_error (ex_graph x))) st)"
| "drive_loop (Suc steps) run x resume st =
     (if run_next_node (rc_run (xs_ctx st)) = kGraphEnd then Some (complete_run x st)
      else do {
        out \<leftarrow> drive_step run x resume st;
        case out of Inl outcome \<Rightarrow> Some outcome | Inr st1 \<Rightarrow> drive_loop steps run x None st1
      })"

text \<open>
  \<open>drive\<close> on the context \<open>c\<close>, with the index of stored scoped keys. The event vector of the world is
  that of the run while it is driven; the caller's is put back.
\<close>

definition top_exec :: "('u, 'm) services \<Rightarrow> ('u graph_world, 'm) graph \<Rightarrow> ('u, 'm) exec" where
  "top_exec sv g = \<lparr>ex_services = sv, ex_graph = g, ex_depth = 0, ex_parents = []\<rparr>"

definition top_state :: "run_ctx \<Rightarrow> string list \<Rightarrow> ('u, 'm) grt \<Rightarrow> ('u, 'm) xst" where
  "top_state c index r =
     \<lparr>xs_rt = set_events (run_events (rc_run c)) r, xs_state = run_state (rc_run c), xs_writes = [], xs_index = index,
      xs_ctx = c\<rparr>"

definition drive ::
    "nat \<Rightarrow> ('u, 'm) services \<Rightarrow> ('u graph_world, 'm) graph \<Rightarrow> run_ctx \<Rightarrow> string list \<Rightarrow> pending_resume option \<Rightarrow>
     ('u, 'm) grt \<Rightarrow> ('u, 'm) run_outcome option" where
  "drive fuel sv g c index resume r =
     (let x = top_exec sv g in
      map_option (\<lambda>(res, run, r'). (res, run, set_events (events_of r) r'))
        (case drain_writes x [] (top_state c index r) of
           (Inl e, st) \<Rightarrow> Some (finish x (Some e) st)
         | (Inr _, st) \<Rightarrow> drive_loop (nat (gr_max_steps g)) (run_node fuel) x resume st))"

definition reset_run_status :: "graph_run \<Rightarrow> graph_run" where
  "reset_run_status run =
     run\<lparr>run_status := Run_Running, run_error := no_error, run_interrupt_node := [], run_interrupt_reason := [],
         run_pending_tool_calls := [], run_interrupts := []\<rparr>"

section \<open>Abandoned calls\<close>

definition kAbandonedCall :: string where
  "kAbandonedCall =
     ''Error: tool call not executed: the run was restarted with run_graph before the call was approved (use resume_graph to answer '' @
     ''pending tool calls)''"

definition abandoned_message :: "tool_call \<Rightarrow> message" where
  "abandoned_message tc = (new_message ''tool'' kAbandonedCall)\<lparr>msg_tool_call_id := tc_id tc\<rparr>"

definition calls_end :: "message list \<Rightarrow> nat" where
  "calls_end h = length h - length (takeWhile (\<lambda>m. msg_role m = ''tool'') (rev h))"

definition open_calls :: "message list \<Rightarrow> tool_call list" where
  "open_calls h =
     (let i = calls_end h in if i = 0 \<or> msg_role (h ! (i - 1)) \<noteq> ''assistant'' then [] else msg_tool_calls (h ! (i - 1)))"

fun answer_open_calls :: "nat \<Rightarrow> tool_call list \<Rightarrow> message list \<Rightarrow> message list \<times> tool_call list" where
  "answer_open_calls i [] h = (h, [])"
| "answer_open_calls i (tc # tcs) h =
     (if \<exists>m \<in> set (drop i h). msg_tool_call_id m = tc_id tc then answer_open_calls i tcs h
      else case answer_open_calls i tcs (h @ [abandoned_message tc]) of (h', logged) \<Rightarrow> (h', tc # logged))"

definition answer_abandoned :: "message list \<Rightarrow> message list \<times> tool_call list" where
  "answer_abandoned h = answer_open_calls (calls_end h) (open_calls h) h"

fun log_abandoned :: "('u, 'm) services \<Rightarrow> string \<Rightarrow> tool_call list \<Rightarrow> ('u, 'm) grt \<Rightarrow> graph_event list \<times> ('u, 'm) grt" where
  "log_abandoned sv name [] r = ([], r)"
| "log_abandoned sv name (tc # tcs) r =
     (case make_event sv Ev_ToolResult name (tc_name tc) kAbandonedCall r of
        (e, r1) \<Rightarrow> case log_abandoned sv name tcs r1 of (es, r2) \<Rightarrow> (e # es, r2))"

fun answer_abandoned_calls ::
    "('u, 'm) services \<Rightarrow> flow_memory std_map \<Rightarrow> ('u, 'm) grt \<Rightarrow> flow_memory std_map \<times> graph_event list \<times> ('u, 'm) grt" where
  "answer_abandoned_calls sv [] r = ([], [], r)"
| "answer_abandoned_calls sv ((name, m) # ms) r =
     (case answer_abandoned (fm_history m) of
        (h, logged) \<Rightarrow>
          (case log_abandoned sv name logged r of
             (es, r1) \<Rightarrow>
               (case answer_abandoned_calls sv ms r1 of
                  (ms', es', r2) \<Rightarrow> ((name, m\<lparr>fm_history := h\<rparr>) # ms', es @ es', r2))))"

section \<open>Starting a run\<close>

definition seed_state :: "graph_state \<Rightarrow> graph_state \<Rightarrow> graph_state" where
  "seed_state seed gs =
     gs\<lparr>gs_values := smap_put_all (gs_values seed) (gs_values gs),
        gs_histories := smap_put_all (gs_histories seed) (gs_histories gs), gs_written := gs_written seed\<rparr>"

text \<open>The thread's last checkpoint, continued: its values and conversations and its step.\<close>

definition continue_thread ::
    "('u, 'm) services \<Rightarrow> graph_run \<Rightarrow> ('u, 'm) grt \<Rightarrow> ('u, 'm) run_outcome" where
  "continue_thread sv run r =
     (let t = run_thread_id run in
      case co_get_latest (sv_ops sv) t r of
        (Inl e, r1) \<Rightarrow> (if code e = KeyNotFound then ok () else Inl e, run, r1)
      | (Inr blob, r1) \<Rightarrow>
          (case decode_checkpoint (simdjson (sv_session sv)) blob False (new_run t) of
             (Inl e, _, _) \<Rightarrow> (Inl e, run, r1)
           | (Inr _, previous, _) \<Rightarrow>
               (case answer_abandoned_calls sv (gs_histories (run_state previous)) r1 of
                  (histories, es, r2) \<Rightarrow>
                    (ok (),
                     run\<lparr>run_state := (run_state run)
                           \<lparr>gs_values := smap_put_all (smap_erase_if is_internal_key (gs_values (run_state previous)))
                                          (gs_values (run_state run)),
                            gs_histories := histories\<rparr>,
                         run_step := run_step previous, run_events := run_events run @ es\<rparr>, r2))))"

definition run_graph ::
    "nat \<Rightarrow> ('u, 'm) services \<Rightarrow> ('u, 'm) grt checkpointer_ops option \<Rightarrow> ('u graph_world, 'm) graph \<Rightarrow> graph_run \<Rightarrow>
     ('u, 'm) grt \<Rightarrow> ('u, 'm) run_outcome option" where
  "run_graph fuel sv0 checkpointer g run r =
     (let S = sv_session sv0; seed = run_state run;
          run1 = run\<lparr>run_thread_id := default_thread (run_thread_id run), run_state := empty_state, run_step := 0\<rparr>
      in case validate g of
           Inl e \<Rightarrow> Some (Inl e, run, r)
         | Inr _ \<Rightarrow>
             (case resolve_sink S checkpointer r of
                Inl e \<Rightarrow> Some (Inl e, run1, r)
              | Inr ops \<Rightarrow>
                  let sv = sv0\<lparr>sv_ops := ops\<rparr> in
                  (case continue_thread sv run1 r of
                     (Inl e, run2, r1) \<Rightarrow> Some (Inl e, run2, r1)
                   | (Inr _, run2, r1) \<Rightarrow>
                       (case load_scoped_state S (run_state run2) [] r1 of
                          (Inl e, gs, _, r2) \<Rightarrow> Some (Inl e, run2\<lparr>run_state := gs\<rparr>, r2)
                        | (Inr _, gs, index, r2) \<Rightarrow>
                            let run3 = (reset_run_status (run2\<lparr>run_state := seed_state seed gs\<rparr>))\<lparr>run_next_node := gr_entry g\<rparr>
                            in drive fuel sv g ((new_ctx run3)\<lparr>rc_persisted_events := length (run_events run)\<rparr>) index None r2))))"

section \<open>Resuming a run\<close>

definition is_space :: "char \<Rightarrow> bool" where
  "is_space c \<longleftrightarrow> c = CHR '' '' \<or> 9 \<le> (of_char c :: nat) \<and> (of_char c :: nat) \<le> 13"

definition to_lower :: "char \<Rightarrow> char" where
  "to_lower c =
     (if 65 \<le> (of_char c :: nat) \<and> (of_char c :: nat) \<le> 90 then char_of ((of_char c :: nat) + 32) else c)"

definition is_approval :: "string \<Rightarrow> bool" where
  "is_approval txt \<longleftrightarrow>
     map to_lower (filter (\<lambda>c. \<not> is_space c) txt) \<in> {''approve'', ''approved'', ''yes'', ''y'', ''allow'', ''ok''}"

definition approves :: "permission_decision option \<Rightarrow> string \<Rightarrow> bool" where
  "approves decision human_input =
     (case decision of
        Some Allow \<Rightarrow> True
      | Some Deny \<Rightarrow> False
      | _ \<Rightarrow> is_approval human_input)"

record branch_input =
  bi_branch :: string
  bi_human_input :: string
  bi_decision :: permission_decision

record resume_request =
  rq_per_branch :: bool
  rq_decision :: "permission_decision option"
  rq_human_input :: string
  rq_inputs :: "branch_input list"

definition answer_for :: "permission_decision option \<Rightarrow> string \<Rightarrow> pending_resume" where
  "answer_for decision human_input =
     \<lparr>pr_calls = [], pr_approved = approves decision human_input, pr_human_input = human_input\<rparr>"

definition no_paused_branch :: "string \<Rightarrow> string \<Rightarrow> error" where
  "no_paused_branch br t = Error InvalidConfig (''resume_graph: no paused branch '' @ squote br @ '' in thread '' @ squote t)"

definition is_paused :: "string \<Rightarrow> branch_progress \<Rightarrow> bool" where
  "is_paused entry rec \<longleftrightarrow> bp_entry rec = entry \<and> bp_status rec = Branch_Interrupted"

fun answer_branches ::
    "parallel_progress \<Rightarrow> string \<Rightarrow> branch_input list \<Rightarrow> pending_resume std_map \<Rightarrow> pending_resume std_map result" where
  "answer_branches p t [] m = ok m"
| "answer_branches p t (i # is) m =
     (if \<exists>rec \<in> set (pp_branches p). is_paused (bi_branch i) rec
      then answer_branches p t is (smap_put (bi_branch i) (answer_for (Some (bi_decision i)) (bi_human_input i)) m)
      else Inl (no_paused_branch (bi_branch i) t))"

text \<open>The uniform answer goes to every paused branch, unless the checkpoint is a failure.\<close>

definition uniform_answers :: "resume_request \<Rightarrow> bool \<Rightarrow> parallel_progress \<Rightarrow> pending_resume std_map" where
  "uniform_answers req was_interrupted p =
     fold (\<lambda>rec m. if bp_status rec = Branch_Interrupted \<and> \<not> rq_per_branch req \<and> was_interrupted
                   then smap_put (bp_entry rec) (answer_for (rq_decision req) (rq_human_input req)) m else m)
       (pp_branches p) []"

text \<open>The answer for an interrupt outside a fan-out, \<open>None\<close> when there is none.\<close>

fun top_answer :: "bool \<Rightarrow> string \<Rightarrow> branch_input list \<Rightarrow> pending_resume option \<Rightarrow> pending_resume option result" where
  "top_answer was_interrupted t [] a = ok a"
| "top_answer was_interrupted t (i # is) a =
     (if bi_branch i \<noteq> [] \<or> \<not> was_interrupted then Inl (no_paused_branch (bi_branch i) t)
      else top_answer was_interrupted t is (Some (answer_for (Some (bi_decision i)) (bi_human_input i))))"

definition resume_answers ::
    "resume_request \<Rightarrow> graph_run \<Rightarrow> parallel_progress option \<Rightarrow> (pending_resume std_map \<times> pending_resume option) result" where
  "resume_answers req run progress =
     (let was_interrupted = run_status run = Run_Interrupted; t = run_thread_id run in
      case progress of
        Some p \<Rightarrow>
          (case answer_branches p t (rq_inputs req) (uniform_answers req was_interrupted p) of
             Inl e \<Rightarrow> Inl e
           | Inr m \<Rightarrow> ok (m, None))
      | None \<Rightarrow>
          if rq_per_branch req then
            (case top_answer was_interrupted t (rq_inputs req) None of Inl e \<Rightarrow> Inl e | Inr a \<Rightarrow> ok ([], a))
          else ok ([], Some (answer_for (rq_decision req) (rq_human_input req))))"

definition resume_loaded ::
    "nat \<Rightarrow> ('u, 'm) services \<Rightarrow> ('u graph_world, 'm) graph \<Rightarrow> resume_request \<Rightarrow> run_ctx \<Rightarrow> ('u, 'm) grt \<Rightarrow>
     ('u, 'm) run_outcome option" where
  "resume_loaded fuel sv g req c r =
     (let run = rc_run c in
      case resume_answers req run (rc_progress c) of
        Inl e \<Rightarrow> Some (Inl e, run, r)
      | Inr (branch_resume, answer) \<Rightarrow>
          let input = (case answer of None \<Rightarrow> [] | Some a \<Rightarrow> pr_human_input a);
              run1 = (if answer = None then run else run\<lparr>run_pending_tool_calls := []\<rparr>)
          in (case load_scoped_state (sv_session sv) (run_state run1) [] r of
               (Inl e, gs, _, r1) \<Rightarrow> Some (Inl e, run1\<lparr>run_state := gs\<rparr>, r1)
             | (Inr _, gs, index, r1) \<Rightarrow>
                 (case make_event sv Ev_Resume (run_next_node run) [] input r1 of
                    (e, r2) \<Rightarrow>
                      let run2 = reset_run_status (run1\<lparr>run_state := gs\<rparr>);
                          run3 = run2\<lparr>run_events := run_events run2 @ [e],
                            run_state := (if input = [] then gs else set_state kHumanInput input gs)\<rparr>;
                          resume =
                            (case answer of
                               None \<Rightarrow> None
                             | Some a \<Rightarrow>
                                 if run_pending_tool_calls run = [] then None
                                 else Some (a\<lparr>pr_calls := run_pending_tool_calls run\<rparr>))
                      in drive fuel sv g (c\<lparr>rc_run := run3, rc_branch_resume := branch_resume\<rparr>) index resume r2)))"

definition resume_impl ::
    "nat \<Rightarrow> ('u, 'm) services \<Rightarrow> ('u, 'm) grt checkpointer_ops option \<Rightarrow> ('u graph_world, 'm) graph \<Rightarrow> string \<Rightarrow> graph_run \<Rightarrow>
     resume_request \<Rightarrow> ('u, 'm) grt \<Rightarrow> ('u, 'm) run_outcome option" where
  "resume_impl fuel sv0 checkpointer g thread_id run req r =
     (let run1 = run\<lparr>run_thread_id := default_thread thread_id\<rparr>; t = run_thread_id run1 in
      case validate g of
        Inl e \<Rightarrow> Some (Inl e, run, r)
      | Inr _ \<Rightarrow>
          (case resolve_sink (sv_session sv0) checkpointer r of
             Inl e \<Rightarrow> Some (Inl e, run1, r)
           | Inr ops \<Rightarrow>
               let sv = sv0\<lparr>sv_ops := ops\<rparr> in
               (case co_get_latest ops t r of
                  (Inl e, r1) \<Rightarrow>
                    Some (if code e = KeyNotFound then fail KeyNotFound (''resume_graph: no checkpoint for thread '' @ squote t)
                          else Inl e, run1, r1)
                | (Inr blob, r1) \<Rightarrow>
                    (case decode_checkpoint (simdjson (sv_session sv)) blob True
                            (run1\<lparr>run_state := empty_state, run_pending_tool_calls := []\<rparr>) of
                       (Inl e, run2, _) \<Rightarrow> Some (Inl e, run2, r1)
                     | (Inr _, run2, progress) \<Rightarrow>
                         if run_status run2 = Run_Completed then Some (ok (), run2, r1)
                         else resume_loaded fuel sv g req ((new_ctx run2)\<lparr>rc_progress := progress\<rparr>) r1))))"

definition resume_graph_input ::
    "nat \<Rightarrow> ('u, 'm) services \<Rightarrow> ('u, 'm) grt checkpointer_ops option \<Rightarrow> ('u graph_world, 'm) graph \<Rightarrow> string \<Rightarrow> graph_run \<Rightarrow>
     string \<Rightarrow> ('u, 'm) grt \<Rightarrow> ('u, 'm) run_outcome option" where
  "resume_graph_input fuel sv checkpointer g thread_id run human_input =
     resume_impl fuel sv checkpointer g thread_id run
       \<lparr>rq_per_branch = False, rq_decision = None, rq_human_input = human_input, rq_inputs = []\<rparr>"

definition resume_graph_decision ::
    "nat \<Rightarrow> ('u, 'm) services \<Rightarrow> ('u, 'm) grt checkpointer_ops option \<Rightarrow> ('u graph_world, 'm) graph \<Rightarrow> string \<Rightarrow> graph_run \<Rightarrow>
     permission_decision \<Rightarrow> string \<Rightarrow> ('u, 'm) grt \<Rightarrow> ('u, 'm) run_outcome option" where
  "resume_graph_decision fuel sv checkpointer g thread_id run decision human_input =
     resume_impl fuel sv checkpointer g thread_id run
       \<lparr>rq_per_branch = False, rq_decision = Some (if decision = Allow then Allow else Deny), rq_human_input = human_input,
        rq_inputs = []\<rparr>"

definition resume_graph_branches ::
    "nat \<Rightarrow> ('u, 'm) services \<Rightarrow> ('u, 'm) grt checkpointer_ops option \<Rightarrow> ('u graph_world, 'm) graph \<Rightarrow> string \<Rightarrow> graph_run \<Rightarrow>
     branch_input list \<Rightarrow> ('u, 'm) grt \<Rightarrow> ('u, 'm) run_outcome option" where
  "resume_graph_branches fuel sv checkpointer g thread_id run inputs =
     resume_impl fuel sv checkpointer g thread_id run
       \<lparr>rq_per_branch = True, rq_decision = None, rq_human_input = [], rq_inputs = inputs\<rparr>"

section \<open>Forking a run\<close>

definition paused_nodes :: "graph_run \<Rightarrow> parallel_progress option \<Rightarrow> graph_interrupt list" where
  "paused_nodes run progress =
     (case progress of
        Some p \<Rightarrow>
          map (\<lambda>b. \<lparr>gi_branch = bp_entry b, gi_node = bp_interrupt_node b, gi_reason = bp_interrupt_reason b,
                    gi_pending_tool_calls = bp_pending_tool_calls b\<rparr>)
            (filter (\<lambda>b. bp_status b = Branch_Interrupted) (pp_branches p))
      | None \<Rightarrow>
          [\<lparr>gi_branch = [], gi_node = run_interrupt_node run, gi_reason = run_interrupt_reason run,
            gi_pending_tool_calls = run_pending_tool_calls run\<rparr>])"

text \<open>The part of \<open>fork_graph_run\<close> after the source checkpoint has been decoded into \<open>c\<close>.\<close>

definition fork_loaded ::
    "nat \<Rightarrow> ('u, 'm) services \<Rightarrow> ('u graph_world, 'm) graph \<Rightarrow> string \<Rightarrow> graph_state \<Rightarrow> run_ctx \<Rightarrow> ('u, 'm) grt \<Rightarrow>
     ('u, 'm) run_outcome option" where
  "fork_loaded fuel sv g forked_from seed c r =
     (case load_scoped_state (sv_session sv) (run_state (rc_run c)) [] r of
        (Inl e, gs, _, r1) \<Rightarrow> Some (Inl e, (rc_run c)\<lparr>run_state := gs\<rparr>, r1)
      | (Inr _, gs, index, r1) \<Rightarrow>
          let run = (rc_run c)\<lparr>run_state := seed_state seed gs\<rparr> in
          (case make_event sv Ev_Fork (run_next_node run) forked_from [] r1 of
             (e, r2) \<Rightarrow>
               (case write_checkpoint sv g False
                       (c\<lparr>rc_run := run\<lparr>run_events := run_events run @ [e]\<rparr>, rc_forked_from := forked_from\<rparr>) r2 of
                  (Inl er, c1, r3) \<Rightarrow> Some (Inl er, rc_run c1, r3)
                | (Inr _, c1, r3) \<Rightarrow>
                    let run1 = rc_run c1 in
                    if run_status run1 = Run_Completed \<or> run_status run1 = Run_Interrupted then
                      Some (ok (),
                        (if run_status run1 = Run_Interrupted then run1\<lparr>run_interrupts := paused_nodes run1 (rc_progress c1)\<rparr>
                         else run1)\<lparr>run_state := clear_temp (run_state run1)\<rparr>, r3)
                    else drive fuel sv g (c1\<lparr>rc_run := reset_run_status run1, rc_forked_from := []\<rparr>) index None r3)))"

definition fork_graph_run ::
    "nat \<Rightarrow> ('u, 'm) services \<Rightarrow> ('u, 'm) grt checkpointer_ops option \<Rightarrow> ('u graph_world, 'm) graph \<Rightarrow> string \<Rightarrow> nat \<Rightarrow> string \<Rightarrow>
     graph_run \<Rightarrow> ('u, 'm) grt \<Rightarrow> ('u, 'm) run_outcome option" where
  "fork_graph_run fuel sv0 checkpointer g thread_id n new_thread_id run r =
     (let source = default_thread thread_id; target = new_thread_id in
      case validate g of
        Inl e \<Rightarrow> Some (Inl e, run, r)
      | Inr _ \<Rightarrow>
          if target = [] \<or> target = source then
            Some (fail InvalidConfig (''fork_graph_run: the new thread id must be non-empty and differ from '' @ squote source), run, r)
          else (case resolve_sink (sv_session sv0) checkpointer r of
                 Inl e \<Rightarrow> Some (Inl e, run, r)
               | Inr ops \<Rightarrow>
                   let sv = sv0\<lparr>sv_ops := ops\<rparr> in
                   (case co_get_latest ops target r of
                      (Inr _, r1) \<Rightarrow>
                        Some (fail InvalidConfig (''fork_graph_run: thread '' @ squote target @
                          '' already has checkpoints (delete_graph_thread it first)''), run, r1)
                    | (Inl e, r1) \<Rightarrow>
                        if code e \<noteq> KeyNotFound then Some (Inl e, run, r1)
                        else (case co_get ops source n r1 of
                               (Inl e, r2) \<Rightarrow> Some (fail (code e) (''fork_graph_run: '' @ message e), run, r2)
                             | (Inr blob, r2) \<Rightarrow>
                                 (case decode_checkpoint (simdjson (sv_session sv)) blob True
                                         (run\<lparr>run_state := empty_state, run_pending_tool_calls := [], run_thread_id := target\<rparr>) of
                                    (Inl e, run1, _) \<Rightarrow> Some (Inl e, run1, r2)
                                  | (Inr _, run1, progress) \<Rightarrow>
                                      fork_loaded fuel sv g (source @ '':'' @ to_string n) (run_state run)
                                        ((new_ctx (run1\<lparr>run_step := n\<rparr>))\<lparr>rc_progress := progress\<rparr>) r2)))))"

end
