(* ===== verification/Graph_Samples.thy ===== *)
theory Graph_Samples
  imports Graph_Drive Samples
begin

text \<open>
  Concrete runs for the witnesses of the graph executor: a session with the mock provider and the
  in-memory store, whose checkpoints go to that store; a clock that stands still; and a graph with a
  loop around a parallel node whose two branches are functions.
\<close>

type_synonym sample_grt = "(unit, in_memory_state) grt"

definition graph_config :: "(unit graph_world, in_memory_state) config" where
  "graph_config =
     \<lparr>cfg_provider = Mock, cfg_context_window = 2048, cfg_max_tokens = 512, cfg_temperature = ''0.7000'',
      cfg_max_tool_call_rounds = 10, cfg_max_parallel_subagents = 4, cfg_default_task = 0, cfg_tools = [],
      cfg_permission_check = None, cfg_permission_prompt = None\<rparr>"

definition graph_session :: "(unit graph_world, in_memory_state) session" where
  "graph_session =
     \<lparr>config = graph_config, event_hooks = [], provider_state = None, active_store = in_memory_store,
      tool_by_name = Map.empty, tools_system_prompt = [], skills_system_prompt = [], skills = [],
      simdjson = json_parse, fs_absolute = Some\<rparr>"

definition graph_rt :: sample_grt where
  "graph_rt =
     \<lparr>rt_env = \<lparr>env_user = \<lparr>gw_user = (), gw_events = []\<rparr>, env_cancel = False\<rparr>, rt_memory = sample_memory [],
      rt_stats = session_stats_zero, rt_media_rejected = False, rt_store = Some open_in_memory,
      rt_arena = arena_new 65536 65536, rt_worker_arenas = [], rt_summary_arena = arena_new 0 0,
      rt_tools_paused = False\<rparr>"

definition graph_ambient :: "(unit graph_world, in_memory_state) ambient" where
  "graph_ambient = ambient_default"

definition graph_services :: "(unit, in_memory_state) services" where
  "graph_services =
     \<lparr>sv_session = graph_session, sv_ambient = graph_ambient, sv_ops = store_checkpointer graph_session, sv_models = None,
      sv_on_event = None, sv_now = (\<lambda>w. (7, w))\<rparr>"

definition write_node :: "string \<Rightarrow> string \<Rightarrow> (unit graph_world, in_memory_state) graph_node" where
  "write_node name key =
     (new_node name Function)\<lparr>gn_function := Some (\<lambda>gs r. (ok (), set_state key name gs, r))\<rparr>"

definition fanout_graph :: "(unit graph_world, in_memory_state) graph" where
  "fanout_graph = make_parallel ''p'' [make_graph (write_node ''a'' ''x''), make_graph (write_node ''b'' ''temp:y'')]"

definition loop_graph :: "(unit graph_world, in_memory_state) graph" where
  "loop_graph = make_loop ''l'' fanout_graph 2 None"

definition sample_exec :: "(unit, in_memory_state) exec" where
  "sample_exec = top_exec graph_services loop_graph"

definition sample_xst :: "(unit, in_memory_state) xst" where
  "sample_xst = top_state (new_ctx (new_run ''t'')) [] graph_rt"

end
