(* ===== verification/Graph_Props.thy ===== *)
theory Graph_Props
  imports Graph_Model
begin

text \<open>
  \<open>validate\<close> decides \<open>well_formed\<close>, and the builders compose valid graphs into valid graphs.
\<close>

section \<open>Lookup\<close>

lemma find_node_None [simp]: "find_node g x = None \<longleftrightarrow> x \<notin> set (node_names g)"
  by (auto simp: find_node_def node_names_def find_None_iff)

lemma find_node_Some: "find_node g x = Some n \<Longrightarrow> n \<in> set (gr_nodes g) \<and> gn_name n = x"
  by (auto simp: find_node_def find_Some_iff)

lemma find_edge_Some: "find_edge g x = Some e \<Longrightarrow> e \<in> set (gr_edges g) \<and> ed_from e = x"
  by (auto simp: find_edge_def find_Some_iff)

section \<open>Validation decides well-formedness\<close>

lemma kind_error_None: "kind_error g n = None \<longleftrightarrow> kind_ok (set (node_names g)) n"
  by (auto simp: kind_error_def kind_ok_def find_None_iff split: graph_node_kind.split option.split)

lemma node_error_None:
  "node_error g before n = None \<longleftrightarrow> gn_name n \<notin> set before \<and> node_ok (set (node_names g)) n"
  by (auto simp: node_error_def node_ok_def kind_error_None)

lemma edge_error_None:
  "edge_error g before e = None \<longleftrightarrow> ed_from e \<notin> set before \<and> edge_ok (set (node_names g)) e"
  by (auto simp: edge_error_def edge_ok_def)

lemma first_error_None:
  assumes "\<And>before x. err before x = None \<longleftrightarrow> key x \<notin> set before \<and> good x"
  shows "first_error err key before xs = None \<longleftrightarrow>
     distinct (map key xs) \<and> set before \<inter> key ` set xs = {} \<and> (\<forall>x \<in> set xs. good x)"
proof (induction xs arbitrary: before)
  case (Cons x xs)
  show ?case
  proof (cases "err before x")
    case None
    then show ?thesis using Cons [of "before @ [key x]"] assms [of before x] by auto
  next
    case (Some m)
    then have "\<not> (key x \<notin> set before \<and> good x)" using assms [of before x] by simp
    with Some show ?thesis by auto
  qed
qed simp

lemma validate_iff: "validate g = ok () \<longleftrightarrow> well_formed g"
proof -
  have nodes: "first_error (node_error g) gn_name [] (gr_nodes g) = None \<longleftrightarrow>
      distinct (node_names g) \<and> (\<forall>n \<in> set (gr_nodes g). node_ok (set (node_names g)) n)"
    using first_error_None [where err = "node_error g" and key = gn_name, OF node_error_None, of "[]"]
    by (simp add: node_names_def)
  have edges: "first_error (edge_error g) ed_from [] (gr_edges g) = None \<longleftrightarrow>
      distinct (map ed_from (gr_edges g)) \<and> (\<forall>e \<in> set (gr_edges g). edge_ok (set (node_names g)) e)"
    using first_error_None [where err = "edge_error g" and key = ed_from, OF edge_error_None, of "[]"]
    by simp
  have "gr_entry g \<noteq> []" if "well_formed g"
    using that by (auto simp: well_formed_def node_names_def node_ok_def)
  then show ?thesis
    using nodes edges by (auto simp: validate_def invalid_def well_formed_def split: option.splits)
qed

section \<open>Composition\<close>

text \<open>The parts of a graph are sound with respect to the node names \<open>N\<close> of the graph around it.\<close>

definition sound :: "string set \<Rightarrow> ('w, 'm) graph \<Rightarrow> bool" where
  "sound N g \<longleftrightarrow> (\<forall>n \<in> set (gr_nodes g). node_ok N n) \<and> (\<forall>e \<in> set (gr_edges g). edge_ok N e) \<and>
     distinct (node_names g) \<and> distinct (map ed_from (gr_edges g)) \<and> ed_from ` set (gr_edges g) \<subseteq> set (node_names g)"

lemma well_formed_sound: "well_formed g \<longleftrightarrow> gr_entry g \<in> set (node_names g) \<and> sound (set (node_names g)) g"
  by (auto simp: well_formed_def sound_def edge_ok_def)

lemma kind_ok_mono: "kind_ok M n \<Longrightarrow> M \<subseteq> N \<Longrightarrow> kind_ok N n"
  by (auto simp: kind_ok_def split: graph_node_kind.splits)

lemma sound_mono: "sound M g \<Longrightarrow> M \<subseteq> N \<Longrightarrow> sound N g"
  by (auto simp: sound_def node_ok_def edge_ok_def kind_ok_mono)

lemma node_names_simps [simp]:
  "node_names (append_graph a b) = node_names a @ node_names b"
  "node_names (chain_exits g t) = node_names g"
  "node_names (new_graph nm e) = []"
  "node_names (g\<lparr>gr_nodes := ns\<rparr>) = map gn_name ns"
  by (simp_all add: node_names_def append_graph_def chain_exits_def chain_exit_def new_graph_def comp_def)

lemma entry_simps [simp]:
  "gr_entry (append_graph a b) = gr_entry a" "gr_entry (chain_exits g t) = gr_entry g"
  "gr_entry (new_graph nm e) = e"
  by (simp_all add: append_graph_def chain_exits_def new_graph_def)

lemma sound_new_graph [simp]: "sound N (new_graph nm e)"
  by (simp add: sound_def new_graph_def node_names_def)

lemma sound_chain_exits:
  assumes "sound N g" "t \<in> N"
  shows "sound N (chain_exits g t)"
proof -
  have "node_ok N (chain_exit t n)" if "node_ok N n" for n :: "('a, 'b) graph_node"
    using that assms(2) by (auto simp: node_ok_def kind_ok_def chain_exit_def cong: graph_node_kind.case_cong)
  moreover have "gr_edges (chain_exits g t) = gr_edges g" "gr_nodes (chain_exits g t) = map (chain_exit t) (gr_nodes g)"
    by (simp_all add: chain_exits_def)
  ultimately show ?thesis using assms(1) by (auto simp: sound_def)
qed

lemma sound_append_graph:
  assumes "sound N a" "sound N b" "set (node_names a) \<inter> set (node_names b) = {}"
  shows "sound N (append_graph a b)"
proof -
  have "set (gr_nodes (append_graph a b)) = set (gr_nodes a) \<union> set (gr_nodes b)"
    "gr_edges (append_graph a b) = gr_edges a @ gr_edges b"
    by (simp_all add: append_graph_def)
  moreover have "ed_from ` set (gr_edges a) \<inter> ed_from ` set (gr_edges b) = {}"
    using assms by (auto simp: sound_def) blast
  ultimately show ?thesis using assms by (simp add: sound_def ball_Un) blast
qed

lemma sound_append_steps:
  assumes "sound N g" "\<forall>s \<in> set steps. sound N s \<and> gr_entry s \<in> N"
    and "distinct (node_names g @ concat (map node_names steps))"
  shows "sound N (append_steps g steps) \<and>
     node_names (append_steps g steps) = node_names g @ concat (map node_names steps) \<and>
     gr_entry (append_steps g steps) = gr_entry g"
  using assms
proof (induction g steps rule: append_steps.induct)
  case (2 g s)
  then show ?case by (auto intro: sound_append_graph)
next
  case (3 g s t ts)
  let ?g = "append_graph g (chain_exits s (gr_entry t))"
  have "sound N ?g" using 3(2-4) by (auto intro!: sound_append_graph sound_chain_exits)
  moreover have "distinct (node_names ?g @ concat (map node_names (t # ts)))" using 3(4) by auto
  ultimately show ?case using 3(1,3) by simp
qed simp

lemma sound_append_branches:
  assumes "sound N g" "\<forall>b \<in> set bs. sound N b" "t \<in> N"
    and "distinct (node_names g @ concat (map node_names bs))"
  shows "sound N (fold (\<lambda>b g. append_graph g (chain_exits b t)) bs g) \<and>
     node_names (fold (\<lambda>b g. append_graph g (chain_exits b t)) bs g) = node_names g @ concat (map node_names bs) \<and>
     gr_entry (fold (\<lambda>b g. append_graph g (chain_exits b t)) bs g) = gr_entry g"
  using assms
proof (induction bs arbitrary: g)
  case (Cons b bs)
  let ?g = "append_graph g (chain_exits b t)"
  have "sound N ?g" using Cons.prems by (auto intro!: sound_append_graph sound_chain_exits)
  moreover have "distinct (node_names ?g @ concat (map node_names bs))" using Cons.prems(4) by auto
  ultimately show ?case using Cons.IH [of ?g] Cons.prems(2,3) by simp
qed simp

lemma parts_sound:
  assumes "\<forall>g \<in> set gs. validate g = ok ()" "set (concat (map node_names gs)) \<subseteq> N" "g \<in> set gs"
  shows "sound N g" "gr_entry g \<in> N"
proof -
  have "well_formed g" using assms(1,3) validate_iff by blast
  moreover have "set (node_names g) \<subseteq> N" using assms(2,3) by auto
  ultimately show "sound N g" "gr_entry g \<in> N" by (auto simp: well_formed_sound intro: sound_mono)
qed

lemma make_sequential_valid:
  assumes parts: "\<forall>g \<in> set gs. validate g = ok ()" "distinct (concat (map node_names gs))" "gs \<noteq> []"
  shows "validate (make_sequential name gs) = ok ()"
proof -
  let ?N = "set (concat (map node_names gs))"
  obtain s ss where gs: "gs = s # ss" using parts(3) by (cases gs) auto
  note p = parts_sound [OF parts(1) subset_refl]
  have "sound ?N (append_steps (new_graph name (gr_entry s)) gs) \<and>
      node_names (append_steps (new_graph name (gr_entry s)) gs) = [] @ concat (map node_names gs) \<and>
      gr_entry (append_steps (new_graph name (gr_entry s)) gs) = gr_entry s"
    using sound_append_steps [of ?N "new_graph name (gr_entry s)" gs] p parts(2) by simp
  moreover have "gr_entry s \<in> ?N" using p(2) [of s] gs by simp
  ultimately show ?thesis by (simp add: validate_iff well_formed_sound make_sequential_def gs)
qed

lemma sound_singleton:
  "node_ok N n \<Longrightarrow> sound N ((new_graph nm e)\<lparr>gr_nodes := [n]\<rparr>)"
  by (simp add: sound_def new_graph_def node_names_def)

lemma make_parallel_valid:
  assumes parts: "\<forall>g \<in> set gs. validate g = ok ()" "distinct (concat (map node_names gs))" "gs \<noteq> []"
    and fresh: "name \<notin> set (concat (map node_names gs))" "name \<noteq> []" "name \<noteq> kGraphEnd"
  shows "validate (make_parallel name gs) = ok ()"
proof -
  let ?N = "insert name (set (concat (map node_names gs)))"
  let ?fan = "(new_node name Parallel)\<lparr>gn_branches := map gr_entry gs\<rparr> :: ('a, 'b) graph_node"
  let ?g = "(new_graph name name)\<lparr>gr_nodes := [?fan]\<rparr> :: ('a, 'b) graph"
  note p = parts_sound [OF parts(1) subset_insertI [of _ name]]
  have "node_ok ?N ?fan" using fresh parts(3) p(2) by (auto simp: node_ok_def kind_ok_def new_node_def)
  then have "sound ?N ?g" by (rule sound_singleton)
  moreover have "node_names ?g = [name]" by (simp add: new_node_def)
  ultimately have "sound ?N (make_parallel name gs) \<and> node_names (make_parallel name gs) = name # concat (map node_names gs) \<and>
      gr_entry (make_parallel name gs) = name"
    using sound_append_branches [of ?N ?g gs name] p(1) parts(2) fresh(1)
    by (simp add: make_parallel_def)
  then show ?thesis by (simp add: validate_iff well_formed_sound)
qed

lemma make_loop_valid:
  assumes body: "validate g = ok ()" "name \<notin> set (node_names g)" "name \<noteq> []" "name \<noteq> kGraphEnd" "k \<ge> 1"
  shows "validate (make_loop name g k until) = ok ()"
proof -
  let ?N = "insert name (set (node_names g))"
  have wf: "well_formed g" using body(1) validate_iff by blast
  have "sound ?N ((new_graph name name)\<lparr>gr_nodes := [(new_node name Loop)\<lparr>gn_loop_body := gr_entry g, gn_max_iterations := k,
      gn_until := until\<rparr>]\<rparr>)"
    using wf body(3-5) by (intro sound_singleton) (auto simp: node_ok_def kind_ok_def new_node_def well_formed_def)
  moreover have "sound ?N (chain_exits g name)"
    using wf by (intro sound_chain_exits) (auto simp: well_formed_sound intro: sound_mono)
  ultimately have "sound ?N (make_loop name g k until)"
    using body(2) unfolding make_loop_def by (intro sound_append_graph) (auto simp: new_node_def)
  moreover have "node_names (make_loop name g k until) = name # node_names g" "gr_entry (make_loop name g k until) = name"
    by (simp_all add: make_loop_def new_node_def)
  ultimately show ?thesis by (simp add: validate_iff well_formed_sound)
qed

section \<open>Properties\<close>

text \<open>
  C27. \<open>validate\<close> accepts exactly the well-formed graphs: an existing entry, distinct node names
  other than the empty one and \<open>__end__\<close>, at most one outgoing edge per node, every static
  target, exit, branch and loop body an existing node, and every node complete for its kind. Any
  other graph is refused with \<open>InvalidConfig\<close>.
\<close>

theorem validate_decides:
  "(validate g = ok () \<longleftrightarrow> well_formed g) \<and> (validate g = ok () \<or> (\<exists>msg. validate g = fail InvalidConfig msg))"
proof -
  have "validate g = ok () \<or> (\<exists>msg. validate g = fail InvalidConfig msg)"
    by (auto simp: validate_def invalid_def split: option.splits)
  then show ?thesis using validate_iff [of g] by simp
qed

text \<open>
  C31. Graphs composed by the builders are valid when their parts are: for valid graphs with
  pairwise distinct node names, \<open>make_sequential\<close> is valid, and so are \<open>make_parallel\<close> and
  \<open>make_loop\<close> under a fresh name (with at least one iteration).
\<close>

theorem builders_compose_valid:
  assumes "\<forall>g \<in> set gs. validate g = ok ()" "distinct (concat (map node_names gs))" "gs \<noteq> []"
    and "name \<notin> set (concat (map node_names gs))" "name \<noteq> []" "name \<noteq> kGraphEnd" "k \<ge> 1" "g \<in> set gs"
  shows "validate (make_sequential name gs) = ok () \<and> validate (make_parallel name gs) = ok () \<and>
     validate (make_loop name g k until) = ok ()"
proof -
  have "name \<notin> set (node_names g)" "validate g = ok ()" using assms(1,4,8) by auto
  then show ?thesis
    using make_sequential_valid [OF assms(1-3)] make_parallel_valid [OF assms(1-6)] make_loop_valid assms(5-7) by blast
qed

definition sample_graphs :: "(unit, in_memory_state) graph list" where
  "sample_graphs = [make_graph (new_node ''a'' Agent), make_graph (new_node ''b'' Agent)]"

theorem builders_compose_valid_witness:
  "validate (make_sequential ''s'' sample_graphs) = ok () \<and> validate (make_parallel ''s'' sample_graphs) = ok () \<and>
   validate (make_loop ''s'' (hd sample_graphs) 3 None) = ok ()"
proof -
  have "\<forall>g \<in> set sample_graphs. validate g = ok ()"
    by (simp add: sample_graphs_def validate_iff well_formed_def make_graph_def new_node_def node_ok_def kind_ok_def
        kGraphEnd_def) (simp add: new_graph_def)
  then show ?thesis
    using builders_compose_valid [of sample_graphs "''s''" 3 "hd sample_graphs" None]
    by (simp add: sample_graphs_def make_graph_def new_node_def kGraphEnd_def)
qed

end
