(* ===== verification/Run_Props.thy ===== *)
theory Run_Props
  imports Graph_Samples Graph_Props
begin

text \<open>
  Properties of the nodes of a run: what the join of a parallel node merges, that the recorded
  progress of a branch restores it, how often a loop runs its body, that a call the reviewer denied
  is not executed, and that the next node of a valid graph exists.
\<close>

section \<open>Owners of names\<close>

lemma claim_names_owner:
  assumes "claim_names shared i ks own = Inr own'"
  shows "smap_find own' k = (case smap_find own k of Some j \<Rightarrow> Some j | None \<Rightarrow> if k \<in> set ks then Some i else None)"
  using assms
proof (induction shared i ks own rule: claim_names.induct)
  case (2 shared i k0 ks own)
  show ?case
  proof (cases "smap_find own k0")
    case None
    then have "smap_find own' k =
        (case smap_find (smap_put k0 i own) k of Some j \<Rightarrow> Some j | None \<Rightarrow> if k \<in> set ks then Some i else None)"
      using 2 by simp
    then show ?thesis using None by (auto simp: find_put split: option.split)
  next
    case (Some j)
    then show ?thesis using 2 by (auto split: if_splits option.splits)
  qed
qed (simp split: option.split)

lemma claim_names_shared:
  "claim_names shared i ks own = Inr own' \<Longrightarrow> k \<in> set ks \<Longrightarrow> smap_find own k = Some j \<Longrightarrow> shared j"
proof (induction shared i ks own rule: claim_names.induct)
  case (2 shared i k0 ks own)
  then show ?case
    by (cases "smap_find own k0"; cases "k = k0") (auto simp: find_put split: if_splits)
qed simp

lemma claim_names_distinct: "claim_names (\<lambda>_. False) i ks own = Inr own' \<Longrightarrow> distinct ks"
proof (induction ks arbitrary: own)
  case (Cons k ks)
  then have "smap_find own k = None" by (auto split: option.splits)
  then have c: "claim_names (\<lambda>_. False) i ks (smap_put k i own) = Inr own'" using Cons.prems by simp
  then have "k \<notin> set ks" using claim_names_shared [OF c, of k i] by (auto simp: find_put)
  then show ?case using Cons.IH [OF c] by simp
qed simp

lemma claim_names_ok: "claim_names shared i ks own = Inr own' \<Longrightarrow> smap_ok own \<Longrightarrow> smap_ok own'"
  by (induction shared i ks own rule: claim_names.induct) (auto simp: smap_ok_put split: option.splits if_splits)

text \<open>
  When all branches have claimed their names, the owner of a name is a branch that uses it, and
  every branch that uses a name owns it.
\<close>

lemma claim_all_keeps:
  "claim_all shared i kss own = Inr own' \<Longrightarrow> smap_find own k = Some j \<Longrightarrow> smap_find own' k = Some j"
proof (induction shared i kss own rule: claim_all.induct)
  case (2 shared i ks kss own)
  then obtain own1 where o: "claim_names (shared i) i ks own = Inr own1" "claim_all shared (Suc i) kss own1 = Inr own'"
    by (auto split: sum.splits)
  have "smap_find own1 k = Some j" using claim_names_owner [OF o(1), of k] 2(3) by simp
  then show ?case using 2(1) [OF o] by simp
qed simp

lemma claim_all_owner:
  assumes "claim_all shared i kss own = Inr own'" "\<And>m j. shared m j \<Longrightarrow> j = m"
    and "n < length kss" "k \<in> set (kss ! n)"
  shows "smap_find own' k = Some (i + n)"
  using assms
proof (induction shared i kss own arbitrary: n rule: claim_all.induct)
  case (2 shared i ks kss own)
  then obtain own1 where o: "claim_names (shared i) i ks own = Inr own1" "claim_all shared (Suc i) kss own1 = Inr own'"
    by (auto split: sum.splits)
  show ?case
  proof (cases n)
    case 0
    have "smap_find own1 k = Some i"
      using claim_names_owner [OF o(1), of k] claim_names_shared [OF o(1), of k] 2(3,5) 0
      by (auto split: option.splits)
    then show ?thesis using claim_all_keeps [OF o(2)] 0 by simp
  next
    case (Suc m)
    then show ?thesis using 2(1) [OF o(1) o(2), of m] 2(3-5) by simp
  qed
qed simp

lemma claim_all_origin:
  assumes "claim_all shared i kss own = Inr own'" "smap_find own' k = Some j"
  shows "smap_find own k = Some j \<or> (\<exists>n < length kss. j = i + n \<and> k \<in> set (kss ! n))"
  using assms
proof (induction shared i kss own rule: claim_all.induct)
  case (2 shared i ks kss own)
  then obtain own1 where o: "claim_names (shared i) i ks own = Inr own1" "claim_all shared (Suc i) kss own1 = Inr own'"
    by (auto split: sum.splits)
  from 2(1) [OF o 2(3)] consider
    "smap_find own1 k = Some j" | n where "n < length kss" "j = Suc i + n" "k \<in> set (kss ! n)" by auto
  then show ?case
  proof cases
    case 1
    then show ?thesis using claim_names_owner [OF o(1), of k] by (auto split: option.splits if_splits)
  next
    case 2
    then show ?thesis by (intro disjI2 exI [of _ "Suc n"]) simp
  qed
qed simp

lemma claim_all_ok: "claim_all shared i kss own = Inr own' \<Longrightarrow> smap_ok own \<Longrightarrow> smap_ok own'"
  by (induction shared i kss own rule: claim_all.induct) (auto intro: claim_names_ok split: sum.splits)

lemma claim_all_distinct:
  "claim_all (\<lambda>_ _. False) i kss own = Inr own' \<Longrightarrow> ks \<in> set kss \<Longrightarrow> distinct ks"
  by (induction kss arbitrary: i own) (auto dest: claim_names_distinct split: sum.splits)

section \<open>The join\<close>

lemma join_values_find:
  assumes "join_values x bs own st = (Inr u, st')" "distinct (map fst own)"
  shows "smap_find (gs_values (xs_state st')) k =
    (case smap_find own k of
       None \<Rightarrow> smap_find (gs_values (xs_state st)) k
     | Some i \<Rightarrow>
         (case smap_find (gs_values (br_state (bs ! i))) k of
            None \<Rightarrow> smap_find (gs_values (xs_state st)) k
          | Some v \<Rightarrow> Some v))"
  using assms
proof (induction own arbitrary: st)
  case (Cons ki own)
  obtain k0 i where ki: "ki = (k0, i)" by (cases ki)
  have fresh: "smap_find own k0 = None" "distinct (map fst own)" using Cons.prems(2) ki by (simp_all add: map_of_eq_None_iff)
  note run = Cons.prems(1) [unfolded ki]
  show ?case
  proof (cases "smap_find (gs_values (br_state (bs ! i))) k0")
    case None
    then show ?thesis using Cons.IH [of st] run fresh ki by (auto split: option.splits)
  next
    case (Some v)
    define st1 where "st1 = st\<lparr>xs_state := (xs_state st)\<lparr>gs_values := smap_put k0 v (gs_values (xs_state st))\<rparr>\<rparr>"
    obtain st2 where st2: "join_values x bs own st2 = (Inr u, st')" "xs_state st2 = xs_state st1"
    proof (cases "ex_depth x > 0")
      case True
      then show ?thesis using that [of "st1\<lparr>xs_writes := xs_writes st1 @ [k0]\<rparr>"] run Some by (simp add: st1_def Let_def)
    next
      case False
      then show ?thesis
        using that run Some unfolding st1_def [symmetric] by (auto simp: st1_def Let_def split: if_splits prod.splits sum.splits)
    qed
    show ?thesis
      using Cons.IH [OF st2(1) fresh(2)] fresh(1) Some st2(2) ki by (auto simp: st1_def find_put split: option.splits)
  qed
qed simp

lemma join_values_rest:
  assumes "join_values x bs own st = (res, st')"
  shows "gs_histories (xs_state st') = gs_histories (xs_state st)"
  using assms
  by (induction x bs own st rule: join_values.induct) (auto simp: Let_def split: if_splits prod.splits sum.splits option.splits)

text \<open>The conversations of the branches, when no two branches use the same one.\<close>

lemma join_histories_other:
  "(\<And>b. b \<in> set bs \<Longrightarrow> smap_find (gs_histories (br_state b)) name = None) \<Longrightarrow>
   smap_find (fold (\<lambda>b. smap_put_all (gs_histories (br_state b))) bs hs) name = smap_find hs name"
proof (induction bs arbitrary: hs)
  case (Cons b bs)
  then have "map_of (rev (gs_histories (br_state b))) name = None" by (simp add: map_of_eq_None_iff)
  then show ?case using Cons by (simp add: find_put_all map_add_def)
qed simp

lemma join_histories_owner:
  assumes "i < length bs" "smap_find (gs_histories (br_state (bs ! i))) name = Some m"
    and "distinct (map fst (gs_histories (br_state (bs ! i))))"
    and "\<And>j. j < length bs \<Longrightarrow> j \<noteq> i \<Longrightarrow> smap_find (gs_histories (br_state (bs ! j))) name = None"
  shows "smap_find (fold (\<lambda>b. smap_put_all (gs_histories (br_state b))) bs hs) name = Some m"
proof -
  have bs: "bs = take i bs @ bs ! i # drop (Suc i) bs" using assms(1) by (rule id_take_nth_drop)
  have "smap_find (gs_histories (br_state b)) name = None" if b: "b \<in> set (drop (Suc i) bs)" for b
  proof -
    obtain j where "j < length (drop (Suc i) bs)" "b = drop (Suc i) bs ! j" using b by (metis in_set_conv_nth)
    then show ?thesis using assms(4) [of "Suc i + j"] by simp
  qed
  note rest = join_histories_other [of "drop (Suc i) bs" name, OF this]
  have "map_of (rev (gs_histories (br_state (bs ! i)))) = map_of (gs_histories (br_state (bs ! i)))"
    using assms(3) by (subst map_of_inject_set) (simp_all add: rev_map [symmetric])
  then show ?thesis
    using assms(2) by (subst bs) (simp add: rest find_put_all map_add_def)
qed

text \<open>
  C14. A parallel node that joins has merged its branches without loss: every key written with
  \<open>set_state\<close> and every agent conversation belongs to a single branch; the state after the join has
  the owner's value of each written key and the owner's conversation, and is unchanged elsewhere.
\<close>

theorem join_merges_branches:
  assumes "join_branches x n bs st = (Inr res, st')"
  shows
    "(\<forall>i < length bs. \<forall>k \<in> set (br_writes (bs ! i)).
        (\<forall>j < length bs. k \<in> set (br_writes (bs ! j)) \<longrightarrow> j = i) \<and>
        (\<forall>v. smap_find (gs_values (br_state (bs ! i))) k = Some v \<longrightarrow> smap_find (gs_values (xs_state st')) k = Some v)) \<and>
     (\<forall>k. (\<forall>i < length bs. k \<in> set (br_writes (bs ! i)) \<longrightarrow> smap_find (gs_values (br_state (bs ! i))) k = None) \<longrightarrow>
        smap_find (gs_values (xs_state st')) k = smap_find (gs_values (xs_state st)) k) \<and>
     (\<forall>i < length bs. \<forall>name m. smap_find (gs_histories (br_state (bs ! i))) name = Some m \<longrightarrow>
        (\<forall>j < length bs. smap_find (gs_histories (br_state (bs ! j))) name \<noteq> None \<longrightarrow> j = i) \<and>
        smap_find (gs_histories (xs_state st')) name = Some m) \<and>
     (\<forall>name. (\<forall>i < length bs. smap_find (gs_histories (br_state (bs ! i))) name = None) \<longrightarrow>
        smap_find (gs_histories (xs_state st')) name = smap_find (gs_histories (xs_state st)) name)"
proof -
  let ?names = "map (\<lambda>b. map fst (gs_histories (br_state b))) bs"
  obtain own hown st1 where
    own: "claim_all (\<lambda>i j. j = i) 0 (map br_writes bs) [] = Inr own" and
    hown: "claim_all (\<lambda>i j. False) 0 ?names [] = Inr hown" and
    vals: "join_values x bs own st = (Inr (), st1)" and
    st': "xs_state st' = join_histories bs (xs_state st1)"
    using assms by (auto simp: join_branches_def Let_def split: sum.splits prod.splits)
  have ok: "distinct (map fst own)" by (rule smap_ok_distinct [OF claim_all_ok [OF own smap_ok_Nil]])
  have owner: "smap_find own k = Some i" if "i < length bs" "k \<in> set (br_writes (bs ! i))" for i k
    using claim_all_owner [OF own, of i k] that by simp
  have origin: "\<exists>i < length bs. j = i \<and> k \<in> set (br_writes (bs ! i))" if "smap_find own k = Some j" for k j
    using claim_all_origin [OF own that] by auto
  have howner: "smap_find hown name = Some i"
    if "i < length bs" "smap_find (gs_histories (br_state (bs ! i))) name \<noteq> None" for i name
    using claim_all_owner [OF hown, of i name] that by (auto simp: map_of_eq_None_iff)
  have hdist: "distinct (map fst (gs_histories (br_state (bs ! i))))" if "i < length bs" for i
    using claim_all_distinct [OF hown, of "map fst (gs_histories (br_state (bs ! i)))"] that by simp
  have hist: "gs_histories (xs_state st') =
      fold (\<lambda>b. smap_put_all (gs_histories (br_state b))) bs (gs_histories (xs_state st))"
    using st' join_values_rest [OF vals] by (simp add: join_histories_def)
  have values': "gs_values (xs_state st') = gs_values (xs_state st1)" using st' by (simp add: join_histories_def)
  note find = join_values_find [OF vals ok, folded values']
  have "smap_find (gs_values (xs_state st')) k = Some v"
    if "i < length bs" "k \<in> set (br_writes (bs ! i))" "smap_find (gs_values (br_state (bs ! i))) k = Some v" for i k v
    using find [of k] owner that by simp
  moreover have "smap_find (gs_values (xs_state st')) k = smap_find (gs_values (xs_state st)) k"
    if "\<forall>i < length bs. k \<in> set (br_writes (bs ! i)) \<longrightarrow> smap_find (gs_values (br_state (bs ! i))) k = None" for k
    using find [of k] origin [of k] that by (auto split: option.splits)
  moreover have "smap_find (gs_histories (xs_state st')) name = Some m"
    if "i < length bs" "smap_find (gs_histories (br_state (bs ! i))) name = Some m" for i name m
  proof -
    have "smap_find (gs_histories (br_state (bs ! j))) name = None" if j: "j < length bs" "j \<noteq> i" for j
      using howner [OF j(1), of name] howner [OF \<open>i < length bs\<close>, of name] that(2)
        \<open>smap_find (gs_histories (br_state (bs ! i))) name = Some m\<close>
      by (cases "smap_find (gs_histories (br_state (bs ! j))) name") auto
    then show ?thesis unfolding hist by (rule join_histories_owner [OF that hdist [OF that(1)]])
  qed
  moreover have "j = i" if "i < length bs" "k \<in> set (br_writes (bs ! i))" "j < length bs" "k \<in> set (br_writes (bs ! j))" for i j k
    using owner [OF that(1,2)] owner [OF that(3,4)] by simp
  moreover have "j = i" if "i < length bs" "smap_find (gs_histories (br_state (bs ! i))) name \<noteq> None"
      "j < length bs" "smap_find (gs_histories (br_state (bs ! j))) name \<noteq> None" for i j name
    using howner [OF that(1,2)] howner [OF that(3,4)] by simp
  moreover have "smap_find (gs_histories (xs_state st')) name = smap_find (gs_histories (xs_state st)) name"
    if "\<forall>i < length bs. smap_find (gs_histories (br_state (bs ! i))) name = None" for name
    unfolding hist by (rule join_histories_other) (metis that in_set_conv_nth)
  ultimately show ?thesis by blast
qed

definition sample_branches :: "branch list" where
  "sample_branches =
     [(new_branch (empty_state\<lparr>gs_values := [(''x'', ''1'')]\<rparr>) [])\<lparr>br_writes := [''x'']\<rparr>,
      (new_branch (empty_state\<lparr>gs_values := [(''x'', ''0''), (''y'', ''2'')],
                              gs_histories := [(''n'', new_memory ''t:n'')]\<rparr>) [])\<lparr>br_writes := [''y'']\<rparr>]"

theorem join_merges_branches_witness:
  "\<exists>st'. join_branches sample_exec (write_node ''p'' []) sample_branches sample_xst = (Inr node_done, st') \<and>
     smap_find (gs_values (xs_state st')) ''x'' = Some ''1''"
proof -
  obtain st' where st': "join_branches sample_exec (write_node ''p'' []) sample_branches sample_xst = (Inr node_done, st')"
    by (simp add: join_branches_def sample_branches_def new_branch_def empty_state_def sample_exec_def top_exec_def
        sample_xst_def top_state_def is_scoped_key_def starts_with_def Let_def)
  moreover have "0 < length sample_branches" "''x'' \<in> set (br_writes (sample_branches ! 0))"
      "smap_find (gs_values (br_state (sample_branches ! 0))) ''x'' = Some ''1''"
    by (simp_all add: sample_branches_def new_branch_def empty_state_def)
  ultimately show ?thesis using join_merges_branches [OF st'] by blast
qed

section \<open>Branch progress\<close>

lemma find_changed: "distinct (map fst vs) \<Longrightarrow>
  smap_find (changed_values parent vs) k =
    (case smap_find vs k of Some v \<Rightarrow> if is_temp_key k \<or> smap_find parent k = Some v then None else Some v | None \<Rightarrow> None)"
proof (induction vs)
  case (Cons kv vs)
  then show ?case
    by (cases kv) (auto simp: changed_values_def map_of_eq_None_iff split: option.splits)
qed (simp add: changed_values_def)

lemma find_erase_all: "smap_find (fold smap_erase ks m) k = (if k \<in> set ks then None else smap_find m k)"
  by (induction ks arbitrary: m) (auto simp: find_erase)

lemma restored_find:
  assumes "smap_ok vs"
    and "bp_values rec = changed_values parent vs" "bp_erased rec = erased_keys parent vs"
  shows "smap_find (restored_values parent rec) k = (if is_temp_key k then smap_find parent k else smap_find vs k)"
proof -
  have d: "distinct (map fst vs)" by (rule smap_ok_distinct [OF assms(1)])
  have "smap_ok (changed_values parent vs)" unfolding changed_values_def by (rule smap_ok_filter [OF assms(1)])
  then have "map_of (rev (changed_values parent vs)) = map_of (changed_values parent vs)"
    by (subst map_of_inject_set) (simp_all add: smap_ok_distinct rev_map [symmetric])
  then have "smap_find (restored_values parent rec) k =
      (if k \<in> set (erased_keys parent vs) then None
       else case smap_find (changed_values parent vs) k of Some v \<Rightarrow> Some v | None \<Rightarrow> smap_find parent k)"
    unfolding restored_values_def assms(2,3) find_erase_all find_put_all by (simp add: map_add_def)
  moreover have "k \<in> set (erased_keys parent vs) \<longleftrightarrow>
      \<not> is_temp_key k \<and> smap_find vs k = None \<and> smap_find parent k \<noteq> None"
    by (auto simp: erased_keys_def map_of_eq_None_iff)
  ultimately show ?thesis
    unfolding find_changed [OF d] by (auto split: option.splits)
qed

text \<open>
  C15. The recorded progress of a branch restores it: when a branch of a top-level fan-out has been
  saved, running, done or paused, restoring the record over the state the fan-out started from gives
  back every state value but the \<open>temp:\<close> ones, the conversations, the keys written so far and the
  node to continue at; a finished branch is not run again, a paused one without an answer stays
  paused with its reason and pending calls, and any other one runs.
\<close>

theorem branch_progress_restores:
  assumes "status \<noteq> Branch_Failed" "smap_ok (gs_values gs)" "nxt \<noteq> []" "smap_find inputs (bp_entry rec) = None"
  shows "case restore_branch sv parent inputs (record_branch status nxt parent b gs keys rec) r of
     (b', r') \<Rightarrow>
       r' = r \<and>
       (\<forall>k. smap_find (gs_values (br_state b')) k =
          (if is_temp_key k then smap_find parent k else smap_find (gs_values gs) k)) \<and>
       gs_histories (br_state b') = gs_histories gs \<and> br_writes b' = keys \<and> br_next b' = nxt \<and>
       (br_done b' \<longleftrightarrow> status = Branch_Done) \<and> (br_interrupted b' \<longleftrightarrow> status = Branch_Interrupted) \<and>
       (br_run b' \<longleftrightarrow> status \<in> {Branch_Pending, Branch_Running}) \<and>
       (status = Branch_Interrupted \<longrightarrow> br_interrupt_node b' = br_interrupt_node b \<and>
          br_interrupt_reason b' = br_interrupt_reason b \<and> br_pending b' = br_pending b)"
proof -
  define rec' where "rec' = record_branch status nxt parent b gs keys rec"
  have find: "smap_find (restored_values parent rec') k =
      (if is_temp_key k then smap_find parent k else smap_find (gs_values gs) k)" for k
    by (rule restored_find [OF assms(2)]) (simp_all add: rec'_def record_branch_def assms(1))
  have fields: "bp_status rec' = status" "bp_next rec' = nxt" "bp_entry rec' = bp_entry rec" "bp_writes rec' = keys"
    "bp_histories rec' = gs_histories gs" "bp_interrupt_node rec' = br_interrupt_node b"
    "bp_interrupt_reason rec' = br_interrupt_reason b" "bp_pending_tool_calls rec' = br_pending b"
    using assms(1) by (simp_all add: rec'_def record_branch_def)
  show ?thesis
    using assms(1,3,4) unfolding rec'_def [symmetric]
    by (cases status) (simp_all add: restore_branch_def find fields new_branch_def empty_state_def Let_def)
qed

theorem branch_progress_restores_witness:
  "case restore_branch graph_services [(''k'', ''0''), (''temp:k'', ''1'')] []
      (record_branch Branch_Interrupted ''n'' [(''k'', ''0''), (''temp:k'', ''1'')]
        ((new_branch empty_state [])\<lparr>br_interrupt_reason := ''why''\<rparr>) (empty_state\<lparr>gs_values := [(''j'', ''2'')]\<rparr>) [''j'']
        (new_progress ''e'' ''e'')) graph_rt of
     (b', r') \<Rightarrow>
       smap_find (gs_values (br_state b')) ''k'' = None \<and> smap_find (gs_values (br_state b')) ''temp:k'' = Some ''1'' \<and>
       smap_find (gs_values (br_state b')) ''j'' = Some ''2'' \<and> br_interrupted b' \<and> br_interrupt_reason b' = ''why''"
proof -
  have "smap_ok (gs_values (empty_state\<lparr>gs_values := [(''j'', ''2'')]\<rparr>))" by (simp add: smap_ok_def)
  from branch_progress_restores [OF _ this, where status = Branch_Interrupted and nxt = "''n''" and inputs = "[]"
      and rec = "new_progress ''e'' ''e''" and sv = graph_services and parent = "[(''k'', ''0''), (''temp:k'', ''1'')]"
      and b = "(new_branch empty_state [])\<lparr>br_interrupt_reason := ''why''\<rparr>" and keys = "[''j'']" and r = graph_rt]
  show ?thesis by (auto simp: is_temp_key_def starts_with_def new_branch_def split: prod.splits)
qed

section \<open>Loops\<close>

text \<open>
  The visits of a loop node: \<open>body\<close> is what the run does between two visits, which may change
  everything but the loop's own counter.
\<close>

fun loop_visits ::
    "('u, 'm) exec \<Rightarrow> ('u graph_world, 'm) graph_node \<Rightarrow> (('u, 'm) xst \<Rightarrow> ('u, 'm) xst) \<Rightarrow> nat \<Rightarrow> ('u, 'm) xst \<Rightarrow>
     node_result result \<times> ('u, 'm) xst" where
  "loop_visits x n body 0 st = run_loop_node x n st"
| "loop_visits x n body (Suc k) st = run_loop_node x n (body (snd (loop_visits x n body k st)))"

definition counter :: "('w, 'm) graph_node \<Rightarrow> ('u, 'm) xst \<Rightarrow> string option" where
  "counter n st = smap_find (gs_values (xs_state st)) (loop_key n)"

definition enters_body :: "('w, 'm) graph_node \<Rightarrow> node_result result \<Rightarrow> bool" where
  "enters_body n res \<longleftrightarrow> res = ok (node_done\<lparr>nr_forced_next := gn_loop_body n\<rparr>)"

lemma from_chars_int_to_string: "0 \<le> i \<Longrightarrow> i < 2 ^ 31 \<Longrightarrow> from_chars_int (to_string_int i) = Some i"
proof -
  assume i: "0 \<le> i" "i < 2 ^ 31"
  have "from_chars_i64 (to_string (nat i)) = Some i"
  proof (cases "to_string (nat i)")
    case (Cons c cs)
    then have "is_digit c" using to_string_digits [of c "nat i"] by simp
    then have "c \<noteq> CHR ''-''" by (auto simp: is_digit_def)
    then show ?thesis using from_chars_to_string [of "nat i"] i Cons by (simp add: from_chars_i64_def)
  qed (use to_string_nonempty in simp)
  then show ?thesis using i by (simp add: from_chars_int_def to_string_int_def)
qed

lemma loop_count_counter:
  assumes "counter n st = Some (to_string_int i)" "0 \<le> i" "i < 2 ^ 31"
  shows "loop_count n (xs_state st) = i"
  using assms from_chars_int_to_string [of i]
  by (simp add: loop_count_def get_state_def counter_def the_default_def)

lemma from_chars_int_zero: "from_chars_int ''0'' = Some 0"
  by (simp add: from_chars_int_def from_chars_i64_def from_chars_def is_digit_def digit_value_def)

lemma loop_count_fresh: "counter n st = None \<Longrightarrow> loop_count n (xs_state st) = 0"
  by (simp add: loop_count_def get_state_def counter_def the_default_def from_chars_int_zero)

lemma run_loop_counter:
  assumes "run_loop_node x n st = (res, st')" "gn_loop_body n \<noteq> []" "enters_body n res"
  shows "counter n st' = Some (to_string_int (loop_count n (xs_state st) + 1))"
  using assms
  by (auto simp: run_loop_node_def counter_def enters_body_def find_put node_done_def Let_def split: prod.splits sum.splits if_splits)

lemma run_loop_full:
  "loop_count n (xs_state st) \<ge> gn_max_iterations n \<Longrightarrow> fst (run_loop_node x n st) = ok node_done"
  by (simp add: run_loop_node_def loop_exit_def Let_def)

lemma run_loop_enters:
  "loop_count n (xs_state st) < gn_max_iterations n \<Longrightarrow> gn_until n = None \<or> loop_count n (xs_state st) = 0 \<Longrightarrow>
   enters_body n (fst (run_loop_node x n st))"
  by (auto simp: run_loop_node_def loop_exit_def enters_body_def Let_def split: option.splits)

lemma run_loop_ends:
  "\<not> enters_body n (fst (run_loop_node x n st)) \<Longrightarrow>
   (\<exists>e. fst (run_loop_node x n st) = Inl e) \<or>
   fst (run_loop_node x n st) = ok node_done \<and> counter n (snd (run_loop_node x n st)) = None"
  by (auto simp: run_loop_node_def enters_body_def counter_def find_erase Let_def split: prod.splits sum.splits)

lemma visits_count:
  assumes "gn_loop_body n \<noteq> []" "\<And>s. counter n (body s) = counter n s" "counter n st = None" "int k < 2 ^ 31"
    and "\<forall>j < k. enters_body n (fst (loop_visits x n body j st))" "0 < k"
  shows "counter n (snd (loop_visits x n body (k - 1) st)) = Some (to_string_int (int k))"
  using assms(4-)
proof (induction k)
  case (Suc k)
  show ?case
  proof (cases k)
    case 0
    have "enters_body n (fst (run_loop_node x n st))" using Suc.prems(2) 0 by auto
    then show ?thesis
      using run_loop_counter [of x n st "fst (run_loop_node x n st)" "snd (run_loop_node x n st)"] assms(1)
        loop_count_fresh [OF assms(3)] 0 by simp
  next
    case (Suc m)
    let ?s = "body (snd (loop_visits x n body m st))"
    have "counter n ?s = Some (to_string_int (int k))" using Suc.IH Suc.prems Suc assms(2) by auto
    then have c: "loop_count n (xs_state ?s) = int k" using Suc.prems(1) by (intro loop_count_counter) auto
    have "enters_body n (fst (run_loop_node x n ?s))" using Suc.prems(2) Suc by auto
    then show ?thesis
      using run_loop_counter [of x n ?s "fst (run_loop_node x n ?s)" "snd (run_loop_node x n ?s)"] assms(1) c Suc
      by (simp add: algebra_simps)
  qed
qed simp

text \<open>
  C18. A loop node runs its body at least once and at most \<open>max_iterations\<close> times: started without a
  counter, its first \<open>m\<close> visits enter the body, for some \<open>m\<close> between 1 and \<open>max_iterations\<close>, and the
  next one leaves the loop or fails with the error of the \<open>until\<close> callback; without \<open>until\<close>, \<open>m\<close> is
  \<open>max_iterations\<close>. Leaving the loop removes the counter, so that a later visit starts afresh.
\<close>

theorem loop_runs_bounded:
  fixes n :: "('u graph_world, 'm) graph_node"
  assumes "gn_loop_body n \<noteq> []" "\<And>s. counter n (body s) = counter n s" "counter n st = None"
    and "1 \<le> gn_max_iterations n" "gn_max_iterations n < 2 ^ 31"
  shows "\<exists>m. 1 \<le> m \<and> int m \<le> gn_max_iterations n \<and> (\<forall>k < m. enters_body n (fst (loop_visits x n body k st))) \<and>
     ((\<exists>e. fst (loop_visits x n body m st) = Inl e) \<or>
      fst (loop_visits x n body m st) = ok node_done \<and> counter n (snd (loop_visits x n body m st)) = None) \<and>
     (gn_until n = None \<longrightarrow> int m = gn_max_iterations n)"
proof -
  let ?res = "\<lambda>k. fst (loop_visits x n body k st)"
  define m where "m = (LEAST k. \<not> enters_body n (?res k))"
  have not_entered: "\<not> enters_body n (?res (nat (gn_max_iterations n)))"
    if "\<forall>j < nat (gn_max_iterations n). enters_body n (?res j)"
  proof -
    obtain k where k: "nat (gn_max_iterations n) = Suc k" using assms(4) by (cases "nat (gn_max_iterations n)") auto
    have "counter n (snd (loop_visits x n body k st)) = Some (to_string_int (int (Suc k)))"
      using visits_count [OF assms(1-3), of "Suc k" x] that k assms(5) by simp
    then have "loop_count n (xs_state (body (snd (loop_visits x n body k st)))) = int (Suc k)"
      using assms(2,5) k by (intro loop_count_counter) auto
    then have "?res (Suc k) = ok node_done" using run_loop_full [of n _ x] k by auto
    then show ?thesis using assms(1) k by (auto simp: enters_body_def node_done_def)
  qed
  then obtain k0 where "\<not> enters_body n (?res k0)" by blast
  then have m: "\<not> enters_body n (?res m)" "\<And>k. k < m \<Longrightarrow> enters_body n (?res k)"
    unfolding m_def using LeastI [of "\<lambda>k. \<not> enters_body n (?res k)"] not_less_Least by blast+
  have le: "m \<le> nat (gn_max_iterations n)"
  proof (rule ccontr)
    assume "\<not> m \<le> nat (gn_max_iterations n)"
    then show False using not_entered m(2) by auto
  qed
  define s where "s = (case m of 0 \<Rightarrow> st | Suc j \<Rightarrow> body (snd (loop_visits x n body j st)))"
  have s: "loop_visits x n body m st = run_loop_node x n s" by (cases m) (simp_all add: s_def)
  have c: "loop_count n (xs_state s) = int m"
  proof (cases m)
    case 0
    then show ?thesis using loop_count_fresh [OF assms(3)] by (simp add: s_def)
  next
    case (Suc j)
    have "counter n s = Some (to_string_int (int m))"
      using visits_count [OF assms(1-3), of m x] m(2) Suc le assms(2,5) by (simp add: s_def)
    then show ?thesis using le assms(5) by (intro loop_count_counter) auto
  qed
  have "\<not> (int m < gn_max_iterations n \<and> (gn_until n = None \<or> int m = 0))"
    using run_loop_enters [of n s x, unfolded c] m(1) [unfolded s] by blast
  then have "1 \<le> m \<and> (gn_until n = None \<longrightarrow> int m = gn_max_iterations n)" using le assms(4) by auto
  moreover have "int m \<le> gn_max_iterations n" using le assms(4) by auto
  ultimately show ?thesis using m run_loop_ends [of n x s] s by (intro exI [of _ m]) auto
qed

definition sample_loop :: "(unit graph_world, in_memory_state) graph_node" where
  "sample_loop = (new_node ''l'' Loop)\<lparr>gn_loop_body := ''p'', gn_max_iterations := 2\<rparr>"

theorem loop_runs_bounded_witness:
  "enters_body sample_loop (fst (loop_visits sample_exec sample_loop (\<lambda>s. s) 1 sample_xst)) \<and>
   \<not> enters_body sample_loop (fst (loop_visits sample_exec sample_loop (\<lambda>s. s) 2 sample_xst))"
proof -
  have "counter sample_loop sample_xst = None"
    by (simp add: counter_def sample_xst_def top_state_def new_ctx_def new_run_def empty_state_def)
  then obtain m where m: "int m = 2" "\<forall>k < m. enters_body sample_loop (fst (loop_visits sample_exec sample_loop (\<lambda>s. s) k sample_xst))"
      "(\<exists>e. fst (loop_visits sample_exec sample_loop (\<lambda>s. s) m sample_xst) = Inl e) \<or>
       fst (loop_visits sample_exec sample_loop (\<lambda>s. s) m sample_xst) = ok node_done"
    using loop_runs_bounded [of sample_loop "\<lambda>s. s" sample_xst sample_exec]
    by (auto simp: sample_loop_def new_node_def)
  then have m2: "m = 2" by simp
  have "enters_body sample_loop (fst (loop_visits sample_exec sample_loop (\<lambda>s. s) 1 sample_xst))"
    using m(2) [unfolded m2, THEN spec [of _ 1]] by (simp del: loop_visits.simps)
  moreover have "\<not> enters_body sample_loop (Inl e)" "\<not> enters_body sample_loop (ok node_done)" for e
    by (simp_all add: enters_body_def node_done_def sample_loop_def)
  ultimately show ?thesis using m(3) unfolding m2 by metis
qed

section \<open>Calls a reviewer answered\<close>

text \<open>The session and the node without tools and tool hooks.\<close>

definition without_tools :: "('w, 'm) session \<Rightarrow> ('w, 'm) session" where
  "without_tools S = S\<lparr>config := (config S)\<lparr>cfg_tools := []\<rparr>, tool_by_name := Map.empty\<rparr>"

definition without_hooks :: "('w, 'm) graph_node \<Rightarrow> ('w, 'm) graph_node" where
  "without_hooks n = n\<lparr>gn_hooks := []\<rparr>"

lemma trigger_without_tools: "trigger_event (without_tools S) = trigger_event S"
  by (simp add: fun_eq_iff trigger_event_def without_tools_def)

lemma denied_call:
  assumes "cfg_permission_check (config S) = None" "\<not> pr_approved pr"
  shows "run_approved_call sv S amb n pr tc r = run_approved_call sv (without_tools S) amb (without_hooks n) pr tc r"
    and "fst (run_approved_call sv S amb n pr tc r) = denied_result pr"
  using assms
  by (simp_all add: run_approved_call_def approved_policy_def trigger_without_tools Let_def)
    (simp_all add: without_tools_def without_hooks_def)

lemma emit_fields [simp]:
  "rt_memory (emit sv ty node key payload r) = rt_memory r" "rt_store (emit sv ty node key payload r) = rt_store r"
  by (simp_all add: emit_def make_event_def set_events_def Let_def split: prod.splits option.splits)

lemma denied_call_memory:
  assumes "cfg_permission_check (config S) = None" "\<not> pr_approved pr"
  shows "fm_history (rt_memory (snd (run_approved_call sv S amb n pr tc r))) = fm_history (rt_memory r)"
    and "rt_store (snd (run_approved_call sv S amb n pr tc r)) = rt_store r"
  using assms
  by (simp_all add: run_approved_call_def approved_policy_def count_tool_call_def update_stats_def Let_def)



section \<open>Transitions\<close>

lemma resolve_next_in_graph:
  assumes "well_formed (ex_graph x)" "n \<in> set (gr_nodes (ex_graph x))"
    and "nr_forced_next result = [] \<or> nr_forced_next result \<in> set (node_names (ex_graph x))"
    and "resolve_next x n result st = (Inr nxt, st')"
  shows "nxt = kGraphEnd \<or> find_node (ex_graph x) nxt \<noteq> None"
proof -
  have node: "node_ok (set (node_names (ex_graph x))) n" using assms(1,2) by (simp add: well_formed_def)
  have edge: "ed_router e \<noteq> None \<or> ed_to e = kGraphEnd \<or> ed_to e \<in> set (node_names (ex_graph x))"
    if "find_edge (ex_graph x) (gn_name n) = Some e" for e
    using find_edge_Some [OF that] assms(1) by (auto simp: well_formed_def edge_ok_def)
  show ?thesis
    using assms(3,4) node edge
    by (auto simp: resolve_next_def node_ok_def find_node_None split: if_splits option.splits sum.splits prod.splits)
qed

end
