(* ===== verification/Drive_Props.thy ===== *)
theory Drive_Props
  imports Run_Props
begin

text \<open>
  Properties of whole chains of nodes: they stay within the graph, end within their step bound, and
  leave a clean state; and the conversations a restarted thread continues have no open tool call.
\<close>

section \<open>Chains stay in the graph\<close>

lemma paused_branches_forced: "nr_forced_next (paused_branches n bs) = []"
proof -
  have "nr_forced_next (fold (pause_with n) ibs res) = nr_forced_next res" for ibs res
    by (induction ibs arbitrary: res) (auto simp: pause_with_def split: prod.split)
  then show ?thesis by (simp add: paused_branches_def node_done_def)
qed

lemma join_branches_forced: "join_branches x n bs st = (Inr result, st') \<Longrightarrow> nr_forced_next result = []"
  by (auto simp: join_branches_def Let_def node_done_def split: sum.splits prod.splits)

lemma run_parallel_forced: "run_parallel_node run x n st = Some (Inr result, st') \<Longrightarrow> nr_forced_next result = []"
  using paused_branches_forced join_branches_forced
  by (fastforce simp: run_parallel_node_def Let_def split: prod.splits bind_splits option.splits if_splits)

lemma agent_result_forced: "agent_result n reply paused st = (Inr result, st') \<Longrightarrow> nr_forced_next result = []"
  by (auto simp: agent_result_def node_done_def split: sum.splits option.splits)

lemma agent_run_turn_forced:
  "agent_run_turn x n resume sp S enter leave st = Some (Inr result, st') \<Longrightarrow> nr_forced_next result = []"
  by (auto simp: agent_run_turn_def Let_def split: prod.splits bind_splits dest: agent_result_forced)

lemma run_agent_forced: "run_agent_node x n resume st = Some (Inr result, st') \<Longrightarrow> nr_forced_next result = []"
  by (auto simp: run_agent_node_def Let_def split: if_splits prod.splits sum.splits option.splits dest: agent_run_turn_forced)

lemma run_function_forced: "run_function_node x n st = Some (Inr result, st') \<Longrightarrow> nr_forced_next result = []"
  by (auto simp: run_function_node_def Let_def node_done_def split: option.splits prod.splits sum.splits if_splits)

lemma run_tool_forced: "run_tool_node x n st = (Inr result, st') \<Longrightarrow> nr_forced_next result = []"
  by (auto simp: run_tool_node_def Let_def node_done_def split: prod.splits sum.splits)

lemma run_loop_forced:
  "run_loop_node x n st = (Inr result, st') \<Longrightarrow> nr_forced_next result = [] \<or> nr_forced_next result = gn_loop_body n"
  by (auto simp: run_loop_node_def Let_def node_done_def split: prod.splits sum.splits if_splits)

lemma run_node_forced:
  assumes "run_node fuel x n resume st = Some (Inr result, st')"
  shows "nr_forced_next result = [] \<or> gn_kind n = Loop \<and> nr_forced_next result = gn_loop_body n"
proof -
  obtain k where k: "fuel = Suc k" using assms by (cases fuel) auto
  show ?thesis
    using assms unfolding k
    by (cases "gn_kind n")
      (auto simp: run_node_with_def Let_def split: bind_splits prod.splits
        dest: run_agent_forced run_function_forced run_tool_forced run_parallel_forced run_loop_forced)
qed

lemma forced_in_graph:
  assumes "well_formed g" "n \<in> set (gr_nodes g)" "run_node fuel x n resume st = Some (Inr result, st')"
  shows "nr_forced_next result = [] \<or> nr_forced_next result \<in> set (node_names g)"
  using run_node_forced [OF assms(3)] assms(1,2) by (auto simp: well_formed_def node_ok_def kind_ok_def)

lemma write_checkpoint_run:
  "write_checkpoint sv g tw c r = (res, c', r') \<Longrightarrow> \<exists>es. rc_run c' = (rc_run c)\<lparr>run_events := es\<rparr> \<and> rc_progress c' = rc_progress c"
  by (auto simp: write_checkpoint_def Let_def split: prod.splits if_splits)

lemma run_checkpoint_next:
  "run_checkpoint x tw st = (res, st') \<Longrightarrow> run_next_node (rc_run (xs_ctx st')) = run_next_node (rc_run (xs_ctx st))"
  by (auto simp: run_checkpoint_def sync_run_def split: prod.splits dest!: write_checkpoint_run)

lemma drive_step_next:
  assumes "drive_step run x resume st = Some (Inr st')"
  obtains n result st1 st2 nxt st3 where
    "find_node (ex_graph x) (run_next_node (rc_run (xs_ctx st))) = Some n"
    "run x n (if gn_kind n = Agent then resume else None) st = Some (Inr result, st1)"
    "drain_writes x (gn_name n) st1 = (Inr (), st2)" "\<not> nr_interrupted result"
    "resolve_next x n result st2 = (Inr nxt, st3)" "run_next_node (rc_run (xs_ctx st')) = nxt"
  using assms
  by (auto simp: drive_step_def Let_def set_run_def advance_run_def
      split: option.splits bind_splits prod.splits sum.splits if_splits dest!: run_checkpoint_next)

lemma branch_step_next:
  assumes "branch_step run x join_node index b current resume st = Some (Inr nxt, st')"
  obtains n resume' result st1 st2 st3 where "find_node (ex_graph x) current = Some n"
    "run x n resume' st = Some (Inr result, st1)" "resolve_next x n result st2 = (Inr nxt, st3)"
proof -
  let ?resume = "\<lambda>n. if gn_kind n = Agent then resume else None"
  obtain n where n: "find_node (ex_graph x) current = Some n"
    using assms by (cases "find_node (ex_graph x) current") (auto simp: branch_step_def Let_def split: prod.splits)
  obtain res st1 where run: "run x n (?resume n) st = Some (res, st1)"
    using assms n by (cases "run x n (?resume n) st") (auto simp: branch_step_def Let_def)
  obtain result where result: "res = Inr result"
    using assms n run by (cases res) (auto simp: branch_step_def Let_def split: prod.splits)
  obtain u st2 where drained: "drain_writes x (gn_name n) st1 = (Inr u, st2)"
    using assms n run result by (auto simp: branch_step_def Let_def split: prod.splits sum.splits)
  have "\<not> nr_interrupted result"
    using assms n run result drained by (auto simp: branch_step_def Let_def split: prod.splits)
  then obtain st3 where "resolve_next x n result st2 = (Inr nxt, st3)"
    using assms n run result drained
    by (cases "resolve_next x n result st2") (auto simp: branch_step_def Let_def split: prod.splits sum.splits option.splits)
  then show ?thesis using that n run result by blast
qed

text \<open>
  C12. A run on a graph that \<open>validate\<close> accepts never leaves it: whatever node runs next, at the top
  level or in a branch of a parallel node, is a node of the graph or the end, also when a router or
  a loop chose it; so the "unknown node" errors of the two loops do not occur.
\<close>

theorem chain_stays_in_graph:
  assumes "validate (ex_graph x) = ok ()"
  shows "(\<forall>resume st st'. drive_step (run_node fuel) x resume st = Some (Inr st') \<longrightarrow>
        run_next_node (rc_run (xs_ctx st')) = kGraphEnd \<or>
        (\<exists>n. find_node (ex_graph x) (run_next_node (rc_run (xs_ctx st'))) = Some n)) \<and>
     (\<forall>join_node index b current resume st nxt st'.
        branch_step (run_node fuel) x join_node index b current resume st = Some (Inr nxt, st') \<longrightarrow>
        nxt = kGraphEnd \<or> (\<exists>n. find_node (ex_graph x) nxt = Some n))"
proof -
  have wf: "well_formed (ex_graph x)" using assms validate_iff by auto
  have next_node: "nxt = kGraphEnd \<or> (\<exists>n. find_node (ex_graph x) nxt = Some n)"
    if "find_node (ex_graph x) current = Some n" "run_node fuel x n resume st = Some (Inr result, st1)"
      "resolve_next x n result st2 = (Inr nxt, st3)" for current n resume st result st1 st2 nxt st3
  proof -
    have n: "n \<in> set (gr_nodes (ex_graph x))" using find_node_Some [OF that(1)] by simp
    show ?thesis
      using resolve_next_in_graph [OF wf n forced_in_graph [OF wf n that(2)] that(3)] by blast
  qed
  have "nxt = kGraphEnd \<or> (\<exists>n. find_node (ex_graph x) nxt = Some n)"
    if "branch_step (run_node fuel) x join_node index b current resume st = Some (Inr nxt, st')"
    for join_node index b current resume st nxt st'
    using that by (rule branch_step_next) (use next_node in blast)
  moreover have "run_next_node (rc_run (xs_ctx st')) = kGraphEnd \<or>
      (\<exists>n. find_node (ex_graph x) (run_next_node (rc_run (xs_ctx st'))) = Some n)"
    if "drive_step (run_node fuel) x resume st = Some (Inr st')" for resume st st'
    using that by (rule drive_step_next) (use next_node in blast)
  ultimately show ?thesis by blast
qed

lemma loop_graph_valid: "validate loop_graph = ok ()"
  by code_simp

definition chain_xst :: "(unit, in_memory_state) xst" where
  "chain_xst = top_state (new_ctx ((new_run ''t'')\<lparr>run_next_node := ''l'', run_durability := Durability_Exit\<rparr>)) [] graph_rt"

lemma chain_step: "\<exists>st'. drive_step (run_node 3) sample_exec None chain_xst = Some (Inr st')"
proof -
  have "case find_node loop_graph ''l'' of None \<Rightarrow> False | Some n \<Rightarrow>
      gn_kind n = Loop \<and> gn_loop_body n = ''p'' \<and> gn_max_iterations n = 2 \<and> gn_name n = ''l''"
    by code_simp
  then obtain n where n: "find_node loop_graph ''l'' = Some n" "gn_kind n = Loop" "gn_loop_body n = ''p''"
      "gn_max_iterations n = 2" "gn_name n = ''l''"
    by (auto split: option.splits)
  have x: "ex_graph sample_exec = loop_graph" "ex_depth sample_exec = 0" by (simp_all add: sample_exec_def top_exec_def)
  have st: "run_next_node (rc_run (xs_ctx chain_xst)) = ''l''" "run_durability (rc_run (xs_ctx chain_xst)) = Durability_Exit"
      "gs_written (xs_state chain_xst) = []" "gs_values (xs_state chain_xst) = []"
    by (simp_all add: chain_xst_def top_state_def new_ctx_def new_run_def empty_state_def)
  show ?thesis
    by (simp add: drive_step_def run_node_with_def run_loop_node_def loop_exit_def loop_count_def from_chars_int_zero numeral_3_eq_3 x n st
        drain_writes_def clear_written_def resolve_next_def set_run_def advance_run_def on_rt_def node_done_def Let_def get_state_def
        split: option.split)
qed

theorem chain_stays_in_graph_witness:
  "\<exists>st'. drive_step (run_node 3) sample_exec None chain_xst = Some (Inr st') \<and>
     (run_next_node (rc_run (xs_ctx st')) = kGraphEnd \<or>
     (\<exists>n. find_node loop_graph (run_next_node (rc_run (xs_ctx st'))) = Some n))"
proof -
  have g: "ex_graph sample_exec = loop_graph" by (simp add: sample_exec_def top_exec_def)
  show ?thesis using chain_stays_in_graph [of sample_exec 3] loop_graph_valid chain_step unfolding g by blast
qed

section \<open>How a call ends\<close>

text \<open>A call ends in \<open>finish\<close>, without an error only when the run is completed or interrupted.\<close>

definition run_ended :: "graph_run \<Rightarrow> bool" where
  "run_ended run \<longleftrightarrow> run_status run = Run_Completed \<and> run_next_node run = [] \<or> run_status run = Run_Interrupted"

definition ends_in_finish :: "('u, 'm) exec \<Rightarrow> ('u, 'm) run_outcome \<Rightarrow> bool" where
  "ends_in_finish x out \<longleftrightarrow> (\<exists>err st. out = finish x err st \<and> (err = None \<longrightarrow> run_ended (rc_run (xs_ctx st))))"

lemma ends_in_finish_error: "ends_in_finish x (finish x (Some e) st)"
  unfolding ends_in_finish_def by blast

lemma ends_in_finish_None: "run_ended (rc_run (xs_ctx st)) \<Longrightarrow> ends_in_finish x (finish x None st)"
  unfolding ends_in_finish_def by blast

lemma ends_in_finish_complete: "ends_in_finish x (complete_run x st)"
  unfolding complete_run_def by (rule ends_in_finish_None) (simp add: run_ended_def set_run_def)

lemma ends_in_finish_interrupt: "ends_in_finish x (finish x None (set_run (interrupt_run node result) st))"
  by (rule ends_in_finish_None) (simp add: run_ended_def set_run_def interrupt_run_def)

lemmas ends_in_finish = ends_in_finish_error ends_in_finish_complete ends_in_finish_interrupt

lemma drive_step_ends: "drive_step run x resume st = Some (Inl out) \<Longrightarrow> ends_in_finish x out"
  by (auto simp: drive_step_def Let_def ends_in_finish
      split: option.splits bind_splits prod.splits sum.splits if_splits)

lemma drive_loop_ends: "drive_loop steps run x resume st = Some out \<Longrightarrow> ends_in_finish x out"
proof (induction steps arbitrary: resume st)
  case 0
  then show ?case using ends_in_finish by (auto split: if_splits)
next
  case (Suc steps)
  then show ?case
    using ends_in_finish drive_step_ends by (auto split: if_splits bind_splits sum.splits)
qed

lemma finish_outcome:
  assumes "finish x err st = (res, run, r)"
  shows "run_state run = clear_temp (xs_state st)"
    and "case res of Inl e \<Rightarrow> run_status run = Run_Failed \<and> run_error run = e
          | Inr _ \<Rightarrow> err = None \<and> run_status run = run_status (rc_run (xs_ctx st)) \<and>
              run_next_node run = run_next_node (rc_run (xs_ctx st))"
  using assms
  by (auto simp: finish_def Let_def sync_run_def fail_run_def split: prod.splits option.splits sum.splits
      dest!: write_checkpoint_run)

lemma clear_temp_find: "smap_find (gs_values (clear_temp gs)) k = (if is_temp_key k then None else smap_find (gs_values gs) k)"
  by (simp add: clear_temp_def find_erase_if)

lemma drive_finishes:
  assumes "drive fuel sv g c index resume r = Some (res, run, r')"
  obtains err st r1 where "finish (top_exec sv g) err st = (res, run, r1)" "err = None \<longrightarrow> run_ended (rc_run (xs_ctx st))"
    "r' = set_events (events_of r) r1"
proof -
  let ?x = "top_exec sv g"
  obtain out where out: "(case drain_writes ?x [] (top_state c index r) of
        (Inl e, st) \<Rightarrow> Some (finish ?x (Some e) st)
      | (Inr _, st) \<Rightarrow> drive_loop (nat (gr_max_steps g)) (run_node fuel) ?x resume st) = Some out"
      "(case out of (res, run, r'') \<Rightarrow> (res, run, set_events (events_of r) r'')) = (res, run, r')"
    using assms unfolding drive_def Let_def by (auto split: option.splits)
  have "ends_in_finish ?x out"
    using out(1) ends_in_finish by (auto split: prod.splits sum.splits dest: drive_loop_ends)
  then obtain err st where f: "out = finish ?x err st" "err = None \<longrightarrow> run_ended (rc_run (xs_ctx st))"
    unfolding ends_in_finish_def by blast
  obtain r1 where r1: "out = (res, run, r1)" "r' = set_events (events_of r) r1"
    using out(2) by (auto split: prod.splits)
  show ?thesis by (rule that [of err st r1]) (use f r1 in auto)
qed

section \<open>Abandoned calls\<close>

lemma answer_open_calls_spec:
  assumes "answer_open_calls i tcs h = (h', logged)" "i \<le> length h"
  shows "h' = h @ map abandoned_message logged \<and> set logged \<subseteq> set tcs \<and> distinct (map tc_id logged) \<and>
    (\<forall>tc \<in> set tcs. \<exists>m \<in> set (drop i h'). msg_tool_call_id m = tc_id tc) \<and>
    (\<forall>tc \<in> set logged. \<forall>m \<in> set (drop i h). msg_tool_call_id m \<noteq> tc_id tc)"
  using assms
proof (induction i tcs h arbitrary: h' logged rule: answer_open_calls.induct)
  case (2 i tc tcs h)
  show ?case
  proof (cases "\<exists>m \<in> set (drop i h). msg_tool_call_id m = tc_id tc")
    case True
    then show ?thesis using 2(1) [OF True, of h' logged] 2(3,4) by auto
  next
    case False
    then obtain logged' where l: "answer_open_calls i tcs (h @ [abandoned_message tc]) = (h', logged')" "logged = tc # logged'"
      using 2(3) by (auto split: prod.splits)
    have id: "msg_tool_call_id (abandoned_message tc) = tc_id tc" by (simp add: abandoned_message_def)
    show ?thesis using 2(2) [OF False l(1)] 2(4) l(2) False id by (auto; blast)
  qed
qed simp

lemma grouped_more_results:
  assumes "grouped b (xs @ m # ts)" "makes_calls m" "\<forall>t \<in> set (ts @ us). msg_role t = ''tool''"
  shows "grouped b (xs @ m # ts @ us)"
proof -
  have tools: "grouped True zs" if "\<forall>t \<in> set zs. msg_role t = ''tool''" for zs using that by (induction zs) auto
  have "msg_role m \<noteq> ''tool''" using assms(2) by (simp add: makes_calls_def)
  then show ?thesis
    using assms tools [of "ts @ us"]
  proof (induction xs arbitrary: b)
    case (Cons x xs)
    then show ?case by (auto split: if_splits)
  qed auto
qed

lemma open_calls_split:
  assumes "open_calls h \<noteq> []"
  obtains xs m ts where "h = xs @ m # ts" "makes_calls m" "msg_tool_calls m = open_calls h" "calls_end h = length (xs @ [m])"
    "\<forall>t \<in> set ts. msg_role t = ''tool''"
proof -
  let ?tool = "\<lambda>m. msg_role m = ''tool''"
  define ts where "ts = rev (takeWhile ?tool (rev h))"
  define pre where "pre = rev (dropWhile ?tool (rev h))"
  have h: "h = pre @ ts" by (simp add: pre_def ts_def flip: rev_append)
  have "length h = length pre + length ts" using arg_cong [OF h, of length] by simp
  then have i: "calls_end h = length pre" by (simp add: calls_end_def ts_def)
  have "pre \<noteq> []" using assms i by (auto simp: open_calls_def Let_def)
  then obtain xs m where pre: "pre = xs @ [m]" by (cases pre rule: rev_cases) auto
  have "h ! (calls_end h - 1) = m" using h i pre by (simp add: nth_append)
  then have "makes_calls m" "msg_tool_calls m = open_calls h"
    using assms i pre by (auto simp: open_calls_def makes_calls_def Let_def split: if_splits)
  moreover have "\<forall>t \<in> set ts. msg_role t = ''tool''" by (auto simp: ts_def dest: set_takeWhileD)
  ultimately show ?thesis using that h pre i by simp
qed

lemma calls_end_le: "calls_end h \<le> length h"
  by (simp add: calls_end_def)

lemma answer_abandoned_spec:
  assumes "answer_abandoned h = (h', logged)"
  shows "h' = h @ map abandoned_message logged \<and> set logged \<subseteq> set (open_calls h) \<and>
    (\<forall>tc \<in> set (open_calls h). \<exists>m \<in> set (drop (calls_end h) h'). msg_tool_call_id m = tc_id tc) \<and>
    (grouped False h \<longrightarrow> grouped False h')"
proof -
  have spec: "h' = h @ map abandoned_message logged \<and> set logged \<subseteq> set (open_calls h) \<and>
      (\<forall>tc \<in> set (open_calls h). \<exists>m \<in> set (drop (calls_end h) h'). msg_tool_call_id m = tc_id tc)"
    using answer_open_calls_spec [OF assms [unfolded answer_abandoned_def] calls_end_le]
    by blast
  moreover have "grouped False h'" if "grouped False h"
  proof (cases "open_calls h = []")
    case True
    then show ?thesis using spec that by simp
  next
    case False
    then obtain xs m ts where h: "h = xs @ m # ts" "makes_calls m" "\<forall>t \<in> set ts. msg_role t = ''tool''"
      by (rule open_calls_split)
    have "\<forall>t \<in> set (ts @ map abandoned_message logged). msg_role t = ''tool''"
      using h(3) by (auto simp: abandoned_message_def new_message_def)
    from grouped_more_results [OF that [unfolded h(1)] h(2) this] show ?thesis using spec h(1) by simp
  qed
  ultimately show ?thesis by blast
qed

definition calls_answered :: "flow_memory \<Rightarrow> flow_memory \<Rightarrow> tool_call list \<Rightarrow> bool" where
  "calls_answered m m' logged \<longleftrightarrow>
     (let h = fm_history m; h' = fm_history m' in
      m' = m\<lparr>fm_history := h'\<rparr> \<and> h' = h @ map abandoned_message logged \<and> set logged \<subseteq> set (open_calls h) \<and>
      (\<forall>tc \<in> set (open_calls h). \<exists>t \<in> set (drop (calls_end h) h'). msg_tool_call_id t = tc_id tc) \<and>
      (grouped False h \<longrightarrow> grouped False h'))"

lemma answer_abandoned_calls_answered:
  assumes "answer_abandoned (fm_history m) = (h, logged)"
  shows "calls_answered m (m\<lparr>fm_history := h\<rparr>) logged"
proof -
  have "fm_history (m\<lparr>fm_history := h\<rparr>) = h" by simp
  then show ?thesis using answer_abandoned_spec [OF assms] unfolding calls_answered_def Let_def by metis
qed



end
