(* ===== verification/Turn_Prune.thy ===== *)
theory Turn_Prune
  imports Turn
begin

text \<open>
  Properties of \<open>prune_history_state\<close>: what it keeps, that it drops whole groups of tool calls
  and results, and that it reaches the token budget unless a single group is left.
\<close>

section \<open>Counting only fills the cache\<close>

definition uncounted :: "message \<Rightarrow> message" where
  "uncounted m = m\<lparr>msg_token_count := -1\<rparr>"

lemma uncounted_simps [simp]:
  "msg_role (uncounted m) = msg_role m" "msg_tool_calls (uncounted m) = msg_tool_calls m"
  "msg_content (uncounted m) = msg_content m"
  by (simp_all add: uncounted_def)

lemma uncounted_eq:
  assumes "uncounted m = uncounted m'"
  shows "msg_role m = msg_role m'" "msg_tool_calls m = msg_tool_calls m'"
  using arg_cong [OF assms, of msg_role] arg_cong [OF assms, of msg_tool_calls] by simp_all

lemma grouped_uncounted: "map uncounted h = map uncounted h' \<Longrightarrow> grouped b h \<longleftrightarrow> grouped b h'"
proof (induction b h arbitrary: h' rule: grouped.induct)
  case (2 b m ms)
  then obtain m' ms' where h': "h' = m' # ms'" "uncounted m = uncounted m'" "map uncounted ms = map uncounted ms'"
    by (cases h') auto
  note same = uncounted_eq [OF h'(2)]
  show ?case
  proof (cases "is_tool m")
    case True
    with "2.IH"(1) [OF True h'(3)] h'(1) same show ?thesis by simp
  next
    case False
    with "2.IH"(2) [OF False h'(3)] h'(1) same show ?thesis by (simp add: makes_calls_def)
  qed
qed simp

lemma map_uncounted_nth:
  assumes "map uncounted h = map uncounted h'" "i < length h"
  shows "msg_role (h ! i) = msg_role (h' ! i)" "makes_calls (h ! i) = makes_calls (h' ! i)"
proof -
  have "length h = length h'" using assms(1) map_eq_imp_length_eq by blast
  then have "uncounted (h ! i) = uncounted (h' ! i)" using assms by (metis nth_map)
  from uncounted_eq [OF this] show "msg_role (h ! i) = msg_role (h' ! i)" "makes_calls (h ! i) = makes_calls (h' ! i)"
    by (simp_all add: makes_calls_def)
qed

lemma count_message_uncounted: "uncounted (fst (snd (count_message_tokens S m w))) = uncounted m"
  by (auto simp: count_message_tokens_def uncounted_def Let_def split: prod.split)

lemma count_all_uncounted: "map uncounted (fst (snd (count_all S h w))) = map uncounted h"
proof (induction h arbitrary: w)
  case (Cons m h)
  then show ?case
    using count_message_uncounted [of S m w] by (auto split: prod.splits) (metis fst_conv snd_conv)
qed simp

section \<open>Cached counts\<close>

text \<open>An engine reports non-negative token counts.\<close>

definition counts_nonneg :: "('w, 'm) session \<Rightarrow> bool" where
  "counts_nonneg S \<longleftrightarrow> (\<forall>t w n w'. count_tokens_engine S t w = (ok n, w') \<longrightarrow> 0 \<le> n)"

abbreviation token_sum :: "message list \<Rightarrow> int" where
  "token_sum h \<equiv> (\<Sum>m\<leftarrow>h. msg_token_count m)"

abbreviation all_counted :: "message list \<Rightarrow> bool" where
  "all_counted h \<equiv> \<forall>m \<in> set h. 0 \<le> msg_token_count m"

lemma count_parts_nonneg:
  assumes "counts_nonneg S"
  shows "0 \<le> t \<Longrightarrow> 0 \<le> fst (count_parts S ps t w)"
proof (induction ps arbitrary: t w)
  case (Cons p ps)
  obtain res w' where res: "count_tokens_engine S p w = (res, w')" by fastforce
  then have "0 \<le> n" if "res = ok n" for n using assms that unfolding counts_nonneg_def by blast
  with Cons res show ?case by (cases res) auto
qed simp

lemma count_message_cached:
  assumes "counts_nonneg S" "count_message_tokens S m w = (n, m', w')"
  shows "0 \<le> msg_token_count m'" "msg_token_count m' = n"
proof -
  obtain t w1 where p: "(if provider_counts_tokens S then count_parts S (message_text_parts m) 0 w else (0, w)) = (t, w1)"
    by fastforce
  then have "0 \<le> t" using count_parts_nonneg [OF assms(1), of 0 "message_text_parts m" w] by (auto split: if_splits)
  moreover have "0 \<le> estimate_tokens m" by (simp add: estimate_tokens_def)
  ultimately show "0 \<le> msg_token_count m'" "msg_token_count m' = n"
    using assms(2) p by (auto simp: count_message_tokens_def Let_def split: if_splits)
qed

lemma count_all_cached:
  assumes "counts_nonneg S" "count_all S h w = (tot, h', w')"
  shows "all_counted h' \<and> tot = token_sum h'"
  using assms(2)
proof (induction h arbitrary: w tot h' w')
  case (Cons m h)
  then obtain n m' w1 t2 h2 where split: "count_message_tokens S m w = (n, m', w1)"
      "count_all S h w1 = (t2, h2, w')" "tot = n + t2" "h' = m' # h2"
    by (auto split: prod.splits)
  with Cons.IH [OF split(2)] count_message_cached [OF assms(1) split(1)] show ?case by simp
qed simp

lemma count_all_of_cached: "all_counted h \<Longrightarrow> count_all S h w = (token_sum h, h, w)"
  by (induction h) (simp_all add: count_message_tokens_def)

section \<open>Groups\<close>

lemma group_size_le: "i < length h \<Longrightarrow> i + group_size h i \<le> length h"
  using length_takeWhile_le [of is_tool "drop (i + 1) h"] by (auto simp: group_size_def)

lemma grouped_adjacent:
  "\<lbrakk>grouped b h; Suc i < length h; \<not> is_tool (h ! i); \<not> makes_calls (h ! i)\<rbrakk> \<Longrightarrow> \<not> is_tool (h ! Suc i)"
proof (induction b h arbitrary: i rule: grouped.induct)
  case (2 b m ms)
  show ?case
  proof (cases i)
    case 0
    with 2 show ?thesis by (cases ms) auto
  next
    case (Suc k)
    with 2 show ?thesis by (cases "is_tool m") auto
  qed
qed simp

lemma group_boundary:
  assumes "grouped False h" "i < length h" "\<not> is_tool (h ! i)" "i + group_size h i < length h"
  shows "\<not> is_tool (h ! (i + group_size h i))"
proof (cases "makes_calls (h ! i)")
  case True
  let ?rest = "drop (i + 1) h"
  have n: "length (takeWhile is_tool ?rest) < length ?rest"
    using True assms by (simp add: group_size_def)
  then have "\<not> is_tool (?rest ! length (takeWhile is_tool ?rest))" by (rule nth_length_takeWhile)
  with n True assms show ?thesis by (simp add: group_size_def)
next
  case False
  with assms grouped_adjacent [of False h i] show ?thesis by (simp add: group_size_def)
qed

lemma takeWhile_nth_holds: "i < length (takeWhile P xs) \<Longrightarrow> P (xs ! i)"
  by (metis nth_mem set_takeWhileD takeWhile_nth)

lemma first_kept_not_tool:
  assumes "grouped False h" "h \<noteq> []"
  shows "fixed_start h < length h" "\<not> is_tool (h ! fixed_start h)"
proof -
  let ?n = "length (takeWhile is_system h)"
  show lt: "fixed_start h < length h"
    using assms(2) length_takeWhile_le [of is_system h] by (auto simp: fixed_start_def Let_def)
  show "\<not> is_tool (h ! fixed_start h)"
  proof (cases "?n = length h")
    case True
    then have "is_system (h ! (length h - 1))"
      using assms(2) takeWhile_nth_holds [of "length h - 1" is_system h] by simp
    then show ?thesis using True by (simp add: fixed_start_def)
  next
    case False
    then have n: "fixed_start h = ?n" by (simp add: fixed_start_def)
    show ?thesis
    proof (cases ?n)
      case 0
      with n assms show ?thesis by (cases h) (auto split: if_splits)
    next
      case (Suc k)
      then have "is_system (h ! k)" using takeWhile_nth_holds [of k is_system h] by simp
      then have "\<not> is_tool (h ! k)" "\<not> makes_calls (h ! k)" by (simp_all add: makes_calls_def)
      with grouped_adjacent [OF assms(1), of k] Suc n lt show ?thesis by simp
    qed
  qed
qed

section \<open>The loop\<close>

text \<open>The condition under which the loop of \<open>prune_history_state\<close> drops the next group.\<close>

lemma prune_guard:
  assumes "from_i \<le> to_i" "to_i < length h"
  shows "(\<not> length h - (to_i - from_i) \<le> from_i + 1 \<and> \<not> length h - (to_i - from_i) - group_size h to_i < from_i + 1) \<longleftrightarrow>
    to_i + group_size h to_i < length h"
  using assms group_size_le [OF assms(2)] group_size_pos [of h to_i] by linarith

lemma prune_loop_bounds:
  assumes "from_i \<le> to_i" "to_i < length h"
  shows "to_i \<le> fst (prune_loop S h lim (from_i + 1) from_i to_i tot w) \<and>
    fst (prune_loop S h lim (from_i + 1) from_i to_i tot w) < length h"
  using assms
proof (induction "length h - to_i" arbitrary: to_i tot w rule: less_induct)
  case less
  show ?case
  proof (cases "tot > lim \<and> to_i + group_size h to_i < length h")
    case True
    obtain n ms w' where c: "count_all S (take (group_size h to_i) (drop to_i h)) w = (n, ms, w')"
      by (metis prod_cases3)
    have "length h - (to_i + group_size h to_i) < length h - to_i" using group_size_pos [of h to_i] less.prems by linarith
    from less.hyps [OF this, of "tot - n" w'] True c less.prems prune_guard [OF less.prems] show ?thesis
      by (subst (1 2) prune_loop.simps) auto
  next
    case False
    with less.prems prune_guard [OF less.prems] show ?thesis by (subst (1 2) prune_loop.simps) auto
  qed
qed

lemma prune_loop_boundary:
  assumes "from_i \<le> to_i" "to_i < length h" "grouped False h" "\<not> is_tool (h ! to_i)"
  shows "\<not> is_tool (h ! fst (prune_loop S h lim (from_i + 1) from_i to_i tot w))"
  using assms
proof (induction "length h - to_i" arbitrary: to_i tot w rule: less_induct)
  case less
  show ?case
  proof (cases "tot > lim \<and> to_i + group_size h to_i < length h")
    case True
    obtain n ms w' where c: "count_all S (take (group_size h to_i) (drop to_i h)) w = (n, ms, w')"
      by (metis prod_cases3)
    have "length h - (to_i + group_size h to_i) < length h - to_i"
      using group_size_pos [of h to_i] less.prems(2) by linarith
    moreover have "\<not> is_tool (h ! (to_i + group_size h to_i))"
      using group_boundary less.prems(2,3,4) True by blast
    ultimately have "\<not> is_tool (h ! fst (prune_loop S h lim (from_i + 1) from_i (to_i + group_size h to_i) (tot - n) w'))"
      using less.hyps [of "to_i + group_size h to_i" "tot - n" w'] less.prems True by simp
    with True c prune_guard [OF less.prems(1,2)] less.prems(2) show ?thesis by (subst prune_loop.simps) simp
  next
    case False
    with less.prems prune_guard [OF less.prems(1,2)] show ?thesis by (subst prune_loop.simps) auto
  qed
qed

lemma prune_loop_budget:
  assumes "from_i \<le> to_i" "to_i < length h" "all_counted h" "tot = token_sum (take from_i h) + token_sum (drop to_i h)"
  shows "token_sum (take from_i h) + token_sum (drop (fst (prune_loop S h lim (from_i + 1) from_i to_i tot w)) h) \<le> lim \<or>
    group_size h (fst (prune_loop S h lim (from_i + 1) from_i to_i tot w)) =
      length h - fst (prune_loop S h lim (from_i + 1) from_i to_i tot w)"
  using assms
proof (induction "length h - to_i" arbitrary: to_i tot w rule: less_induct)
  case less
  show ?case
  proof (cases "tot > lim \<and> to_i + group_size h to_i < length h")
    case True
    let ?g = "group_size h to_i"
    have c: "count_all S (take ?g (drop to_i h)) w =
        (token_sum (take ?g (drop to_i h)), take ?g (drop to_i h), w)"
      using less.prems(3) by (intro count_all_of_cached) (auto dest!: in_set_takeD in_set_dropD)
    define t where "t = tot - token_sum (take ?g (drop to_i h))"
    have smaller: "length h - (to_i + ?g) < length h - to_i" using group_size_pos [of h to_i] less.prems(2) by linarith
    have le: "from_i \<le> to_i + ?g" using less.prems(1) by simp
    have t: "t = token_sum (take from_i h) + token_sum (drop (to_i + ?g) h)"
      using less.prems(4) sum_list_take_drop [of msg_token_count "drop to_i h" ?g] by (simp add: t_def add.commute)
    have step: "prune_loop S h lim (from_i + 1) from_i to_i tot w = prune_loop S h lim (from_i + 1) from_i (to_i + ?g) t w"
      using True c prune_guard [OF less.prems(1,2)] less.prems(2) by (subst prune_loop.simps) (simp add: t_def)
    show ?thesis unfolding step by (rule less.hyps [OF smaller le _ less.prems(3) t]) (use True in simp)
  next
    case False
    then have "prune_loop S h lim (from_i + 1) from_i to_i tot w = (to_i, w)"
      using prune_guard [OF less.prems(1,2)] less.prems(2) by (subst prune_loop.simps) auto
    moreover have "group_size h to_i = length h - to_i" if "\<not> to_i + group_size h to_i < length h"
      using that group_size_le [OF less.prems(2)] by linarith
    ultimately show ?thesis using False less.prems(4) by auto
  qed
qed

section \<open>Pruning a conversation\<close>

lemma set_history_simps [simp]:
  "history (set_history h r) = h" "rt_stats (set_history h r) = rt_stats r" "rt_env (set_history h r) = rt_env r"
  "fm_stats (rt_memory (set_history h r)) = fm_stats (rt_memory r)" "fm_id (rt_memory (set_history h r)) = fm_id (rt_memory r)"
  "rt_media_rejected (set_history h r) = rt_media_rejected r" "rt_store (set_history h r) = rt_store r"
  "rt_tools_paused (set_history h r) = rt_tools_paused r"
  by (simp_all add: set_history_def)

lemma update_stats_simps [simp]:
  "history (update_stats f r) = history r" "rt_stats (update_stats f r) = rt_stats r" "rt_env (update_stats f r) = rt_env r"
  "fm_stats (rt_memory (update_stats f r)) = f (fm_stats (rt_memory r))" "fm_id (rt_memory (update_stats f r)) = fm_id (rt_memory r)"
  "rt_media_rejected (update_stats f r) = rt_media_rejected r" "rt_store (update_stats f r) = rt_store r"
  "rt_tools_paused (update_stats f r) = rt_tools_paused r"
  by (simp_all add: update_stats_def)

lemma fixed_start_uncounted:
  assumes "map uncounted h = map uncounted h'"
  shows "fixed_start h = fixed_start h'"
proof -
  have roles: "length (takeWhile is_system h) = length (takeWhile is_system (map uncounted h))" for h
    by (simp add: takeWhile_map comp_def)
  have "length (takeWhile is_system h) = length (takeWhile is_system h')"
    using roles [of h] roles [of h'] assms by simp
  moreover have "length h = length h'" using assms map_eq_imp_length_eq by blast
  ultimately show ?thesis by (simp add: fixed_start_def Let_def)
qed

text \<open>The history after pruning, in terms of the counted history and the loop's result.\<close>

lemma prune_history_shape:
  assumes "history r \<noteq> []"
  obtains prefix w0 tot h w1 d where
    "count_text_tokens S (injected_system_text S amb) (rt_env r) = (prefix, w0)"
    "count_all S (history r) w0 = (tot, h, w1)" "map uncounted h = map uncounted (history r)"
    "d = fst (prune_loop S h (max_allowed_tokens S prefix) (fixed_start h + 1) (fixed_start h) (fixed_start h) tot w1)"
    "fixed_start h < length h" "fixed_start h \<le> d" "d < length h"
    "history (prune_history_state S amb r) = take (fixed_start h) h @ drop d h"
proof -
  obtain prefix w0 where t: "count_text_tokens S (injected_system_text S amb) (rt_env r) = (prefix, w0)" by fastforce
  obtain tot h w1 where c: "count_all S (history r) w0 = (tot, h, w1)" by (metis prod_cases3)
  have u: "map uncounted h = map uncounted (history r)" using count_all_uncounted [of S "history r" w0] c by simp
  then have "h \<noteq> []" using assms by auto
  then have f: "fixed_start h < length h"
    using length_takeWhile_le [of is_system h] by (auto simp: fixed_start_def Let_def)
  obtain d w2 where p: "prune_loop S h (max_allowed_tokens S prefix) (fixed_start h + 1) (fixed_start h) (fixed_start h) tot w1 = (d, w2)"
    by fastforce
  have d: "fixed_start h \<le> d" "d < length h"
    using prune_loop_bounds [OF order_refl f, of S "max_allowed_tokens S prefix" tot w1] p by simp_all
  have "history (prune_history_state S amb r) = take (fixed_start h) h @ drop d h"
    using assms t c p d by (auto simp: prune_history_state_def)
  with t c u p f d show thesis by (intro that [of prefix w0 tot h w1 d]) simp_all
qed



text \<open>
  Pruning drops tool calls together with their results: a conversation in which every tool
  message follows its call still has this property afterwards.
\<close>

theorem prune_history_keeps_groups:
  assumes "grouped False (history r)"
  shows "grouped False (history (prune_history_state S amb r))"
proof (cases "history r = []")
  case True
  then show ?thesis by (simp add: prune_history_state_def split: prod.split)
next
  case False
  then obtain prefix w0 tot h w1 d where s: "map uncounted h = map uncounted (history r)"
    "d = fst (prune_loop S h (max_allowed_tokens S prefix) (fixed_start h + 1) (fixed_start h) (fixed_start h) tot w1)"
    "d < length h" "history (prune_history_state S amb r) = take (fixed_start h) h @ drop d h"
    using prune_history_shape [OF False, of S amb] by metis
  have g: "grouped False h" using grouped_uncounted [OF s(1), of False] assms by simp
  have "h \<noteq> []" using s(3) by auto
  note start = first_kept_not_tool [OF g this]
  have "\<not> is_tool (h ! d)"
    using prune_loop_boundary [OF order_refl start(1) g start(2)] s(2) by simp
  then have "drop d h = [] \<or> msg_role (hd (drop d h)) \<noteq> ''tool''" using s(3) by (simp add: hd_drop_conv_nth)
  then show ?thesis
    unfolding s(4) using grouped_append_non_tool grouped_take [OF g] grouped_drop_non_tool [OF g] by blast
qed

theorem prune_history_keeps_groups_witness:
  "grouped False (history (prune_history_state sample_session ambient_default (sample_rt sample_history)))"
  by (rule prune_history_keeps_groups) (simp add: sample_history_grouped)

text \<open>
  Pruning counts a cycle on the conversation only: the session's statistics, of which
  \<open>total_prune_cycles\<close> is a part, stay as they were.
\<close>

theorem prune_leaves_session_stats:
  "rt_stats (prune_history_state S amb r) = rt_stats r \<and>
   (length (history (prune_history_state S amb r)) < length (history r) \<longrightarrow>
    ts_prune_cycles (fm_stats (rt_memory (prune_history_state S amb r))) = ts_prune_cycles (fm_stats (rt_memory r)) + 1)"
proof -
  obtain prefix w0 where t: "count_text_tokens S (injected_system_text S amb) (rt_env r) = (prefix, w0)" by fastforce
  obtain tot h w1 where c: "count_all S (history r) w0 = (tot, h, w1)" by (metis prod_cases3)
  have "map uncounted h = map uncounted (history r)" using count_all_uncounted [of S "history r" w0] c by simp
  then have "length h = length (history r)" using map_eq_imp_length_eq by blast
  then show ?thesis using t c by (auto simp: prune_history_state_def split: prod.split)
qed

theorem prune_leaves_session_stats_witness:
  "rt_stats (prune_history_state sample_session ambient_default (sample_rt sample_history)) = session_stats_zero"
  using prune_leaves_session_stats [of sample_session ambient_default "sample_rt sample_history"]
  by (simp add: sample_rt_def)

end
