(* ===== verification/Turn_Props.thy ===== *)
theory Turn_Props
  imports Turn_Prune
begin

text \<open>
  Properties of a whole turn: it ends, every tool call is answered, what is saved can be loaded.
\<close>

section \<open>Termination\<close>

lemma prune_fields [simp]:
  "rt_media_rejected (prune_history_state S amb r) = rt_media_rejected r"
  "rt_store (prune_history_state S amb r) = rt_store r"
  "fm_id (rt_memory (prune_history_state S amb r)) = fm_id (rt_memory r)"
  "rt_tools_paused (prune_history_state S amb r) = rt_tools_paused r"
  by (simp_all add: prune_history_state_def split: prod.split)

lemma rejected_media_not_sent:
  assumes "cfg_provider (config S) = Engine"
  shows "build_views S True c ms a = (Some (vs, sent), a') \<Longrightarrow> \<not> sent"
proof (induction ms arbitrary: c a vs sent a')
  case (Cons m ms)
  have "\<not> accepts_tool_media S True mime" for mime
    using assms by (simp add: accepts_tool_media_def split: option.split)
  then have none: "is_tool m \<Longrightarrow> sent_media S True m = []" by (simp add: sent_media_def)
  from Cons.prems obtain vs' sent' a4 a5 where rest: "build_views S True [] ms a4 = (Some (vs', sent'), a5)"
      and sent: "sent \<longleftrightarrow> sent' \<or> is_tool m \<and> sent_media S True m \<noteq> []"
    by (auto split: prod.splits bool.splits option.splits)
  from Cons.IH [OF rest] sent none show ?case by simp
qed simp

lemma build_message_views_sent:
  assumes "build_message_views S amb rej h a = (ok (vs, sent), a')"
  obtains c ms a1 vs' a2 where "build_views S rej c ms a1 = (Some (vs', sent), a2)"
  using assms
  by (auto simp: build_message_views_def Let_def split: prod.splits option.splits if_splits)

lemma rejected_media_not_sent_views:
  assumes "cfg_provider (config S) = Engine"
    and "build_message_views S amb True h a = (ok (vs, sent), a')"
  shows "\<not> sent"
  using assms(2) by (rule build_message_views_sent) (rule rejected_media_not_sent [OF assms(1)])

lemma no_media_without_engine:
  assumes "cfg_provider (config S) = Engine" "provider_state S = None"
  shows "build_views S rej c ms a = (Some (vs, sent), a') \<Longrightarrow> \<not> sent"
proof (induction ms arbitrary: c a vs sent a')
  case (Cons m ms)
  have none: "is_tool m \<Longrightarrow> sent_media S rej m = []"
    using assms by (simp add: sent_media_def accepts_tool_media_def)
  from Cons.prems obtain vs' sent' a4 a5 where rest: "build_views S rej [] ms a4 = (Some (vs', sent'), a5)"
      and sent: "sent \<longleftrightarrow> sent' \<or> is_tool m \<and> sent_media S rej m \<noteq> []"
    by (auto split: prod.splits bool.splits option.splits)
  from Cons.IH [OF rest] sent none show ?case by simp
qed simp

lemma no_media_without_engine_views:
  assumes "cfg_provider (config S) = Engine" "provider_state S = None"
    and "build_message_views S amb rej h a = (ok (vs, sent), a')"
  shows "\<not> sent"
  using assms(3) by (rule build_message_views_sent) (rule no_media_without_engine [OF assms(1,2)])

text \<open>An iteration that continues has used up a tool round or given up on tool media.\<close>

lemma turn_step_again:
  assumes "cfg_provider (config S) = Engine" "turn_step S amb stream on_token n r = (Again n', r')"
  shows "n' = n + 1 \<and> n < cfg_max_tool_call_rounds (config S) \<or>
    n' = n \<and> \<not> rt_media_rejected r \<and> rt_media_rejected r'"
proof -
  define r1 where "r1 = prune_history_state S amb r"
  obtain res a where views: "build_message_views S amb (rt_media_rejected r1) (history r1) (reset (current_arena amb r1)) = (res, a)"
    by fastforce
  then obtain vs sent where ok: "res = ok (vs, sent)"
    using assms(2) by (cases res) (auto simp: turn_step_def r1_def)
  define r2 where "r2 = set_current_arena amb a r1"
  obtain out r3 where inf: "infer S amb (turn_request stream on_token vs) (trigger_event S OnInferenceSubmit [] r2) = (out, r3)"
    by fastforce
  show ?thesis
  proof (cases out)
    case (Inl e)
    then have retry: "sent" "n' = n" "r' = reject_tool_media S r3"
      using assms(2) views ok inf by (auto simp: turn_step_def Let_def r1_def r2_def split: if_splits)
    have "\<not> rt_media_rejected r1"
    proof
      assume "rt_media_rejected r1"
      with rejected_media_not_sent_views [OF assms(1)] views [unfolded ok] retry(1) show False by metis
    qed
    moreover obtain st where "provider_state S = Some st"
      using no_media_without_engine_views [OF assms(1) _ views [unfolded ok]] retry(1) by (cases "provider_state S") auto
    ultimately show ?thesis using retry assms(1) by (simp add: r1_def reject_tool_media_def)
  next
    case (Inr resp)
    then have "after_inference S amb n resp r3 = (Again n', r')"
      using assms(2) views ok inf by (auto simp: turn_step_def Let_def r1_def r2_def split: if_splits)
    then show ?thesis
      by (auto simp: after_inference_def Let_def split: if_splits prod.splits bool.splits)
  qed
qed

lemma turn_loop_terminates:
  assumes "cfg_provider (config S) = Engine"
  shows "\<exists>y. turn_loop S amb stream on_token n r = Some y"
proof (induction "2 * nat (cfg_max_tool_call_rounds (config S) - n) + (if rt_media_rejected r then 0 else 1)"
    arbitrary: n r rule: less_induct)
  case less
  obtain out r' where step: "turn_step S amb stream on_token n r = (out, r')" by fastforce
  show ?case
  proof (cases out)
    case (Again n')
    from turn_step_again [OF assms step [unfolded Again]]
    have "2 * nat (cfg_max_tool_call_rounds (config S) - n') + (if rt_media_rejected r' then 0 else 1) <
        2 * nat (cfg_max_tool_call_rounds (config S) - n) + (if rt_media_rejected r then 0 else 1)"
      by auto
    from less [OF this] show ?thesis using step Again by (simp add: turn_loop.simps [of S amb stream on_token n])
  qed (use step in \<open>auto simp: turn_loop.simps [of S amb stream on_token n]\<close>)
qed

text \<open>
  C2. On an engine session a turn always ends, whatever the engine, the tools and the hooks
  return: every repetition of the loop either uses one of the \<open>max_tool_call_rounds\<close> rounds or is
  the single retry without tool media.
\<close>

theorem run_turn_terminates:
  assumes "cfg_provider (config S) = Engine"
  shows "\<exists>res mem' r'. run_turn_with_media S amb mem prompt ms stream on_token r = Some (res, mem', r')"
proof -
  obtain out where "turn_loop S amb stream on_token 0 (turn_begin S amb prompt ms (r\<lparr>rt_memory := mem\<rparr>)) = Some out"
    using turn_loop_terminates [OF assms] by blast
  then show ?thesis by (cases "turn_end S out") (simp add: run_turn_with_media_def)
qed

theorem run_turn_terminates_witness:
  "\<exists>res mem' r'. run_turn_with_media
     (sample_session\<lparr>config := sample_config\<lparr>cfg_provider := Engine\<rparr>\<rparr>) ambient_default (sample_memory []) ''hi'' []
     False None (sample_rt []) = Some (res, mem', r')"
  by (rule run_turn_terminates) simp

section \<open>Every call is answered\<close>

text \<open>
  \<open>answered p h\<close>: reading \<open>h\<close> with the call ids \<open>p\<close> still to be answered, every assistant message
  with tool calls is followed by exactly one tool message per call, in order and with its id,
  and there are no other tool messages.
\<close>

fun answered :: "string list \<Rightarrow> message list \<Rightarrow> bool" where
  "answered p [] \<longleftrightarrow> p = []"
| "answered p (m # ms) \<longleftrightarrow>
     (if is_tool m then (case p of [] \<Rightarrow> False | i # is \<Rightarrow> msg_tool_call_id m = i \<and> answered is ms)
      else p = [] \<and> answered (if makes_calls m then map tc_id (msg_tool_calls m) else []) ms)"

lemma answered_grouped: "answered p h \<Longrightarrow> grouped (p \<noteq> []) h"
proof (induction p h rule: answered.induct)
  case (2 p m ms)
  show ?case
  proof (cases "is_tool m")
    case True
    with 2 obtain i ids where p: "p = i # ids" "answered ids ms" by (auto split: list.splits)
    with 2 True have "grouped (ids \<noteq> []) ms" by simp
    then have "grouped True ms" by (cases ids) (auto intro: grouped_mono)
    with True p show ?thesis by simp
  next
    case False
    with 2 have "grouped ((if makes_calls m then map tc_id (msg_tool_calls m) else []) \<noteq> []) ms" by simp
    moreover have "makes_calls m \<Longrightarrow> msg_tool_calls m \<noteq> []" by (simp add: makes_calls_def)
    ultimately show ?thesis using False by (cases "makes_calls m") simp_all
  qed
qed simp

lemma answered_append:
  "ys = [] \<or> \<not> is_tool (hd ys) \<Longrightarrow> answered p (xs @ ys) \<longleftrightarrow> answered p xs \<and> answered [] ys"
proof (induction p xs rule: answered.induct)
  case (1 p)
  then show ?case by (cases ys) auto
qed (auto split: list.splits)

lemma answered_uncounted: "map uncounted h = map uncounted h' \<Longrightarrow> answered p h \<longleftrightarrow> answered p h'"
proof (induction p h arbitrary: h' rule: answered.induct)
  case (2 p m ms)
  then obtain m' ms' where h': "h' = m' # ms'" "uncounted m = uncounted m'" "map uncounted ms = map uncounted ms'"
    by (cases h') auto
  have "msg_tool_call_id m = msg_tool_call_id m'"
    using arg_cong [OF h'(2), of msg_tool_call_id] by (simp add: uncounted_def)
  with uncounted_eq [OF h'(2)] have same: "msg_role m' = msg_role m" "msg_tool_calls m' = msg_tool_calls m"
      "msg_tool_call_id m' = msg_tool_call_id m" "makes_calls m' = makes_calls m"
    by (simp_all add: makes_calls_def)
  show ?case
  proof (cases "is_tool m")
    case True
    show ?thesis
    proof (cases p)
      case (Cons i ids)
      with "2.IH"(1) [OF True Cons h'(3)] True h'(1) same show ?thesis by simp
    qed (use True h'(1) same in simp)
  next
    case False
    with "2.IH"(2) [OF False h'(3)] h'(1) same show ?thesis by simp
  qed
qed simp

lemma answered_cut:
  assumes "answered [] h" "i \<le> j" "i = 0 \<or> i = length h \<or> \<not> is_tool (h ! i)" "j \<ge> length h \<or> \<not> is_tool (h ! j)"
  shows "answered [] (take i h @ drop j h)"
proof -
  have at: "drop k h = [] \<or> \<not> is_tool (hd (drop k h))" if "k \<ge> length h \<or> \<not> is_tool (h ! k)" for k
    using that by (cases "k < length h") (simp_all add: hd_drop_conv_nth)
  have "answered [] (drop j h)"
    using answered_append [OF at [OF assms(4)], of "[]" "take j h"] assms(1) by simp
  moreover have "answered [] (take i h)"
  proof (cases "i = 0")
    case False
    then have "i \<ge> length h \<or> \<not> is_tool (h ! i)" using assms(3) by auto
    from answered_append [OF at [OF this], of "[]" "take i h"] assms(1) show ?thesis by simp
  qed simp
  ultimately show ?thesis using answered_append [OF at [OF assms(4)]] by blast
qed

lemma prune_answered:
  assumes "answered [] (history r)"
  shows "answered [] (history (prune_history_state S amb r))"
proof (cases "history r = []")
  case True
  then show ?thesis by (simp add: prune_history_state_def split: prod.split)
next
  case False
  then obtain prefix w0 tot h w1 d where s: "map uncounted h = map uncounted (history r)"
    "d = fst (prune_loop S h (max_allowed_tokens S prefix) (fixed_start h + 1) (fixed_start h) (fixed_start h) tot w1)"
    "fixed_start h \<le> d" "d < length h" "history (prune_history_state S amb r) = take (fixed_start h) h @ drop d h"
    using prune_history_shape [OF False, of S amb] by metis
  have a: "answered [] h" using answered_uncounted [OF s(1)] assms by simp
  then have g: "grouped False h" using answered_grouped by fastforce
  have "h \<noteq> []" using s(4) by auto
  note start = first_kept_not_tool [OF g this]
  have "\<not> is_tool (h ! d)"
    using prune_loop_boundary [OF order_refl start(1) g start(2)] s(2) by simp
  with start s(3) a show ?thesis unfolding s(5) by (intro answered_cut) simp_all
qed

lemma compress_answered:
  assumes "answered [] (history r)"
  shows "answered [] (history (snd (compress_context S amb k r)))"
proof (cases rule: compress_context_cases [of S amb k r])
  case (unchanged r')
  with assms show ?thesis by simp
next
  case (compressed start e t r')
  let ?h = "history r"
  note b = compress_range_bounds [OF compressed(2)]
  have "start = 0 \<or> \<not> is_tool (?h ! start)"
  proof (cases "has_system ?h")
    case True
    then have "\<not> is_tool (?h ! 0)" "\<not> makes_calls (?h ! 0)" by (simp_all add: has_system_def makes_calls_def)
    moreover have "grouped False ?h" using answered_grouped [OF assms] by simp
    ultimately show ?thesis using grouped_adjacent [of False ?h 0] b True by simp
  qed (use b in simp)
  then have cut: "answered [] (take start ?h @ drop e ?h)" using assms b by (intro answered_cut) auto
  have rest: "drop e ?h = [] \<or> \<not> is_tool (hd (drop e ?h))"
    using b(4) by (cases "e < length ?h") (simp_all add: hd_drop_conv_nth)
  have "answered [] ([summary_message t] @ drop e ?h) \<longleftrightarrow> answered [] (drop e ?h)"
    by (simp add: summary_message_def new_message_def makes_calls_def)
  moreover have "answered [] (take start ?h)" "answered [] (drop e ?h)"
    using answered_append [OF rest, of "[]" "take start ?h"] cut by simp_all
  moreover have "\<not> is_tool (hd ([summary_message t] @ drop e ?h))" by (simp add: summary_message_def new_message_def)
  ultimately show ?thesis using compressed answered_append [of "[summary_message t] @ drop e ?h" "[]" "take start ?h"] by simp
qed

section \<open>Tools that leave the conversation alone\<close>

text \<open>
  The callbacks of the embedding program do not edit the running conversation: the tools'
  callbacks and the tool hooks of the node return it as they got it, and the one built-in tool
  that edits it, \<open>compress_context\<close>, is not registered.
\<close>

definition quiet_tool :: "('w, 'm) tool \<Rightarrow> bool" where
  "quiet_tool t \<longleftrightarrow>
     (case tool_fn t of
        None \<Rightarrow> True
      | Some Context_Compressor \<Rightarrow> False
      | Some (Text_Callback f) \<Rightarrow> \<forall>args r. rt_memory (snd (f args r)) = rt_memory r) \<and>
     (case tool_parts_fn t of None \<Rightarrow> True | Some f \<Rightarrow> \<forall>args r. rt_memory (snd (f args r)) = rt_memory r)"

definition quiet_hook :: "('w, 'm) tool_hook \<Rightarrow> bool" where
  "quiet_hook h \<longleftrightarrow> (case th_callback h of None \<Rightarrow> True | Some f \<Rightarrow> \<forall>n a res r. rt_memory (f n a res r) = rt_memory r)"

definition quiet :: "('w, 'm) session \<Rightarrow> ('w, 'm) ambient \<Rightarrow> bool" where
  "quiet S amb \<longleftrightarrow>
     (\<forall>name i. tool_by_name S name = Some i \<longrightarrow> i < length (cfg_tools (config S)) \<and> quiet_tool (cfg_tools (config S) ! i)) \<and>
     (\<forall>h \<in> set (amb_active_hooks amb). quiet_hook h)"

lemma run_tool_quiet: "quiet_tool t \<Longrightarrow> rt_memory (snd (run_tool S amb t name args r)) = rt_memory r"
proof -
  assume q: "quiet_tool t"
  have parts: "rt_memory (snd (f args r)) = rt_memory r" if "tool_parts_fn t = Some f" for f
    using q that by (auto simp: quiet_tool_def)
  have callback: "rt_memory (snd (run_callback S amb cb args r)) = rt_memory r" if "tool_fn t = Some cb" for cb
    using q that by (auto simp: quiet_tool_def run_callback_def split: tool_callback.splits)
  show ?thesis
    using parts callback
    by (auto simp: run_tool_def split: option.splits prod.splits sum.splits)
qed

lemma execute_quiet:
  assumes "quiet S amb"
  shows "rt_memory (snd (execute_for_message S amb name args r)) = rt_memory r"
proof -
  have tool: "rt_memory (snd (run_tool S amb (cfg_tools (config S) ! i) name args (r\<lparr>rt_env := w\<rparr>))) = rt_memory r"
    if "tool_by_name S name = Some i" for i w
    using run_tool_quiet [of "cfg_tools (config S) ! i" S amb name args "r\<lparr>rt_env := w\<rparr>"] assms that by (simp add: quiet_def)
  have "rt_memory (snd (default_execute S amb name args r)) = rt_memory r"
    using tool by (auto simp: default_execute_def split: option.splits prod.splits)
  moreover obtain res r' where "default_execute S amb name args r = (res, r')" by fastforce
  ultimately show ?thesis by (cases res) (simp_all add: execute_for_message_def Let_def)
qed

lemma fire_hooks_quiet: "\<forall>h \<in> set hs. quiet_hook h \<Longrightarrow> rt_memory (fire_hooks hs wh n a res r) = rt_memory r"
  by (induction hs arbitrary: r) (auto simp: quiet_hook_def split: option.splits)

lemma push_message_simps [simp]:
  "history (push_message m r) = history r @ [m]" "fm_id (rt_memory (push_message m r)) = fm_id (rt_memory r)"
  by (simp_all add: push_message_def)

lemma count_simps [simp]:
  "history (count_tool_call r) = history r" "history (count_inference u r) = history r"
  "rt_media_rejected (count_inference u r) = rt_media_rejected r"
  by (simp_all add: count_tool_call_def count_inference_def update_stats_def)

lemma run_call_history:
  assumes "quiet S amb"
  shows "\<exists>res. history (run_call S amb tc r) = history r @ [tool_message tc res]"
proof -
  let ?r1 = "fire_tool_hooks amb Pre (tc_name tc) (tc_arguments tc) [] (trigger_event S OnToolCall (tc_name tc) r)"
  obtain res r2 where ex: "execute_for_message S amb (tc_name tc) (tc_arguments tc) ?r1 = (res, r2)" by fastforce
  have hooks: "\<forall>h \<in> set (amb_active_hooks amb). quiet_hook h" using assms by (simp add: quiet_def)
  have "rt_memory r2 = rt_memory ?r1"
    using execute_quiet [OF assms, of "tc_name tc" "tc_arguments tc" ?r1] ex by simp
  then have "history r2 = history r" by (simp add: fire_tool_hooks_def fire_hooks_quiet [OF hooks])
  then show ?thesis
    using ex by (intro exI [of _ res]) (simp add: run_call_def fire_tool_hooks_def fire_hooks_quiet [OF hooks])
qed

lemma tool_message_simps [simp]:
  "is_tool (tool_message tc res)" "msg_tool_call_id (tool_message tc res) = tc_id tc"
  by (simp_all add: tool_message_def new_message_def)

lemma run_calls_history:
  assumes "quiet S amb"
  shows "\<exists>ress. length ress = length tcs \<and> history (run_calls S amb tcs r) = history r @ map2 tool_message tcs ress"
proof (induction tcs arbitrary: r)
  case (Cons tc tcs)
  obtain res where res: "history (run_call S amb tc r) = history r @ [tool_message tc res]"
    using run_call_history [OF assms] by blast
  obtain ress where "length ress = length tcs"
      "history (run_calls S amb tcs (run_call S amb tc r)) = history (run_call S amb tc r) @ map2 tool_message tcs ress"
    using Cons by blast
  with res show ?case by (intro exI [of _ "res # ress"]) (simp add: run_calls_def)
qed (simp add: run_calls_def)

lemma answered_results: "length ress = length tcs \<Longrightarrow> answered (map tc_id tcs) (map2 tool_message tcs ress)"
  by (induction tcs ress rule: list_induct2') auto

section \<open>Providers answer as the assistant\<close>

lemma to_infer_response_role: "to_infer_response resp a = (ok out, a') \<Longrightarrow> mv_role (resp_message out) = ''assistant''"
  by (auto simp: to_infer_response_def Let_def arena_full_def split: prod.splits if_splits option.splits)

lemma run_engine_role: "run_engine S amb task req a w = (ok out, a', w') \<Longrightarrow> mv_role (resp_message out) = ''assistant''"
  by (auto simp: run_engine_def Let_def arena_full_def dest: to_infer_response_role
      split: prod.splits if_splits option.splits bool.splits sum.splits)

lemma infer_role:
  assumes "infer S amb req r = (ok out, r')"
  shows "mv_role (resp_message out) = ''assistant''"
proof (cases "cfg_provider (config S)")
  case Mock
  with assms show ?thesis
    by (auto simp: infer_def infer_mock_def mock_response_def Let_def split: if_splits prod.splits option.splits)
next
  case Engine
  with assms show ?thesis
    by (auto simp: infer_def infer_engine_def infer_task_def Let_def dest: run_engine_role
        split: if_splits prod.splits option.splits sum.splits)
qed

section \<open>The invariant of the loop\<close>

lemma answered_push: "answered [] h \<Longrightarrow> \<not> is_tool m \<Longrightarrow> answered [] (h @ m # ms) \<longleftrightarrow>
    answered (if makes_calls m then map tc_id (msg_tool_calls m) else []) ms"
  using answered_append [of "m # ms" "[]" h] by simp

lemma assistant_message_simps:
  assumes "mv_role v = ''assistant''"
  shows "\<not> is_tool (assistant_message v)" "makes_calls (assistant_message v) \<longleftrightarrow> mv_tool_calls v \<noteq> []"
    "msg_tool_calls (assistant_message v) = mv_tool_calls v"
  using assms by (simp_all add: assistant_message_def new_message_def makes_calls_def)

lemma rt_env_history [simp]: "history (r\<lparr>rt_env := w\<rparr>) = history r"
  by simp

lemma after_inference_answered:
  assumes "quiet S amb" "amb_tool_pause_fn amb = None" "answered [] (history r)"
    and "mv_role (resp_message resp) = ''assistant''" "after_inference S amb n resp r = (out, r')"
    and "\<forall>e. out \<noteq> Failed e"
  shows "answered [] (history r')"
proof -
  let ?m = "assistant_message (resp_message resp)"
  note m = assistant_message_simps [OF assms(4)]
  define r1 where "r1 = push_message ?m (count_inference (resp_usage resp) (trigger_event S OnInferenceComplete [] r))"
  have h1: "history r1 = history r @ [?m]" by (simp add: r1_def)
  show ?thesis
  proof (cases "mv_tool_calls (resp_message resp) = []")
    case True
    then have "r' = r1" using assms(5) by (simp add: after_inference_def Let_def r1_def)
    with h1 m True assms(3) show ?thesis by (simp add: answered_push)
  next
    case False
    then have r': "r' = run_calls S amb (mv_tool_calls (resp_message resp)) (r1\<lparr>rt_env := rt_env r1\<rparr>)"
      using assms(2,5,6) by (auto simp: after_inference_def Let_def r1_def split: if_splits)
    obtain ress where ress: "length ress = length (mv_tool_calls (resp_message resp))"
        "history r' = history r1 @ map2 tool_message (mv_tool_calls (resp_message resp)) ress"
      using run_calls_history [OF assms(1), of "mv_tool_calls (resp_message resp)" "r1\<lparr>rt_env := rt_env r1\<rparr>"] r' by auto
    show ?thesis
      using ress h1 m False assms(3) answered_results [OF ress(1)] by (simp add: answered_push)
  qed
qed

lemma turn_step_answered:
  assumes "quiet S amb" "amb_tool_pause_fn amb = None" "answered [] (history r)"
    and "turn_step S amb stream on_token n r = (out, r')" "\<forall>e. out \<noteq> Failed e"
  shows "answered [] (history r')"
proof -
  define r1 where "r1 = prune_history_state S amb r"
  have a1: "answered [] (history r1)" using prune_answered [OF assms(3)] by (simp add: r1_def)
  obtain res a where views: "build_message_views S amb (rt_media_rejected r1) (history r1) (reset (current_arena amb r1)) = (res, a)"
    by fastforce
  then obtain vs sent where ok: "res = ok (vs, sent)"
    using assms(4,5) by (cases res) (auto simp: turn_step_def r1_def)
  define r2 where "r2 = trigger_event S OnInferenceSubmit [] (set_current_arena amb a r1)"
  obtain out1 r3 where inf: "infer S amb (turn_request stream on_token vs) r2 = (out1, r3)" by fastforce
  have a3: "answered [] (history r3)"
    using infer_fields(1) [of S amb "turn_request stream on_token vs" r2, unfolded inf] a1 by (simp add: r2_def)
  show ?thesis
  proof (cases out1)
    case (Inl e)
    then have "r' = reject_tool_media S r3"
      using assms(4,5) views ok inf by (auto simp: turn_step_def Let_def r1_def r2_def split: if_splits)
    with a3 show ?thesis by (simp add: reject_tool_media_def split: option.splits)
  next
    case (Inr resp)
    then have after: "after_inference S amb n resp r3 = (out, r')"
      using assms(4,5) views ok inf by (auto simp: turn_step_def Let_def r1_def r2_def split: if_splits)
    have "mv_role (resp_message resp) = ''assistant''" using infer_role inf Inr by blast
    from after_inference_answered [OF assms(1,2) a3 this after assms(5)] show ?thesis .
  qed
qed

lemma turn_loop_answered:
  assumes "turn_loop S amb stream on_token n r = Some y"
  shows "quiet S amb \<Longrightarrow> amb_tool_pause_fn amb = None \<Longrightarrow> answered [] (history r) \<Longrightarrow> fst y = ok t \<Longrightarrow>
    answered [] (history (snd y))"
proof (rule turn_loop.raw_induct [OF _ assms, where P = "\<lambda>S amb _ _ _ r y. quiet S amb \<longrightarrow> amb_tool_pause_fn amb = None \<longrightarrow>
    answered [] (history r) \<longrightarrow> fst y = ok t \<longrightarrow> answered [] (history (snd y))", rule_format])
  fix loop :: "('w, 'm) session \<Rightarrow> ('w, 'm) ambient \<Rightarrow> bool \<Rightarrow> (string \<Rightarrow> 'w env \<Rightarrow> 'w env) option \<Rightarrow> int \<Rightarrow> ('w, 'm) rt \<Rightarrow>
     (string result \<times> ('w, 'm) rt) option"
  fix S :: "('w, 'm) session" and amb :: "('w, 'm) ambient" and stream on_token n r y
  assume IH: "\<And>S amb stream on_token n r y. loop S amb stream on_token n r = Some y \<Longrightarrow> quiet S amb \<Longrightarrow>
      amb_tool_pause_fn amb = None \<Longrightarrow> answered [] (history r) \<Longrightarrow> fst y = ok t \<Longrightarrow> answered [] (history (snd y))"
    and eq: "(case turn_step S amb stream on_token n r of
        (out, r') \<Rightarrow> (case out of Done t \<Rightarrow> Some (ok t, r') | Failed e \<Rightarrow> Some (Inl e, r')
           | Again n \<Rightarrow> loop S amb stream on_token n r')) = Some y"
    and inv: "quiet S amb" "amb_tool_pause_fn amb = None" "answered [] (history r)" and out: "fst y = ok t"
  obtain out r1 where step: "turn_step S amb stream on_token n r = (out, r1)" by fastforce
  note ans = turn_step_answered [OF inv step]
  show "answered [] (history (snd y))"
  proof (cases out)
    case (Done u)
    with eq step ans show ?thesis by auto
  next
    case (Failed e)
    with eq step out show ?thesis by auto
  next
    case (Again k)
    with ans have "answered [] (history r1)" by simp
    with IH [of S amb stream on_token k r1 y] inv eq step Again out show ?thesis by simp
  qed
qed

lemma turn_begin_answered:
  assumes "answered [] (history r)"
  shows "answered [] (history (turn_begin S amb prompt ms r))"
proof -
  define r1 where "r1 = trigger_event S OnTurnStart [] r"
  define r2 where "r2 = (if prompt \<noteq> [] \<or> ms \<noteq> [] then push_message (user_message prompt ms) r1 else r1)"
  have a2: "answered [] (history r2)"
    using assms by (auto simp: r2_def r1_def answered_push user_message_def new_message_def makes_calls_def)
  obtain tot h w where c: "count_all S (history r2) (rt_env r2) = (tot, h, w)" by (metis prod_cases3)
  have "map uncounted h = map uncounted (history r2)" using count_all_uncounted [of S "history r2" "rt_env r2"] c by simp
  then have "answered [] h" using answered_uncounted a2 by blast
  then have "answered [] (history (set_history h (r2\<lparr>rt_env := w\<rparr>)))" by simp
  with compress_answered [OF this, of S amb 6] show ?thesis
    unfolding turn_begin_def Let_def r1_def [symmetric] r2_def [symmetric] c by simp
qed

lemma save_flow_memory_memory [simp]: "rt_memory (snd (save_flow_memory S mem r)) = rt_memory r"
proof -
  obtain res r1 where "store_memory S (''history:'' @ fm_id mem) (encode_history_json (fm_history mem)) r = (res, r1)" by fastforce
  moreover from this have "rt_memory r1 = rt_memory r"
    using store_memory_fields(1) [of S "''history:'' @ fm_id mem" "encode_history_json (fm_history mem)" r] by simp
  ultimately show ?thesis by (cases res) (simp_all add: save_flow_memory_def)
qed

text \<open>What a successful turn returns: the loop's final state, saved.\<close>

lemma run_turn_loop:
  assumes "run_turn_with_media S amb mem prompt ms stream on_token r = Some (ok t, mem', r')"
  obtains r1 where
    "turn_loop S amb stream on_token 0 (turn_begin S amb prompt ms (r\<lparr>rt_memory := mem\<rparr>)) = Some (ok t, r1)"
    "mem' = rt_memory r1" "r' = (snd (save_flow_memory S (rt_memory r1) r1))\<lparr>rt_memory := rt_memory r\<rparr>"
proof -
  obtain y where loop: "turn_loop S amb stream on_token 0 (turn_begin S amb prompt ms (r\<lparr>rt_memory := mem\<rparr>)) = Some y"
      and out: "(case turn_end S y of (res, r') \<Rightarrow> (res, rt_memory r', r'\<lparr>rt_memory := rt_memory r\<rparr>)) = (ok t, mem', r')"
    using assms by (auto simp: run_turn_with_media_def)
  obtain res r1 where y: "y = (res, r1)" by fastforce
  show thesis
  proof (cases res)
    case (Inl e)
    with out y show thesis by (simp add: turn_end_def)
  next
    case (Inr u)
    with out y have "u = t" "mem' = rt_memory r1" "r' = (snd (save_flow_memory S (rt_memory r1) r1))\<lparr>rt_memory := rt_memory r\<rparr>"
      by (auto simp: turn_end_def)
    with loop y Inr show thesis by (intro that [of r1]) simp_all
  qed
qed


definition sample_tool_session :: "(unit, in_memory_state) session" where
  "sample_tool_session =
     rebuild_tool_index (sample_session\<lparr>config := sample_config\<lparr>cfg_tools := [sample_tool ''1'']\<rparr>\<rparr>)"

lemma sample_tool_session_quiet: "quiet sample_tool_session ambient_default"
  by (auto simp: quiet_def sample_tool_session_def tool_by_name_rebuild ambient_default_def sample_tool_def quiet_tool_def
      sample_config_def split: if_splits)


section \<open>Persistence\<close>

lemma in_memory_save_ok:
  assumes "active_store S = in_memory_store" "fm_id mem \<noteq> []" "rt_store (snd (save_flow_memory S mem r)) \<noteq> None"
  shows "\<exists>r'. save_flow_memory S mem r = (ok (), r')"
  using assms
  by (auto simp: save_flow_memory_def store_memory_def in_memory_store_def put_in_memory_def
      split: option.splits prod.splits)



end
