(* ===== verification/Run_Terminates.thy ===== *)
theory Run_Terminates
  imports Drive_Props Turn_Props
begin

text \<open>
  A run returns. Chains are bounded by \<open>max_steps\<close>, turns on an engine session end, and parallel
  nodes nest as deep as the graph is structured: \<open>structured g owner level\<close> says that the nodes of
  the branches of a parallel node belong to it, that an edge stays among the nodes of one owner or
  leads back to the owner, and that \<open>level\<close> decreases from a parallel node to the parallel nodes
  inside it. The builders of the runtime produce such graphs.
\<close>

section \<open>Structured graphs\<close>

definition successor :: "('w, 'm) graph \<Rightarrow> ('w, 'm) graph_node \<Rightarrow> string \<Rightarrow> bool" where
  "successor g n m \<longleftrightarrow>
     gn_kind n = Loop \<and> m = gn_loop_body n \<or> gn_exit_to n \<noteq> [] \<and> m = gn_exit_to n \<or>
     (\<exists>e. find_edge g (gn_name n) = Some e \<and>
        (case ed_router e of None \<Rightarrow> m = ed_to e | Some f \<Rightarrow> \<exists>gs r r'. f gs r = (Inr m, r')))"

definition structured :: "('w, 'm) graph \<Rightarrow> (string \<Rightarrow> string) \<Rightarrow> (string \<Rightarrow> nat) \<Rightarrow> bool" where
  "structured g owner level \<longleftrightarrow>
     owner (gr_entry g) = [] \<and>
     (\<forall>n \<in> set (gr_nodes g).
        (\<forall>m. successor g n m \<longrightarrow> m = kGraphEnd \<or> m = owner (gn_name n) \<or> owner m = owner (gn_name n)) \<and>
        (gn_kind n = Parallel \<longrightarrow>
           (\<forall>b \<in> set (gn_branches n). owner b = gn_name n) \<and>
           (owner (gn_name n) \<noteq> [] \<longrightarrow> level (gn_name n) < level (owner (gn_name n)))))"

text \<open>The fuel a node needs: one, and two more than its level for a parallel node.\<close>

definition enough :: "(string \<Rightarrow> nat) \<Rightarrow> ('w, 'm) graph_node \<Rightarrow> nat \<Rightarrow> bool" where
  "enough level n fuel \<longleftrightarrow> 0 < fuel \<and> (gn_kind n = Parallel \<longrightarrow> Suc (level (gn_name n)) < fuel)"

text \<open>The agent nodes run on engines.\<close>

definition agents_on_engines :: "('u, 'm) services \<Rightarrow> ('u graph_world, 'm) graph \<Rightarrow> bool" where
  "agents_on_engines sv g \<longleftrightarrow>
     (\<exists>n \<in> set (gr_nodes g). gn_kind n = Agent) \<longrightarrow>
     cfg_provider (config (sv_session sv)) = Engine \<and>
     (\<forall>models name r S rm r'. sv_models sv = Some models \<and> ml_acquire models name r = (Inr (S, rm), r') \<longrightarrow>
        cfg_provider (config S) = Engine)"

section \<open>Nodes return\<close>

lemma run_turn_returns:
  assumes "cfg_provider (config S) = Engine"
  shows "run_turn S amb m p stream on_token r \<noteq> None"
proof -
  have "turn_loop S amb stream on_token n r0 \<noteq> None" for n r0 using turn_loop_terminates [OF assms] by (metis option.distinct(1))
  then show ?thesis by (simp add: run_turn_def run_turn_with_media_def)
qed

lemma agent_turn_returns:
  assumes "cfg_provider (config S) = Engine"
  shows "agent_turn sv S n resume sp p m r \<noteq> None"
  using run_turn_returns [OF assms]
  by (simp add: agent_turn_def Let_def bind_eq_None_conv del: not_None_eq split: prod.split option.split)

lemma agent_run_turn_returns:
  assumes "cfg_provider (config S) = Engine"
  shows "agent_run_turn x n resume sp S enter leave st \<noteq> None"
  using agent_turn_returns [OF assms]
  by (simp add: agent_run_turn_def bind_eq_None_conv Let_def del: not_None_eq split: prod.split)

lemma run_agent_returns:
  assumes "agents_on_engines (ex_services x) (ex_graph x)" "n \<in> set (gr_nodes (ex_graph x))" "gn_kind n = Agent"
  shows "run_agent_node x n resume st \<noteq> None"
proof -
  have own: "agent_run_turn x n resume sp (ex_session x) enter leave s \<noteq> None" for sp enter leave s
    using assms by (intro agent_run_turn_returns) (auto simp: agents_on_engines_def)
  have leased: "agent_run_turn x n resume sp S enter leave s \<noteq> None"
    if "sv_models (ex_services x) = Some models" "ml_acquire models name r = (Inr (S, rm), r')" for models name r S rm r' sp enter leave s
    using assms that unfolding agents_on_engines_def by (intro agent_run_turn_returns) blast
  show ?thesis
    using own leased by (simp add: run_agent_node_def Let_def del: not_None_eq split: prod.split sum.split option.split)
qed

lemma run_function_returns: "gn_function n \<noteq> None \<Longrightarrow> run_function_node x n st \<noteq> None"
  by (auto simp: run_function_node_def Let_def split: prod.splits)

section \<open>Chains return\<close>

lemma successor_loop: "gn_kind n = Loop \<Longrightarrow> m = gn_loop_body n \<Longrightarrow> successor g n m"
  by (simp add: successor_def)

lemma successor_exit: "gn_exit_to n \<noteq> [] \<Longrightarrow> successor g n (gn_exit_to n)"
  by (simp add: successor_def)

lemma successor_static: "find_edge g (gn_name n) = Some e \<Longrightarrow> ed_router e = None \<Longrightarrow> successor g n (ed_to e)"
  by (simp add: successor_def)

lemma successor_routed:
  "find_edge g (gn_name n) = Some e \<Longrightarrow> ed_router e = Some f \<Longrightarrow> f gs r = (Inr m, r') \<Longrightarrow> successor g n m"
  unfolding successor_def by (intro disjI2 exI [of _ e]) auto

lemma resolve_next_successor:
  assumes "nr_forced_next result = [] \<or> gn_kind n = Loop \<and> nr_forced_next result = gn_loop_body n"
    and "resolve_next x n result st = (Inr nxt, st')"
  shows "nxt = kGraphEnd \<or> successor (ex_graph x) n nxt"
  using assms
  by (auto simp: resolve_next_def split: if_splits option.splits sum.splits prod.splits
      intro: successor_loop successor_exit successor_static successor_routed)

text \<open>
  A runner that returns on the nodes of one owner: then chains among them return, whatever their
  bound.
\<close>

definition returns_on :: "('u, 'm) node_runner \<Rightarrow> ('u, 'm) exec \<Rightarrow> (string \<Rightarrow> string) \<Rightarrow> string \<Rightarrow> bool" where
  "returns_on run x owner p \<longleftrightarrow>
     (\<forall>n resume st. n \<in> set (gr_nodes (ex_graph x)) \<longrightarrow> owner (gn_name n) = p \<longrightarrow> run x n resume st \<noteq> None)"

definition forces_loops :: "('u, 'm) node_runner \<Rightarrow> bool" where
  "forces_loops run \<longleftrightarrow>
     (\<forall>x n resume st result st'. run x n resume st = Some (Inr result, st') \<longrightarrow>
        nr_forced_next result = [] \<or> gn_kind n = Loop \<and> nr_forced_next result = gn_loop_body n)"

lemma branch_step_returns:
  assumes "returns_on run x owner p" "owner current = p"
  shows "branch_step run x j i b current resume st \<noteq> None"
proof (cases "find_node (ex_graph x) current")
  case None
  then show ?thesis by (simp add: branch_step_def Let_def del: find_node_None split: prod.split)
next
  case (Some n)
  let ?resume = "if gn_kind n = Agent then resume else None"
  obtain res st1 where run: "run x n ?resume st = Some (res, st1)"
    using assms find_node_Some [OF Some] unfolding returns_on_def by (metis not_None_eq prod.exhaust)
  show ?thesis
  proof (cases res)
    case (Inl e)
    then show ?thesis using Some run by (simp add: branch_step_def Let_def split: prod.split)
  next
    case (Inr result)
    obtain drained st2 where d: "drain_writes x (gn_name n) st1 = (drained, st2)" by fastforce
    obtain nxt st3 where nx: "resolve_next x n result st2 = (nxt, st3)" by fastforce
    show ?thesis
    proof (cases "is_ok drained \<and> \<not> nr_interrupted result \<and> is_ok nxt")
      case True
      then show ?thesis
        using Some run Inr d nx by (auto simp: branch_step_def Let_def is_ok_iff split: prod.split sum.split option.split)
    next
      case False
      then show ?thesis
        using Some run Inr d nx by (cases drained; cases nxt) (auto simp: branch_step_def Let_def split: prod.split)
    qed
  qed
qed

lemma structured_successor:
  "structured g owner level \<Longrightarrow> n \<in> set (gr_nodes g) \<Longrightarrow> successor g n m \<Longrightarrow>
   m = kGraphEnd \<or> m = owner (gn_name n) \<or> owner m = owner (gn_name n)"
  by (simp add: structured_def)

lemma branch_step_owner:
  assumes "forces_loops run" "structured (ex_graph x) owner level" "owner current = p"
    and "branch_step run x j i b current resume st = Some (Inr nxt, st')"
  shows "nxt = kGraphEnd \<or> nxt = p \<or> owner nxt = p"
proof -
  obtain n resume' result st1 st2 st3 where n: "find_node (ex_graph x) current = Some n"
      "run x n resume' st = Some (Inr result, st1)" "resolve_next x n result st2 = (Inr nxt, st3)"
    by (rule branch_step_next [OF assms(4)])
  have "nxt = kGraphEnd \<or> successor (ex_graph x) n nxt"
    using assms(1) n(2) unfolding forces_loops_def by (intro resolve_next_successor [OF _ n(3)]) blast
  then show ?thesis using assms(2,3) find_node_Some [OF n(1)] by (auto simp: structured_def)
qed

lemma run_branch_returns:
  assumes "returns_on run x owner p" "forces_loops run" "structured (ex_graph x) owner level"
  shows "at_join p current \<or> owner current = p \<Longrightarrow> run_branch steps run x p index b current resume st \<noteq> None"
proof (induction steps arbitrary: current resume st)
  case (Suc steps)
  show ?case
  proof (cases "at_join p current")
    case False
    then have own: "owner current = p" using Suc.prems by simp
    from branch_step_returns [OF assms(1) own] obtain out st1
      where out: "branch_step run x p index b current resume st = Some (out, st1)" by fastforce
    show ?thesis
    proof (cases out)
      case (Inr nxt)
      then have "at_join p nxt \<or> owner nxt = p"
        using branch_step_owner [OF assms(2,3) own] out by (auto simp: at_join_def)
      then show ?thesis using Suc.IH out Inr False by simp
    qed (use out False in simp)
  qed simp
qed simp

section \<open>Parallel nodes return\<close>

lemma run_branches_returns:
  assumes "returns_on run bx owner p" "forces_loops run" "structured (ex_graph bx) owner level"
  shows "\<forall>i \<in> set is. at_join p (br_next (bs ! i)) \<or> owner (br_next (bs ! i)) = p \<Longrightarrow> distinct is \<Longrightarrow>
    run_branches run bx p tracked is bs st \<noteq> None"
proof (induction "is" arbitrary: bs st)
  case (Cons i "is")
  obtain b st1 where b: "run_branch (nat (gr_max_steps (ex_graph bx))) run bx p (if tracked then Some i else None)
      (bs ! i) (br_next (bs ! i)) (br_resume (bs ! i)) (enter_branch (bs ! i) st) = Some (b, st1)"
    using run_branch_returns [OF assms] Cons.prems(1) by fastforce
  have "\<forall>k \<in> set is. at_join p (br_next (bs[i := leave_branch b st1] ! k)) \<or> owner (br_next (bs[i := leave_branch b st1] ! k)) = p"
    using Cons.prems by (metis distinct.simps(2) list.set_intros(2) nth_list_update_neq)
  then show ?case using Cons.IH [of "bs[i := leave_branch b st1]" st1] Cons.prems(2) b by simp
qed simp

lemma restore_branches_next:
  "restore_branches sv values inputs recs r = (bs, r') \<Longrightarrow>
   map br_next bs = map (\<lambda>rec. if bp_next rec = [] then bp_entry rec else bp_next rec) recs"
proof (induction recs arbitrary: r bs)
  case (Cons rec recs)
  obtain b r1 where b: "restore_branch sv values inputs rec r = (b, r1)" by fastforce
  have "br_next b = (if bp_next rec = [] then bp_entry rec else bp_next rec)"
    using b by (auto simp: restore_branch_def Let_def new_branch_def split: branch_status.splits option.splits prod.splits if_splits)
  then show ?case using Cons b by (auto split: prod.splits)
qed simp

lemma fanout_entries:
  assumes "fanout_branches x n st = (bs, st')" "ex_depth x = 0 \<Longrightarrow> rc_progress (xs_ctx st) = None"
  shows "map br_next bs = gn_branches n"
proof (cases "ex_depth x = 0")
  case True
  then have p: "pp_branches (fanout_progress n (rc_progress (xs_ctx st))) = map (\<lambda>entry. new_progress entry entry) (gn_branches n)"
    using assms(2) by (simp add: fanout_progress_def)
  have entry: "(if bp_next (new_progress e e) = [] then bp_entry (new_progress e e) else bp_next (new_progress e e)) = e" for e
    by (simp add: new_progress_def)
  show ?thesis
    using assms(1) True unfolding fanout_branches_def p Let_def
    by (auto simp: p entry comp_def split: prod.splits dest!: restore_branches_next)
next
  case False
  then show ?thesis using assms(1) by (auto simp: fanout_branches_def new_branch_def comp_def)
qed

lemma run_parallel_returns:
  assumes "returns_on run (branch_exec x st1) owner (gn_name n)" "forces_loops run" "structured (ex_graph x) owner level"
    and "n \<in> set (gr_nodes (ex_graph x))" "gn_kind n = Parallel"
    and "fanout_branches x n st = (bs, st1)" "ex_depth x = 0 \<Longrightarrow> rc_progress (xs_ctx st) = None"
  shows "run_parallel_node run x n st \<noteq> None"
proof -
  have next_nodes: "map br_next bs = gn_branches n" by (rule fanout_entries [OF assms(6,7)])
  have "owner (br_next (bs ! i)) = gn_name n" if "i < length bs" for i
  proof -
    have "br_next (bs ! i) \<in> set (gn_branches n)" unfolding next_nodes [symmetric] using that by simp
    then show ?thesis using assms(3-5) by (auto simp: structured_def)
  qed
  then have "run_branches run (branch_exec x st1) (gn_name n) (ex_depth x = 0)
      (filter (\<lambda>i. br_run (bs ! i)) [0..<length bs]) bs st1 \<noteq> None"
    using assms(3) by (intro run_branches_returns [OF assms(1,2)]) (auto simp: branch_exec_def)
  then show ?thesis
    using assms(6) by (simp add: run_parallel_node_def Let_def bind_eq_None_conv del: not_None_eq split: prod.split)
qed

lemma forces_loops_run_node: "forces_loops (run_node fuel)"
  unfolding forces_loops_def using run_node_forced by blast

lemma run_node_returns:
  assumes "well_formed (ex_graph x)" "structured (ex_graph x) owner level" "agents_on_engines (ex_services x) (ex_graph x)"
    and "n \<in> set (gr_nodes (ex_graph x))" "enough level n fuel" "ex_depth x = 0 \<Longrightarrow> rc_progress (xs_ctx st) = None"
  shows "run_node fuel x n resume st \<noteq> None"
  using assms
proof (induction fuel arbitrary: x n resume st)
  case (Suc fuel)
  let ?st0 = "on_rt (\<lambda>r. trigger_event (ex_session x) OnStateTransition (gn_name n)
      (emit (ex_services x) Ev_NodeStart (gn_name n) [] [] r)) st"
  have par: "run_parallel_node (run_node fuel) x n ?st0 \<noteq> None" if kind: "gn_kind n = Parallel"
  proof -
    obtain bs st1 where f: "fanout_branches x n ?st0 = (bs, st1)" by fastforce
    have inner: "run_node fuel (branch_exec x st1) m resume' s \<noteq> None"
      if m: "m \<in> set (gr_nodes (ex_graph x))" "owner (gn_name m) = gn_name n" for m resume' s
    proof -
      have "gn_name n \<noteq> []" using Suc.prems(1,4) by (auto simp: well_formed_def node_ok_def)
      then have "gn_kind m = Parallel \<Longrightarrow> level (gn_name m) < level (gn_name n)"
        using Suc.prems(2) m by (auto simp: structured_def)
      then have "enough level m fuel" using Suc.prems(5) kind by (auto simp: enough_def)
      then show ?thesis using Suc.IH [of "branch_exec x st1" m s resume'] Suc.prems(1-3) m(1) by (simp add: branch_exec_def)
    qed
    have "returns_on (run_node fuel) (branch_exec x st1) owner (gn_name n)"
      unfolding returns_on_def using inner by (simp add: branch_exec_def del: not_None_eq)
    then show ?thesis
      using Suc.prems(6) by (intro run_parallel_returns [OF _ forces_loops_run_node Suc.prems(2,4) kind f]) (simp_all add: on_rt_def)
  qed
  have fn: "run_function_node x n ?st0 \<noteq> None" if "gn_kind n = Function"
    using Suc.prems(1,4) that by (intro run_function_returns) (auto simp: well_formed_def node_ok_def kind_ok_def)
  have agent: "run_agent_node x n resume ?st0 \<noteq> None" if "gn_kind n = Agent"
    using Suc.prems(3,4) that by (rule run_agent_returns)
  show ?case
    using par fn agent
    by (cases "gn_kind n") (simp_all add: run_node_with_def Let_def bind_eq_None_conv del: not_None_eq split: prod.split)
qed (simp add: enough_def)

section \<open>Runs return\<close>

text \<open>Between two nodes of the run itself no fan-out is unfinished.\<close>

lemma history_for_ctx: "history_for x name st = (m, st') \<Longrightarrow> xs_ctx st' = xs_ctx st"
  by (auto simp: history_for_def put_history_def Let_def split: option.splits)

lemma agent_result_ctx: "agent_result n reply paused st = (res, st') \<Longrightarrow> xs_ctx st' = xs_ctx st"
  by (auto simp: agent_result_def split: sum.splits option.splits if_splits)

lemma agent_run_turn_ctx:
  "agent_run_turn x n resume sp S enter leave st = Some (res, st') \<Longrightarrow> xs_ctx st' = xs_ctx st"
  by (auto simp: agent_run_turn_def put_history_def Let_def split: prod.splits bind_splits
      dest!: agent_result_ctx history_for_ctx)

lemma run_agent_ctx: "run_agent_node x n resume st = Some (res, st') \<Longrightarrow> xs_ctx st' = xs_ctx st"
  by (auto simp: run_agent_node_def Let_def split: if_splits prod.splits sum.splits option.splits dest!: agent_run_turn_ctx)

lemma run_function_ctx: "run_function_node x n st = Some (res, st') \<Longrightarrow> xs_ctx st' = xs_ctx st"
  by (auto simp: run_function_node_def Let_def split: option.splits prod.splits sum.splits if_splits)

lemma run_tool_ctx: "run_tool_node x n st = (res, st') \<Longrightarrow> xs_ctx st' = xs_ctx st"
  by (auto simp: run_tool_node_def Let_def split: prod.splits sum.splits if_splits)

lemma run_loop_ctx: "run_loop_node x n st = (res, st') \<Longrightarrow> xs_ctx st' = xs_ctx st"
  by (auto simp: run_loop_node_def Let_def split: prod.splits sum.splits if_splits)

lemma join_branches_progress:
  "join_branches x n bs st = (Inr result, st') \<Longrightarrow> ex_depth x = 0 \<Longrightarrow> rc_progress (xs_ctx st') = None"
  by (auto simp: join_branches_def Let_def split: sum.splits prod.splits)

lemma run_parallel_progress:
  "run_parallel_node run x n st = Some (Inr result, st') \<Longrightarrow> \<not> nr_interrupted result \<Longrightarrow> ex_depth x = 0 \<Longrightarrow>
   rc_progress (xs_ctx st') = None"
  by (auto simp: run_parallel_node_def Let_def split: prod.splits bind_splits option.splits if_splits
      dest: join_branches_progress)

lemma run_node_progress:
  assumes "run_node fuel x n resume st = Some (Inr result, st')" "\<not> nr_interrupted result" "ex_depth x = 0"
    and "rc_progress (xs_ctx st) = None"
  shows "rc_progress (xs_ctx st') = None"
proof -
  obtain k where k: "fuel = Suc k" using assms by (cases fuel) auto
  show ?thesis
    using assms unfolding k
    by (cases "gn_kind n")
      (auto simp: run_node_with_def on_rt_def Let_def split: bind_splits prod.splits
        dest!: run_agent_ctx run_function_ctx run_tool_ctx run_loop_ctx run_parallel_progress)
qed

lemma drain_keys_ctx: "drain_keys x node keys st = (res, st') \<Longrightarrow> xs_ctx st' = xs_ctx st"
  by (induction x node keys st rule: drain_keys.induct)
    (auto simp: Let_def on_rt_def split: if_splits prod.splits sum.splits)

lemma drain_writes_ctx: "drain_writes x node st = (res, st') \<Longrightarrow> xs_ctx st' = xs_ctx st"
  by (auto simp: drain_writes_def clear_written_def dest!: drain_keys_ctx)

lemma resolve_next_ctx: "resolve_next x n result st = (res, st') \<Longrightarrow> xs_ctx st' = xs_ctx st"
  by (auto simp: resolve_next_def split: if_splits option.splits sum.splits prod.splits)

lemma run_checkpoint_progress: "run_checkpoint x tw st = (res, st') \<Longrightarrow> rc_progress (xs_ctx st') = rc_progress (xs_ctx st)"
  by (auto simp: run_checkpoint_def sync_run_def split: prod.splits dest!: write_checkpoint_run)

lemma drive_step_progress:
  assumes "drive_step run x resume st = Some (Inr st')"
    and "\<And>n resume result st1. run x n resume st = Some (Inr result, st1) \<Longrightarrow> \<not> nr_interrupted result \<Longrightarrow>
      rc_progress (xs_ctx st1) = None"
  shows "rc_progress (xs_ctx st') = None"
proof -
  obtain n result st1 where run: "find_node (ex_graph x) (run_next_node (rc_run (xs_ctx st))) = Some n"
      "run x n (if gn_kind n = Agent then resume else None) st = Some (Inr result, st1)" "\<not> nr_interrupted result"
    by (rule drive_step_next [OF assms(1)])
  obtain st2 nxt st3 where next_node: "drain_writes x (gn_name n) st1 = (Inr (), st2)" "resolve_next x n result st2 = (Inr nxt, st3)"
    using assms(1) run by (auto simp: drive_step_def Let_def split: prod.splits sum.splits if_splits)
  have "rc_progress (xs_ctx st3) = None"
    using assms(2) [OF run(2,3)] drain_writes_ctx [OF next_node(1)] resolve_next_ctx [OF next_node(2)] by simp
  then show ?thesis
    using assms(1) run next_node
    by (auto simp: drive_step_def Let_def set_run_def split: prod.splits sum.splits if_splits dest!: run_checkpoint_progress)
qed

lemma drive_step_owner:
  assumes "structured (ex_graph x) owner level" "drive_step (run_node fuel) x resume st = Some (Inr st')"
    and "owner (run_next_node (rc_run (xs_ctx st))) = []"
  shows "run_next_node (rc_run (xs_ctx st')) \<in> {kGraphEnd, []} \<or> owner (run_next_node (rc_run (xs_ctx st'))) = []"
proof -
  obtain n result st1 st2 nxt st3 where n: "find_node (ex_graph x) (run_next_node (rc_run (xs_ctx st))) = Some n"
      "run_node fuel x n (if gn_kind n = Agent then resume else None) st = Some (Inr result, st1)"
      "resolve_next x n result st2 = (Inr nxt, st3)" "run_next_node (rc_run (xs_ctx st')) = nxt"
    by (rule drive_step_next [OF assms(2)])
  have "nxt = kGraphEnd \<or> successor (ex_graph x) n nxt" by (rule resolve_next_successor [OF run_node_forced [OF n(2)] n(3)])
  then show ?thesis
    using structured_successor [OF assms(1), of n nxt] assms(3) find_node_Some [OF n(1)] n(4) by auto
qed

lemma drive_loop_returns:
  assumes "well_formed (ex_graph x)" "structured (ex_graph x) owner level" "agents_on_engines (ex_services x) (ex_graph x)"
    and "\<And>n. n \<in> set (gr_nodes (ex_graph x)) \<Longrightarrow> enough level n fuel" "ex_depth x = 0"
  shows "rc_progress (xs_ctx st) = None \<Longrightarrow>
    run_next_node (rc_run (xs_ctx st)) \<in> {kGraphEnd, []} \<or> owner (run_next_node (rc_run (xs_ctx st))) = [] \<Longrightarrow>
    drive_loop steps (run_node fuel) x resume st \<noteq> None"
proof (induction steps arbitrary: resume st)
  case (Suc steps)
  let ?cur = "run_next_node (rc_run (xs_ctx st))"
  show ?case
  proof (cases "?cur = kGraphEnd")
    case False
    have "drive_step (run_node fuel) x resume st \<noteq> None"
    proof (cases "find_node (ex_graph x) ?cur")
      case None
      then show ?thesis by (simp add: drive_step_def Let_def del: find_node_None)
    next
      case (Some n)
      then have n: "n \<in> set (gr_nodes (ex_graph x))" using find_node_Some by blast
      have "run_node fuel x n resume' st \<noteq> None" for resume'
        using run_node_returns [OF assms(1-3) n assms(4) [OF n]] Suc.prems(1) by simp
      then show ?thesis using Some by (simp add: drive_step_def Let_def bind_eq_None_conv del: not_None_eq split: prod.split)
    qed
    then obtain out where out: "drive_step (run_node fuel) x resume st = Some out" by blast
    show ?thesis
    proof (cases out)
      case (Inr st1)
      have "?cur \<noteq> []"
      proof
        assume "?cur = []"
        then have "find_node (ex_graph x) ?cur = None"
          using assms(1) by (auto simp: well_formed_def node_ok_def node_names_def)
        then show False using out Inr by (simp add: drive_step_def Let_def del: find_node_None)
      qed
      then have own: "owner ?cur = []" using Suc.prems(2) False by simp
      have "rc_progress (xs_ctx st1) = None"
        using drive_step_progress [OF out [unfolded Inr]] run_node_progress assms(5) Suc.prems(1) by blast
      then show ?thesis
        using Suc.IH [of st1] drive_step_owner [OF assms(2) out [unfolded Inr] own] out Inr False by simp
    qed (use out False in simp)
  qed simp
qed simp

lemma drive_returns:
  assumes "well_formed g" "structured g owner level" "agents_on_engines sv g" "\<And>n. n \<in> set (gr_nodes g) \<Longrightarrow> enough level n fuel"
    and "rc_progress c = None" "run_next_node (rc_run c) = gr_entry g"
  shows "drive fuel sv g c index resume r \<noteq> None"
proof -
  let ?x = "top_exec sv g"
  have x: "ex_graph ?x = g" "ex_services ?x = sv" "ex_depth ?x = 0" by (simp_all add: top_exec_def)
  have loop: "drive_loop steps (run_node fuel) ?x resume st \<noteq> None"
    if "drain_writes ?x [] (top_state c index r) = (res, st)" for steps res st
    using drive_loop_returns [of ?x owner level fuel st] assms drain_writes_ctx [OF that] x
    by (simp add: top_state_def structured_def)
  then show ?thesis by (simp add: drive_def Let_def del: not_None_eq split: prod.split sum.split)
qed

text \<open>
  C3. A run returns: on a structured graph whose agent nodes run on engines, \<open>run_graph\<close> ends,
  whatever the model, the tools, the callbacks and the checkpointer do, with a fuel of two more
  than the levels of its parallel nodes.
\<close>

theorem run_graph_terminates:
  assumes "structured g owner level" "agents_on_engines sv g"
    and "\<forall>n \<in> set (gr_nodes g). gn_kind n = Parallel \<longrightarrow> Suc (level (gn_name n)) < fuel" "0 < fuel"
  shows "\<exists>res run' r'. run_graph fuel sv checkpointer g run r = Some (res, run', r')"
proof -
  have "drive fuel (sv\<lparr>sv_ops := ops\<rparr>) g c index None r1 \<noteq> None"
    if "validate g = ok u" "rc_progress c = None" "run_next_node (rc_run c) = gr_entry g" for ops c index r1 u
  proof (rule drive_returns)
    show "well_formed g" using validate_iff that(1) by auto
    have same: "sv_session (sv\<lparr>sv_ops := ops\<rparr>) = sv_session sv" "sv_models (sv\<lparr>sv_ops := ops\<rparr>) = sv_models sv" by simp_all
    show "agents_on_engines (sv\<lparr>sv_ops := ops\<rparr>) g" using assms(2) unfolding agents_on_engines_def same .
    show "enough level n fuel" if "n \<in> set (gr_nodes g)" for n using assms(3,4) that by (simp add: enough_def)
  qed (fact assms(1) that)+
  then have "run_graph fuel sv checkpointer g run r \<noteq> None"
    by (simp add: run_graph_def Let_def new_ctx_def del: not_None_eq split: sum.split prod.split)
  then show ?thesis by fastforce
qed

definition sample_owner :: "string \<Rightarrow> string" where
  "sample_owner name = (if name = ''a'' \<or> name = ''b'' then ''p'' else [])"

lemma loop_graph_structured: "structured loop_graph sample_owner (\<lambda>_. 0)"
proof -
  have "gr_nodes loop_graph =
      [sample_loop, (new_node ''p'' Parallel)\<lparr>gn_branches := [''a'', ''b''], gn_exit_to := ''l''\<rparr>,
       (write_node ''a'' ''x'')\<lparr>gn_exit_to := ''p''\<rparr>, (write_node ''b'' ''temp:y'')\<lparr>gn_exit_to := ''p''\<rparr>]"
    "gr_edges loop_graph = []" "gr_entry loop_graph = ''l''"
    by (simp_all add: loop_graph_def fanout_graph_def make_loop_def make_parallel_def make_graph_def append_graph_def new_graph_def
        chain_exits_def chain_exit_def write_node_def new_node_def sample_loop_def)
  then show ?thesis
    by (auto simp: structured_def successor_def find_edge_def sample_owner_def sample_loop_def new_node_def write_node_def kGraphEnd_def)
qed

lemma sample_on_engines: "agents_on_engines graph_services loop_graph"
proof -
  have "\<not> (\<exists>n \<in> set (gr_nodes loop_graph). gn_kind n = Agent)"
    by (simp add: loop_graph_def fanout_graph_def make_loop_def make_parallel_def make_graph_def append_graph_def new_graph_def
        chain_exits_def chain_exit_def write_node_def new_node_def)
  then show ?thesis unfolding agents_on_engines_def by blast
qed

theorem run_graph_terminates_witness:
  "\<exists>res run' r'. run_graph 2 graph_services None loop_graph (new_run ''t'') graph_rt = Some (res, run', r')"
  by (rule run_graph_terminates [OF loop_graph_structured sample_on_engines]) simp_all

section \<open>How a run ends\<close>

text \<open>
  C17. However a driven run ends, its \<open>GraphRun\<close> tells how, and is clean: it returns ok exactly when
  the run is completed (and then has no next node) or interrupted, and an error exactly when its
  status is failed, with that error recorded; no \<open>temp:\<close> key, unprocessed write or interrupt
  request is left in its state, and the event vector of the caller is as before.
\<close>

theorem run_ends_clean:
  assumes "drive fuel sv g c index resume r = Some (res, run, r')"
  shows "(case res of
            Inr _ \<Rightarrow> run_status run = Run_Completed \<and> run_next_node run = [] \<or> run_status run = Run_Interrupted
          | Inl e \<Rightarrow> run_status run = Run_Failed \<and> run_error run = e) \<and>
     (\<forall>k. is_temp_key k \<longrightarrow> smap_find (gs_values (run_state run)) k = None) \<and>
     gs_written (run_state run) = [] \<and> \<not> gs_interrupt_requested (run_state run) \<and> events_of r' = events_of r"
proof -
  obtain err st r1 where f: "finish (top_exec sv g) err st = (res, run, r1)" "err = None \<longrightarrow> run_ended (rc_run (xs_ctx st))"
    "r' = set_events (events_of r) r1"
    by (rule drive_finishes [OF assms])
  have "case res of
          Inr _ \<Rightarrow> run_status run = Run_Completed \<and> run_next_node run = [] \<or> run_status run = Run_Interrupted
        | Inl e \<Rightarrow> run_status run = Run_Failed \<and> run_error run = e"
    using finish_outcome(2) [OF f(1)] f(2) by (auto simp: run_ended_def split: sum.splits)
  then show ?thesis
    using finish_outcome(1) [OF f(1)] f(3)
    by (simp add: clear_temp_find) (simp add: clear_temp_def events_of_def set_events_def)
qed

theorem run_ends_clean_witness:
  "\<exists>res run r'. drive 2 graph_services loop_graph (new_ctx ((new_run ''t'')\<lparr>run_next_node := ''l''\<rparr>)) [] None graph_rt =
       Some (res, run, r') \<and> smap_find (gs_values (run_state run)) ''temp:y'' = None"
proof -
  have wf: "well_formed loop_graph" using validate_iff [of loop_graph] loop_graph_valid by simp
  have "drive 2 graph_services loop_graph (new_ctx ((new_run ''t'')\<lparr>run_next_node := ''l''\<rparr>)) [] None graph_rt \<noteq> None"
    by (rule drive_returns [OF wf loop_graph_structured sample_on_engines])
      (simp_all add: enough_def new_ctx_def loop_graph_def make_loop_def append_graph_def new_graph_def)
  then obtain res run r' where out:
    "drive 2 graph_services loop_graph (new_ctx ((new_run ''t'')\<lparr>run_next_node := ''l''\<rparr>)) [] None graph_rt = Some (res, run, r')"
    by fastforce
  have "is_temp_key ''temp:y''" by (simp add: is_temp_key_def starts_with_def)
  then show ?thesis using run_ends_clean [OF out] out by blast
qed

end
