(* ===== verification/Checkpoint_Props.thy ===== *)
theory Checkpoint_Props
  imports Graph_Checkpoint
begin

text \<open>
  A checkpoint reads back as what was written: the printed text is the rendering of a document,
  and decoding that document restores the resumable part of the run.
\<close>

section \<open>The documents behind the text\<close>

definition values_json :: "string std_map \<Rightarrow> json" where
  "values_json vs = JObject (map (\<lambda>(k, v). (k, JString v)) (smap_erase_if is_temp_key vs))"

definition histories_json :: "flow_memory std_map \<Rightarrow> json" where
  "histories_json hs = JObject (map (\<lambda>(n, mem). (n, history_json (fm_history mem))) hs)"

definition branch_json :: "branch_progress \<Rightarrow> json" where
  "branch_json b = JObject
     [(''entry'', JString (bp_entry b)), (''status'', JString (branch_status_name (bp_status b))),
      (''next'', JString (bp_next b)), (''values'', values_json (bp_values b)),
      (''erased'', JArray (map JString (bp_erased b))), (''writes'', JArray (map JString (bp_writes b))),
      (''histories'', histories_json (bp_histories b)), (''interrupt_node'', JString (bp_interrupt_node b)),
      (''interrupt_reason'', JString (bp_interrupt_reason b)),
      (''pending_tool_calls'', JArray (map tool_call_json (bp_pending_tool_calls b))), (''error'', JString (bp_error b))]"

definition progress_json :: "parallel_progress \<Rightarrow> json" where
  "progress_json p = JObject [(''node'', JString (pp_node p)), (''branches'', JArray (map branch_json (pp_branches p)))]"

definition checkpoint_fields :: "graph_run \<Rightarrow> string \<Rightarrow> (string \<times> json) list" where
  "checkpoint_fields run graph_name =
     [(''version'', JInt 1), (''graph'', JString graph_name), (''thread_id'', JString (run_thread_id run)),
      (''step'', JInt (int (run_step run))), (''next'', JString (run_next_node run)),
      (''status'', JString (status_name (run_status run))), (''interrupt_node'', JString (run_interrupt_node run)),
      (''interrupt_reason'', JString (run_interrupt_reason run)),
      (''pending_tool_calls'', JArray (map tool_call_json (run_pending_tool_calls run))),
      (''state'', values_json (gs_values (run_state run))), (''histories'', histories_json (gs_histories (run_state run)))]"

definition checkpoint_json :: "graph_run \<Rightarrow> string \<Rightarrow> parallel_progress option \<Rightarrow> json" where
  "checkpoint_json run graph_name progress = JObject
     (checkpoint_fields run graph_name @ (case progress of None \<Rightarrow> [] | Some p \<Rightarrow> [(''parallel'', progress_json p)]))"

text \<open>Names that are printed without escaping.\<close>

lemma string_field_text [simp]:
  "append_string_field ''id'' v = quoted ''id'' @ '':'' @ quoted v"
  "append_string_field ''name'' v = quoted ''name'' @ '':'' @ quoted v"
  "append_string_field ''arguments'' v = quoted ''arguments'' @ '':'' @ quoted v"
  "append_string_field ''entry'' v = quoted ''entry'' @ '':'' @ quoted v"
  "append_string_field ''status'' v = quoted ''status'' @ '':'' @ quoted v"
  "append_string_field ''next'' v = quoted ''next'' @ '':'' @ quoted v"
  "append_string_field ''interrupt_node'' v = quoted ''interrupt_node'' @ '':'' @ quoted v"
  "append_string_field ''interrupt_reason'' v = quoted ''interrupt_reason'' @ '':'' @ quoted v"
  "append_string_field ''error'' v = quoted ''error'' @ '':'' @ quoted v"
  "append_string_field ''node'' v = quoted ''node'' @ '':'' @ quoted v"
  "append_string_field ''graph'' v = quoted ''graph'' @ '':'' @ quoted v"
  "append_string_field ''thread_id'' v = quoted ''thread_id'' @ '':'' @ quoted v"
  "append_string_field ''key'' v = quoted ''key'' @ '':'' @ quoted v"
  "append_string_field ''payload'' v = quoted ''payload'' @ '':'' @ quoted v"
  by (simp_all add: append_string_field_def quoted_def escape_json_string_def escape_char_def)

lemma checkpoint_names [simp]:
  "utf8_text ''entry''" "utf8_text ''status''" "utf8_text ''next''" "utf8_text ''values''" "utf8_text ''erased''"
  "utf8_text ''writes''" "utf8_text ''histories''" "utf8_text ''interrupt_node''" "utf8_text ''interrupt_reason''"
  "utf8_text ''pending_tool_calls''" "utf8_text ''error''" "utf8_text ''node''" "utf8_text ''branches''"
  "utf8_text ''version''" "utf8_text ''graph''" "utf8_text ''thread_id''" "utf8_text ''step''" "utf8_text ''state''"
  "utf8_text ''parallel''" "utf8_text ''type''" "utf8_text ''ts''" "utf8_text ''key''" "utf8_text ''payload''"
  "utf8_text ''pending''" "utf8_text ''running''" "utf8_text ''done''" "utf8_text ''interrupted''" "utf8_text ''failed''"
  "utf8_text ''completed''"
  by (rule ascii_text, simp)+

lemma render_calls: "render (JArray (map tool_call_json cs)) = encode_calls cs"
  by (simp add: encode_calls_def comp_def render_tool_call encode_tool_call_def)

lemma render_values: "render (values_json vs) = encode_values vs"
  by (simp add: values_json_def encode_values_def smap_erase_if_def comp_def case_prod_beta')

lemma render_strings: "render (JArray (map JString xs)) = encode_strings xs"
  by (simp add: encode_strings_def comp_def)

lemma render_histories: "render (histories_json hs) = encode_histories hs"
  by (simp add: histories_json_def encode_histories_def comp_def case_prod_beta' render_history)

lemmas render_parts = render_calls render_values render_strings render_histories

lemma render_branch: "render (branch_json b) = encode_branch b"
  using render_parts by (simp add: branch_json_def encode_branch_def)

lemma render_progress: "render (progress_json p) = encode_progress p"
  by (simp add: progress_json_def encode_progress_def comp_def render_branch)

lemma to_string_1: "to_string (Suc 0) = ''1''"
  by code_simp

lemma render_checkpoint: "render (checkpoint_json run g progress) = encode_checkpoint run g progress"
  using render_parts to_string_1
  by (simp add: checkpoint_json_def checkpoint_fields_def encode_checkpoint_def render_progress to_string_int_def
      split: option.split)

section \<open>Reading the documents\<close>

lemma objects_of_calls: "map decode_tool_call (objects_of (map tool_call_json cs)) = cs"
  by (induction cs) (simp_all add: tool_call_json_def decode_tool_call_def string_field_def)

lemma decode_calls_json: "decode_calls (JArray (map tool_call_json cs)) = ok cs"
  by (simp add: decode_calls_def objects_of_calls)

lemma decode_value_fields_json:
  "decode_value_fields (map (\<lambda>(k, v). (k, JString v)) vs) out = ok (smap_put_all vs out)"
  by (induction vs arbitrary: out) (auto simp: smap_put_all_def)

lemma decode_values_json:
  "smap_ok vs \<Longrightarrow> decode_values (values_json vs) [] = ok (smap_erase_if is_temp_key vs)"
  by (simp add: decode_values_def values_json_def decode_value_fields_json put_all_empty smap_ok_erase_if)

lemma decode_string_items_json: "decode_string_items (map JString xs) out = ok (out @ xs)"
  by (induction xs arbitrary: out) simp_all

lemma decode_strings_json: "decode_strings (JArray (map JString xs)) out = ok (out @ xs)"
  by (simp add: decode_strings_def decode_string_items_json)

definition raw_of :: "flow_memory std_map \<Rightarrow> raw_histories" where
  "raw_of hs = map (\<lambda>(n, mem). (n, encode_history_json (fm_history mem))) hs"

lemma collect_histories_json: "collect_histories (histories_json hs) out = ok (out @ raw_of hs)"
  by (simp add: collect_histories_def histories_json_def raw_of_def comp_def case_prod_beta' render_history)

text \<open>What is restored of a conversation: its messages, under the id of the thread and the node.\<close>

definition stored_memory :: "string \<Rightarrow> string \<Rightarrow> flow_memory \<Rightarrow> flow_memory" where
  "stored_memory thread_id n mem =
     \<lparr>fm_id = thread_id @ '':'' @ n, fm_history = map stored_message (fm_history mem), fm_stats = turn_stats_zero\<rparr>"

definition stored_histories :: "string \<Rightarrow> flow_memory std_map \<Rightarrow> flow_memory std_map" where
  "stored_histories thread_id hs = map (\<lambda>(n, mem). (n, stored_memory thread_id n mem)) hs"

lemma stored_histories_keys [simp]: "map fst (stored_histories t hs) = map fst hs"
  by (simp add: stored_histories_def comp_def case_prod_beta')

lemma smap_ok_stored [simp]: "smap_ok (stored_histories t hs) = smap_ok hs"
  unfolding smap_ok_def by simp

definition histories_utf8 :: "flow_memory std_map \<Rightarrow> bool" where
  "histories_utf8 hs \<longleftrightarrow> list_all (\<lambda>(n, mem). utf8_text n \<and> list_all message_utf8 (fm_history mem)) hs"

definition values_utf8 :: "string std_map \<Rightarrow> bool" where
  "values_utf8 vs \<longleftrightarrow> list_all (\<lambda>(k, v). utf8_text k \<and> utf8_text v) vs"

definition calls_utf8 :: "tool_call list \<Rightarrow> bool" where
  "calls_utf8 cs \<longleftrightarrow> list_all (\<lambda>tc. utf8_text (tc_id tc) \<and> utf8_text (tc_name tc) \<and> utf8_text (tc_arguments tc)) cs"

lemma length_sep_by: "x \<in> set xs \<Longrightarrow> length x \<le> length (sep_by s xs)"
  by (induction s xs rule: sep_by.induct) auto

lemma history_length: "(n, mem) \<in> set hs \<Longrightarrow> length (encode_history_json (fm_history mem)) \<le> length (encode_histories hs)"
  using length_sep_by [of "quoted n @ '':'' @ encode_history_json (fm_history mem)"
      "map (\<lambda>(n, mem). quoted n @ '':'' @ encode_history_json (fm_history mem)) hs" "'',''"]
  by (force simp: encode_histories_def)

context json_reader
begin

lemma build_histories_raw:
  assumes "histories_utf8 hs" "length (encode_histories hs) \<le> json_max_size"
  shows "build_histories parse t (raw_of hs) out = ok (smap_put_all (stored_histories t hs) out)"
proof -
  have "\<forall>(n, mem) \<in> set hs. decode_history_json parse (encode_history_json (fm_history mem)) = ok (map stored_message (fm_history mem))"
    using assms history_length [of _ _ hs] le_trans
    by (fastforce simp: histories_utf8_def list_all_iff intro!: decode_encode_history)
  then show ?thesis
    by (induction hs arbitrary: out)
      (auto simp: raw_of_def stored_histories_def stored_memory_def smap_put_all_def)
qed

lemma build_histories_new:
  assumes "histories_utf8 hs" "length (encode_histories hs) \<le> json_max_size" "smap_ok hs"
  shows "build_histories parse t (raw_of hs) [] = ok (stored_histories t hs)"
  using build_histories_raw [OF assms(1,2), of t "[]"] assms(3) by (simp add: put_all_empty)

end

section \<open>Branches\<close>

lemma parse_status_name [simp]: "parse_status (status_name s) = s"
  by (cases s) (simp_all add: parse_status_def status_name_def)

lemma parse_branch_status_name [simp]: "parse_branch_status (branch_status_name s) = s"
  by (cases s) (simp_all add: parse_branch_status_def branch_status_name_def)

lemma set_string_JString [simp]: "set_string (JString t) upd old = upd t"
  by (simp add: set_string_def)

lemma fold_result_append:
  "fold_result f (xs @ ys) acc = (case fold_result f xs acc of Inl e \<Rightarrow> Inl e | Inr acc' \<Rightarrow> fold_result f ys acc')"
  by (induction xs arbitrary: acc) (auto split: sum.split)

definition branch_utf8 :: "branch_progress \<Rightarrow> bool" where
  "branch_utf8 b \<longleftrightarrow> utf8_text (bp_entry b) \<and> utf8_text (bp_next b) \<and> values_utf8 (bp_values b) \<and>
     list_all utf8_text (bp_erased b) \<and> list_all utf8_text (bp_writes b) \<and> histories_utf8 (bp_histories b) \<and>
     utf8_text (bp_interrupt_node b) \<and> utf8_text (bp_interrupt_reason b) \<and> calls_utf8 (bp_pending_tool_calls b) \<and>
     utf8_text (bp_error b)"

definition progress_utf8 :: "parallel_progress \<Rightarrow> bool" where
  "progress_utf8 p \<longleftrightarrow> utf8_text (pp_node p) \<and> list_all branch_utf8 (pp_branches p)"

definition progress_sorted :: "parallel_progress \<Rightarrow> bool" where
  "progress_sorted p \<longleftrightarrow> list_all (\<lambda>b. smap_ok (bp_values b) \<and> smap_ok (bp_histories b)) (pp_branches p)"

text \<open>A branch as the loop over its members leaves it, and as it is finally restored.\<close>

definition read_branch :: "branch_progress \<Rightarrow> branch_progress" where
  "read_branch b = b\<lparr>bp_values := smap_erase_if is_temp_key (bp_values b), bp_histories := []\<rparr>"

definition stored_branch :: "string \<Rightarrow> branch_progress \<Rightarrow> branch_progress" where
  "stored_branch t b =
     b\<lparr>bp_values := smap_erase_if is_temp_key (bp_values b), bp_histories := stored_histories t (bp_histories b)\<rparr>"

definition stored_progress :: "string \<Rightarrow> parallel_progress \<Rightarrow> parallel_progress" where
  "stored_progress t p = p\<lparr>pp_branches := map (stored_branch t) (pp_branches p)\<rparr>"

lemma decode_branch_json:
  assumes "smap_ok (bp_values b)"
  shows "decode_branch (branch_json b) (p, raws) =
     ok (p\<lparr>pp_branches := pp_branches p @ [read_branch b]\<rparr>, raws @ [raw_of (bp_histories b)])"
  using decode_values_json [OF assms]
  by (simp add: decode_branch_def branch_json_def decode_branch_field_def new_progress_def decode_strings_json
      collect_histories_json decode_calls_json read_branch_def)

lemma decode_branches_json:
  assumes "\<forall>b \<in> set bs. smap_ok (bp_values b)"
  shows "fold_result decode_branch (map branch_json bs) (p, raws) =
     ok (p\<lparr>pp_branches := pp_branches p @ map read_branch bs\<rparr>, raws @ map (\<lambda>b. raw_of (bp_histories b)) bs)"
  using assms by (induction bs arbitrary: p raws) (simp_all add: decode_branch_json)

lemma decode_progress_json:
  assumes "progress_sorted p"
  shows "decode_progress (progress_json p) (\<lparr>pp_node = [], pp_branches = []\<rparr>, []) =
     ok (p\<lparr>pp_branches := map read_branch (pp_branches p)\<rparr>, map (\<lambda>b. raw_of (bp_histories b)) (pp_branches p))"
  using assms decode_branches_json [of "pp_branches p" "\<lparr>pp_node = pp_node p, pp_branches = []\<rparr>" "[]"]
  by (simp add: decode_progress_def progress_json_def decode_progress_field_def progress_sorted_def list_all_iff)

lemma branch_length: "b \<in> set (pp_branches p) \<Longrightarrow> length (encode_histories (bp_histories b)) \<le> length (encode_progress p)"
  using length_sep_by [of "encode_branch b" "map encode_branch (pp_branches p)" "'',''"]
  by (simp add: encode_progress_def encode_branch_def)

context json_reader
begin

lemma build_branches:
  assumes "\<forall>b \<in> set bs. histories_utf8 (bp_histories b) \<and> smap_ok (bp_histories b) \<and>
      length (encode_histories (bp_histories b)) \<le> json_max_size"
  shows "fold_result (build_branch parse t) (zip (map read_branch bs) (map (\<lambda>b. raw_of (bp_histories b)) bs)) out =
     ok (out @ map (stored_branch t) bs)"
  using assms
proof (induction bs arbitrary: out)
  case (Cons b bs)
  then have "build_histories parse t (raw_of (bp_histories b)) [] = ok (stored_histories t (bp_histories b))"
    by (intro build_histories_new) auto
  then have "build_branch parse t (read_branch b, raw_of (bp_histories b)) out = ok (out @ [stored_branch t b])"
    by (simp add: build_branch_def read_branch_def stored_branch_def)
  with Cons show ?case by simp
qed simp

end

section \<open>The whole document\<close>

lemma values_json_ok: "values_utf8 vs \<Longrightarrow> json_ok (values_json vs)"
  by (auto simp: values_json_def values_utf8_def list_all_iff smap_erase_if_def)

lemma histories_json_ok: "histories_utf8 hs \<Longrightarrow> json_ok (histories_json hs)"
  by (fastforce simp: histories_json_def histories_utf8_def history_json_def list_all_iff intro!: message_json_ok)

lemma calls_json_ok: "calls_utf8 cs \<Longrightarrow> json_ok (JArray (map tool_call_json cs))"
  by (auto simp: calls_utf8_def tool_call_json_def list_all_iff)

lemma strings_json_ok: "list_all utf8_text xs \<Longrightarrow> json_ok (JArray (map JString xs))"
  by (auto simp: list_all_iff)

lemma branch_json_ok: "branch_utf8 b \<Longrightarrow> json_ok (branch_json b)"
  using values_json_ok [of "bp_values b"] histories_json_ok [of "bp_histories b"] calls_json_ok [of "bp_pending_tool_calls b"]
    strings_json_ok [of "bp_erased b"] strings_json_ok [of "bp_writes b"]
  by (simp add: branch_json_def branch_utf8_def branch_status_name_def split: branch_status.split)

lemma progress_json_ok: "progress_utf8 p \<Longrightarrow> json_ok (progress_json p)"
  by (auto simp: progress_json_def progress_utf8_def list_all_iff branch_json_ok)

lemma depth_calls: "json_depth (JArray (map tool_call_json cs)) \<le> 2"
proof -
  have "foldr max (map (json_depth \<circ> tool_call_json) cs) 0 \<le> 1"
    by (rule foldr_max_le) (auto simp: tool_call_json_def)
  then show ?thesis by simp
qed

lemma depth_strings: "json_depth (JArray (map JString xs)) \<le> 1"
  using foldr_max_le [of "map (json_depth \<circ> JString) xs" 0] by simp

lemma depth_values: "json_depth (values_json vs) \<le> 1"
proof -
  have "foldr max (map (\<lambda>(k, v). json_depth v) (map (\<lambda>(k, v). (k, JString v)) (smap_erase_if is_temp_key vs))) 0 \<le> 0"
    by (rule foldr_max_le) auto
  then show ?thesis by (simp add: values_json_def)
qed

lemma depth_histories: "json_depth (histories_json hs) \<le> 5"
proof -
  have "foldr max (map (\<lambda>(k, v). json_depth v) (map (\<lambda>(n, mem). (n, history_json (fm_history mem))) hs)) 0 \<le> 4"
    by (rule foldr_max_le) (auto simp: history_depth)
  then show ?thesis by (simp add: histories_json_def)
qed

lemma depth_branch: "json_depth (branch_json b) \<le> 6"
  using depth_calls [of "bp_pending_tool_calls b"] depth_strings [of "bp_erased b"] depth_strings [of "bp_writes b"]
    depth_values [of "bp_values b"] depth_histories [of "bp_histories b"]
  by (simp add: branch_json_def)

lemma depth_progress: "json_depth (progress_json p) \<le> 8"
proof -
  have "foldr max (map (json_depth \<circ> branch_json) (pp_branches p)) 0 \<le> 6"
    by (rule foldr_max_le) (auto simp: depth_branch)
  then show ?thesis by (simp add: progress_json_def)
qed

lemma depth_checkpoint: "json_depth (checkpoint_json run g progress) \<le> 9"
  using depth_calls [of "run_pending_tool_calls run"] depth_values [of "gs_values (run_state run)"]
    depth_histories [of "gs_histories (run_state run)"] depth_progress [of "the progress"]
  by (cases progress) (simp_all add: checkpoint_json_def checkpoint_fields_def)

text \<open>The strings of a checkpoint are UTF-8 and its step is a 63-bit number.\<close>

definition checkpoint_utf8 :: "graph_run \<Rightarrow> string \<Rightarrow> parallel_progress option \<Rightarrow> bool" where
  "checkpoint_utf8 run g progress \<longleftrightarrow> utf8_text g \<and> utf8_text (run_thread_id run) \<and> run_step run < 2 ^ 63 \<and>
     utf8_text (run_next_node run) \<and> utf8_text (run_interrupt_node run) \<and> utf8_text (run_interrupt_reason run) \<and>
     calls_utf8 (run_pending_tool_calls run) \<and> values_utf8 (gs_values (run_state run)) \<and>
     histories_utf8 (gs_histories (run_state run)) \<and> (case progress of None \<Rightarrow> True | Some p \<Rightarrow> progress_utf8 p)"

text \<open>The maps of the run are maps.\<close>

definition state_sorted :: "graph_state \<Rightarrow> bool" where
  "state_sorted st \<longleftrightarrow> smap_ok (gs_values st) \<and> smap_ok (gs_histories st)"

text \<open>The run \<open>out\<close> after reading a checkpoint of \<open>run\<close>.\<close>

definition restored_run :: "graph_run \<Rightarrow> graph_run \<Rightarrow> graph_run" where
  "restored_run run out =
     out\<lparr>run_step := run_step run, run_next_node := run_next_node run, run_status := run_status run,
        run_interrupt_node := run_interrupt_node run, run_interrupt_reason := run_interrupt_reason run,
        run_pending_tool_calls := run_pending_tool_calls run,
        run_state := (run_state out)\<lparr>gs_values := smap_erase_if is_temp_key (gs_values (run_state run)),
          gs_histories := stored_histories (run_thread_id out) (gs_histories (run_state run))\<rparr>\<rparr>"

lemma checkpoint_json_ok:
  assumes "checkpoint_utf8 run g progress"
  shows "json_ok (checkpoint_json run g progress)"
proof -
  have "json_ok (values_json (gs_values (run_state run)))" "json_ok (histories_json (gs_histories (run_state run)))"
    "json_ok (JArray (map tool_call_json (run_pending_tool_calls run)))" "utf8_text (status_name (run_status run))"
    using assms values_json_ok histories_json_ok calls_json_ok
    by (auto simp: checkpoint_utf8_def status_name_def split: graph_run_status.split)
  moreover have "int (run_step run) < 2 ^ 63" using assms by (simp add: checkpoint_utf8_def nat_less_iff)
  ultimately show ?thesis
    using assms progress_json_ok
    by (cases progress) (simp_all add: checkpoint_json_def checkpoint_fields_def checkpoint_utf8_def)
qed

lemma checkpoint_length:
  "length (encode_histories (gs_histories (run_state run))) \<le> length (encode_checkpoint run g progress)"
  "length (encode_progress p) \<le> length (encode_checkpoint run g (Some p))"
  by (simp_all add: encode_checkpoint_def)

lemma get_uint64_int [simp]: "get_uint64 (Some (JInt (int n))) = Some n"
  by (simp add: get_uint64_def)

lemma decode_root_append:
  "decode_root want (xs @ ys) d =
     (case decode_root want xs d of (Inl e, d') \<Rightarrow> (Inl e, d') | (Inr _, d') \<Rightarrow> decode_root want ys d')"
  by (induction xs arbitrary: d) (auto split: prod.split sum.split)

lemma decode_checkpoint_fields:
  assumes "state_sorted (run_state run)"
  shows "decode_root want (checkpoint_fields run g)
     \<lparr>dv_out = out, dv_values = [], dv_raw_histories = [], dv_parallel = pp, dv_found_progress = False\<rparr> =
     (ok (), \<lparr>dv_out = out\<lparr>run_step := run_step run, run_next_node := run_next_node run, run_status := run_status run,
          run_interrupt_node := run_interrupt_node run, run_interrupt_reason := run_interrupt_reason run,
          run_pending_tool_calls := run_pending_tool_calls run\<rparr>,
        dv_values = smap_erase_if is_temp_key (gs_values (run_state run)),
        dv_raw_histories = raw_of (gs_histories (run_state run)), dv_parallel = pp, dv_found_progress = False\<rparr>)"
  using decode_values_json [of "gs_values (run_state run)"] assms
  by (simp add: checkpoint_fields_def decode_root_field_def decode_calls_json collect_histories_json state_sorted_def Let_def)

context json_reader
begin

lemma decode_encode_checkpoint:
  assumes utf8: "checkpoint_utf8 run g progress"
    and sorted: "state_sorted (run_state run)" "case progress of None \<Rightarrow> True | Some p \<Rightarrow> progress_sorted p"
    and size: "length (encode_checkpoint run g progress) \<le> json_max_size"
  shows "decode_checkpoint parse (encode_checkpoint run g progress) True out =
     (ok (), restored_run run out, map_option (stored_progress (run_thread_id out)) progress)"
proof -
  have parsed: "parse (encode_checkpoint run g progress) = Some (checkpoint_json run g progress)"
    unfolding render_checkpoint [symmetric]
    using checkpoint_json_ok [OF utf8] size depth_checkpoint [of run g progress]
    by (intro parse_render) (simp_all add: render_checkpoint json_max_depth_def)
  note fields = decode_checkpoint_fields [OF sorted(1)]
  have hs: "build_histories parse t (raw_of (gs_histories (run_state run))) [] = ok (stored_histories t (gs_histories (run_state run)))" for t
    using utf8 sorted(1) le_trans [OF checkpoint_length(1) size]
    by (intro build_histories_new) (auto simp: checkpoint_utf8_def state_sorted_def)
  show ?thesis
  proof (cases progress)
    case None
    then show ?thesis
      using parsed fields hs by (simp add: decode_checkpoint_def checkpoint_json_def restored_run_def Let_def)
  next
    case (Some p)
    have "\<forall>b \<in> set (pp_branches p). histories_utf8 (bp_histories b) \<and> smap_ok (bp_histories b) \<and>
        length (encode_histories (bp_histories b)) \<le> json_max_size"
      using utf8 sorted(2) size branch_length [of _ p] checkpoint_length(2) [of p run g]
      by (fastforce simp: Some checkpoint_utf8_def progress_utf8_def branch_utf8_def progress_sorted_def list_all_iff)
    note bs = build_branches [OF this]
    have "decode_root_field True (''parallel'', progress_json p) d =
        (ok (), d\<lparr>dv_found_progress := True, dv_parallel := (p\<lparr>pp_branches := map read_branch (pp_branches p)\<rparr>,
          map (\<lambda>b. raw_of (bp_histories b)) (pp_branches p))\<rparr>)"
      if "dv_parallel d = (\<lparr>pp_node = [], pp_branches = []\<rparr>, [])" for d
      using that decode_progress_json [of p] sorted(2) Some by (simp add: decode_root_field_def)
    then show ?thesis
      using parsed fields hs bs Some
      by (simp add: decode_checkpoint_def checkpoint_json_def restored_run_def stored_progress_def decode_root_append Let_def)
  qed
qed

end

section \<open>The event log\<close>

definition event_json :: "graph_event \<Rightarrow> json" where
  "event_json e = JObject
     [(''type'', JInt (event_number (ge_type e))), (''node'', JString (ge_node e)), (''key'', JString (ge_key e)),
      (''ts'', JInt (ge_timestamp_ms e)), (''payload'', JString (ge_payload e))]"

lemma render_events: "render (JArray (map event_json es)) = encode_events es"
proof -
  have "render (event_json e) = encode_event e" for e by (simp add: event_json_def encode_event_def)
  then show ?thesis by (simp add: encode_events_def comp_def)
qed

text \<open>An event as the runtime logs it: one of the enumerators, UTF-8 strings, a 64-bit time.\<close>

definition event_plain :: "graph_event \<Rightarrow> bool" where
  "event_plain e \<longleftrightarrow> (case ge_type e of Unknown_Event _ \<Rightarrow> False | _ \<Rightarrow> True) \<and> utf8_text (ge_node e) \<and>
     utf8_text (ge_key e) \<and> utf8_text (ge_payload e) \<and> - (2 ^ 63) \<le> ge_timestamp_ms e \<and> ge_timestamp_ms e < 2 ^ 63"

lemma event_of_event_number: "(case t of Unknown_Event _ \<Rightarrow> False | _ \<Rightarrow> True) \<Longrightarrow> event_of_number (event_number t) = t"
  by (cases t) (simp_all add: event_of_number_def event_number_def to_int32_def)

lemma event_number_range: "(case t of Unknown_Event _ \<Rightarrow> False | _ \<Rightarrow> True) \<Longrightarrow> 0 \<le> event_number t \<and> event_number t \<le> 9"
  by (cases t) (simp_all add: event_number_def)

lemma decode_event_json:
  assumes "event_plain e"
  shows "decode_event (event_json e) out = ok (out @ [e])"
  using assms event_of_event_number [of "ge_type e"]
  by (simp add: decode_event_def event_json_def decode_event_field_def event_plain_def)

lemma decode_event_list: "list_all event_plain es \<Longrightarrow> fold_result decode_event (map event_json es) out = ok (out @ es)"
  by (induction es arbitrary: out) (simp_all add: decode_event_json)

lemma event_json_ok: "event_plain e \<Longrightarrow> json_ok (event_json e)"
  using event_number_range [of "ge_type e"] by (auto simp: event_json_def event_plain_def)

lemma depth_events: "json_depth (JArray (map event_json es)) \<le> 2"
proof -
  have "foldr max (map (json_depth \<circ> event_json) es) 0 \<le> 1"
    by (rule foldr_max_le) (auto simp: event_json_def)
  then show ?thesis by simp
qed

context json_reader
begin

lemma decode_encode_events:
  assumes "list_all event_plain es" "length (encode_events es) \<le> json_max_size"
  shows "decode_events parse (encode_events es) out = ok (out @ es)"
proof -
  have "parse (encode_events es) = Some (JArray (map event_json es))"
    unfolding render_events [symmetric]
    using assms depth_events [of es] event_json_ok
    by (intro parse_render) (auto simp: render_events [symmetric] json_max_depth_def list_all_iff)
  then show ?thesis by (simp add: decode_events_def decode_event_list assms(1))
qed

end

section \<open>Properties\<close>

text \<open>
  C20. A checkpoint restores the run it was taken of: reading the text of \<open>encode_checkpoint\<close> with
  any JSON reader that keeps the reader's contract gives back the step, the next node, the
  status, the interrupt with its pending tool calls, every state value but the \<open>temp:\<close> ones, the
  messages of every agent conversation, and the progress of every branch of an unfinished
  fan-out.
\<close>

theorem checkpoint_round_trip:
  assumes "json_reader parse" "checkpoint_utf8 run g progress" "state_sorted (run_state run)"
    and "case progress of None \<Rightarrow> True | Some p \<Rightarrow> progress_sorted p"
    and "length (encode_checkpoint run g progress) \<le> json_max_size"
  shows "decode_checkpoint parse (encode_checkpoint run g progress) True out =
     (ok (), restored_run run out, map_option (stored_progress (run_thread_id out)) progress)"
  by (rule json_reader.decode_encode_checkpoint [OF assms])

definition sample_run :: graph_run where
  "sample_run = (new_run ''t'')\<lparr>run_state := empty_state\<lparr>gs_values := [(''a'', ''1''), (''temp:x'', ''2'')],
     gs_histories := [(''n'', sample_memory sample_history)]\<rparr>, run_step := 3, run_next_node := ''p'',
     run_status := Run_Interrupted, run_pending_tool_calls := [sample_call]\<rparr>"

definition sample_progress :: parallel_progress where
  "sample_progress = \<lparr>pp_node = ''p'', pp_branches =
     [(new_progress ''b'' ''b'')\<lparr>bp_status := Branch_Done, bp_values := [(''k'', ''v'')], bp_writes := [''k'']\<rparr>]\<rparr>"

lemma sample_memory_utf8: "list_all message_utf8 (fm_history (sample_memory sample_history))"
  by (auto simp: sample_memory_def sample_history_def new_message_def message_utf8_def sample_call_def intro!: ascii_text)

theorem checkpoint_round_trip_witness:
  "decode_checkpoint json_parse (encode_checkpoint sample_run ''g'' (Some sample_progress)) True (new_run ''t'') =
     (ok (), (new_run ''t'')\<lparr>run_state := empty_state\<lparr>gs_values := [(''a'', ''1'')],
        gs_histories := [(''n'', stored_memory ''t'' ''n'' (sample_memory sample_history))]\<rparr>, run_step := 3, run_next_node := ''p'',
        run_status := Run_Interrupted, run_pending_tool_calls := [sample_call]\<rparr>, Some sample_progress)"
proof -
  have "checkpoint_utf8 sample_run ''g'' (Some sample_progress)"
    using sample_memory_utf8
    by (auto simp: checkpoint_utf8_def sample_run_def new_run_def empty_state_def calls_utf8_def sample_call_def values_utf8_def
        histories_utf8_def sample_progress_def progress_utf8_def branch_utf8_def new_progress_def intro!: ascii_text)
  moreover have "length (encode_checkpoint sample_run ''g'' (Some sample_progress)) \<le> json_max_size"
    using to_string_length [of 1 3]
    by (simp add: encode_checkpoint_def sample_run_def new_run_def empty_state_def sample_progress_def new_progress_def
        encode_progress_def encode_branch_def encode_calls_def encode_values_def encode_strings_def encode_histories_def
        sample_memory_def sample_history_def encode_history_json_def encode_message_def new_message_def sample_call_def
        encode_tool_call_def status_name_def branch_status_name_def is_temp_key_def starts_with_def
        quoted_def escape_json_string_def escape_char_def json_max_size_def)
  moreover have "state_sorted (run_state sample_run)" "progress_sorted sample_progress"
    by (simp_all add: state_sorted_def sample_run_def smap_ok_def empty_state_def progress_sorted_def sample_progress_def
        new_progress_def)
  ultimately show ?thesis
    using checkpoint_round_trip [OF reference.json_reader_axioms, of sample_run "''g''" "Some sample_progress" "new_run ''t''"]
    by (simp add: restored_run_def sample_run_def new_run_def empty_state_def stored_progress_def sample_progress_def
        stored_branch_def stored_histories_def new_progress_def smap_erase_if_def is_temp_key_def starts_with_def)
qed

text \<open>
  The event log: a batch of events the runtime logged, printed by \<open>encode_events\<close>, is read back
  by \<open>decode_events\<close> unchanged, after the events already read.
\<close>

theorem event_log_round_trip:
  assumes "json_reader parse" "list_all event_plain es" "length (encode_events es) \<le> json_max_size"
  shows "decode_events parse (encode_events es) out = ok (out @ es)"
  by (rule json_reader.decode_encode_events [OF assms])

definition sample_event :: graph_event where
  "sample_event = \<lparr>ge_type = Ev_StateWrite, ge_node = ''n'', ge_key = ''k'', ge_timestamp_ms = 7, ge_payload = ''v''\<rparr>"

theorem event_log_round_trip_witness:
  "decode_events json_parse (encode_events [sample_event]) [] = ok [sample_event]"
proof -
  have "list_all event_plain [sample_event]"
    by (simp add: event_plain_def sample_event_def ascii_text)
  moreover have "length (encode_events [sample_event]) \<le> json_max_size"
    using to_string_length [of 1 2] to_string_length [of 1 7]
    by (simp add: encode_events_def encode_event_def sample_event_def event_number_def to_string_int_def quoted_def
        escape_json_string_def escape_char_def json_max_size_def)
  ultimately show ?thesis
    using event_log_round_trip [OF reference.json_reader_axioms, of "[sample_event]" "[]"] by simp
qed

end
