(* ===== verification/Checkpointer_Props.thy ===== *)
theory Checkpointer_Props
  imports Checkpointer
begin

text \<open>
  The contract of \<open>CheckpointerOps\<close> as a locale, with the in-memory checkpointer and the store
  adapter as its instances. \<open>saved s t\<close> maps the steps of thread \<open>t\<close> to their checkpoints. As the
  header demands, the steps of a thread only grow; checkpoints are never empty.
\<close>

section \<open>The contract\<close>

locale checkpointer =
  fixes ops :: "'s checkpointer_ops"
    and saved :: "'s \<Rightarrow> string \<Rightarrow> nat \<rightharpoonup> string"
    and inv :: "'s \<Rightarrow> bool"
  assumes saved_finite: "inv s \<Longrightarrow> finite (dom (saved s t))"
    and put_saved: "\<lbrakk>inv s; b \<noteq> []; \<forall>k \<in> dom (saved s t). k \<le> n; n < 2 ^ 64; co_put ops t n b md now s = (ok u, s')\<rbrakk> \<Longrightarrow>
      inv s' \<and> saved s' = (saved s)(t := (saved s t)(n \<mapsto> b))"
    and get_saved: "\<lbrakk>inv s; co_get ops t n s = (res, s')\<rbrakk> \<Longrightarrow> inv s' \<and> saved s' = saved s \<and>
      (case saved s t n of Some b \<Rightarrow> res = ok b | None \<Rightarrow> \<exists>msg. res = fail KeyNotFound msg)"
    and get_latest_saved: "\<lbrakk>inv s; co_get_latest ops t s = (res, s')\<rbrakk> \<Longrightarrow> inv s' \<and> saved s' = saved s \<and>
      (if dom (saved s t) = {} then \<exists>msg. res = fail KeyNotFound msg
       else res = ok (the (saved s t (Max (dom (saved s t))))))"
    and list_saved: "\<lbrakk>inv s; co_list ops t s = (lres, s')\<rbrakk> \<Longrightarrow> inv s' \<and> saved s' = saved s \<and>
      (\<exists>infos. lres = ok infos \<and> map ci_step infos = sorted_list_of_set (dom (saved s t)))"
    and delete_saved: "\<lbrakk>inv s; co_delete_thread ops t s = (ok u, s')\<rbrakk> \<Longrightarrow>
      inv s' \<and> saved s' = (saved s)(t := Map.empty)"
begin

text \<open>What a run relies on: the last checkpoint it wrote is the one a resume reads.\<close>

lemma latest_after_put:
  assumes "inv s" "b \<noteq> []" "\<forall>k \<in> dom (saved s t). k \<le> n" "n < 2 ^ 64" "co_put ops t n b md now s = (ok u, s')"
  shows "fst (co_get_latest ops t s') = ok b"
proof -
  note s' = put_saved [OF assms]
  obtain res s2 where get: "co_get_latest ops t s' = (res, s2)" by (cases "co_get_latest ops t s'")
  have dom: "dom (saved s' t) = insert n (dom (saved s t))" using s' by auto
  have "Max (dom (saved s' t)) = n"
    using assms(3) saved_finite [OF assms(1)] by (intro Max_eqI) (auto simp: dom)
  then show ?thesis using get_latest_saved [OF conjunct1 [OF s'] get] s' dom get by simp
qed

lemma get_after_put:
  assumes "inv s" "b \<noteq> []" "\<forall>k \<in> dom (saved s t). k \<le> n" "n < 2 ^ 64" "co_put ops t n b md now s = (ok u, s')"
    and "saved s t' k = Some b'" "t' \<noteq> t \<or> k \<noteq> n"
  shows "fst (co_get ops t' k s') = ok b'"
proof -
  note s' = put_saved [OF assms(1-5)]
  obtain res s2 where get: "co_get ops t' k s' = (res, s2)" by (cases "co_get ops t' k s'")
  have "saved s' t' k = Some b'" using s' assms(6,7) by auto
  then show ?thesis using get_saved [OF conjunct1 [OF s'] get] get by simp
qed

lemma nothing_after_delete:
  assumes "inv s" "co_delete_thread ops t s = (ok u, s')"
  shows "\<exists>msg. fst (co_get_latest ops t s') = fail KeyNotFound msg"
proof -
  note s' = delete_saved [OF assms]
  obtain res s2 where get: "co_get_latest ops t s' = (res, s2)" by (cases "co_get_latest ops t s'")
  show ?thesis using get_latest_saved [OF conjunct1 [OF s'] get] s' get by auto
qed

end

section \<open>The in-memory checkpointer\<close>

definition steps_ok :: "(nat \<times> 'v) list \<Rightarrow> bool" where
  "steps_ok m \<longleftrightarrow> sorted_wrt (<) (map fst m)"

lemma step_put_keys: "fst ` set (step_put n v m) = insert n (fst ` set m)"
  by (induction n v m rule: step_put.induct) auto

lemma steps_ok_put: "steps_ok m \<Longrightarrow> steps_ok (step_put n v m)"
proof (induction n v m rule: step_put.induct)
  case (2 n v k x m)
  then show ?case using step_put_keys [of n v m] by (auto simp: steps_ok_def)
qed (simp add: steps_ok_def)

lemma map_of_step_put: "map_of (step_put n v m) = (map_of m)(n \<mapsto> v)"
  by (induction n v m rule: step_put.induct) (auto simp: fun_eq_iff)

lemma last_of_sorted: "sorted xs \<Longrightarrow> xs \<noteq> [] \<Longrightarrow> last xs = Max (set xs)"
  by (induction xs rule: rev_induct) (auto simp: sorted_append intro: Max_eqI [symmetric])

lemma steps_ok_last:
  assumes "steps_ok m" "m \<noteq> []"
  shows "fst (last m) = Max (fst ` set m)" "map_of m (Max (fst ` set m)) = Some (snd (last m))"
proof -
  have *: "sorted_wrt (<) (map fst m)" using assms(1) by (simp add: steps_ok_def)
  then have d: "distinct (map fst m)" "sorted (map fst m)"
    by (auto simp: strict_sorted_iff)
  have "last (map fst m) = Max (set (map fst m))"
    using d assms(2) last_of_sorted [of "map fst m"] by simp
  then show mx: "fst (last m) = Max (fst ` set m)" using assms(2) by (simp add: last_map)
  have "(fst (last m), snd (last m)) \<in> set m" using assms(2) by simp
  then show "map_of m (Max (fst ` set m)) = Some (snd (last m))"
    using d(1) mx map_of_is_SomeI by metis
qed

definition mem_saved :: "mem_checkpointer \<Rightarrow> string \<Rightarrow> nat \<rightharpoonup> string" where
  "mem_saved s t = map_option fst \<circ> map_of (the_default [] (smap_find (mc_threads s) t))"

definition mem_inv :: "mem_checkpointer \<Rightarrow> bool" where
  "mem_inv s \<longleftrightarrow> (\<forall>t m. smap_find (mc_threads s) t = Some m \<longrightarrow> steps_ok m)"

lemma mem_steps_ok: "mem_inv s \<Longrightarrow> steps_ok (the_default [] (smap_find (mc_threads s) t))"
  by (cases "smap_find (mc_threads s) t") (auto simp: mem_inv_def steps_ok_def)

lemma mem_dom: "dom (mem_saved s t) = fst ` set (the_default [] (smap_find (mc_threads s) t))"
  by (simp add: mem_saved_def dom_map_option_comp dom_map_of_conv_image_fst)

lemma mem_put_saved:
  assumes "mem_inv s" "mem_put t n b md now s = (ok u, s')"
  shows "mem_inv s' \<and> mem_saved s' = (mem_saved s)(t := (mem_saved s t)(n \<mapsto> b))"
proof -
  let ?m = "the_default [] (smap_find (mc_threads s) t)"
  have threads: "smap_find (mc_threads s') = (smap_find (mc_threads s))(t \<mapsto> step_put n (b, md, now) ?m)"
    using assms(2) by (auto simp: mem_put_def Let_def find_put)
  have "steps_ok (step_put n (b, md, now) ?m)" using mem_steps_ok [OF assms(1)] by (rule steps_ok_put)
  then have "mem_inv s'" using assms(1) threads by (simp add: mem_inv_def)
  moreover have "mem_saved s' t' = ((mem_saved s)(t := (mem_saved s t)(n \<mapsto> b))) t'" for t'
    by (auto simp: mem_saved_def threads map_of_step_put fun_eq_iff)
  ultimately show ?thesis by blast
qed

lemma mem_get_latest_saved:
  assumes "mem_inv s"
  shows "if dom (mem_saved s t) = {} then \<exists>msg. fst (mem_get_latest t s) = fail KeyNotFound msg
     else fst (mem_get_latest t s) = ok (the (mem_saved s t (Max (dom (mem_saved s t)))))"
proof (cases "the_default [] (smap_find (mc_threads s) t) = []")
  case True
  then show ?thesis by (auto simp: mem_dom mem_get_latest_def no_checkpoint_def the_default_def split: option.splits)
next
  case False
  then obtain m where m: "smap_find (mc_threads s) t = Some m" "m \<noteq> []" by (auto simp: the_default_def split: option.splits)
  then have "steps_ok m" using assms by (auto simp: mem_inv_def)
  note l = steps_ok_last [OF this m(2)]
  show ?thesis using m l(2) unfolding mem_dom by (simp add: mem_get_latest_def mem_saved_def)
qed

interpretation in_memory_cp: checkpointer in_memory_checkpointer mem_saved mem_inv
proof
  fix s t
  show "finite (dom (mem_saved s t))" by (simp add: mem_dom)
next
  fix s :: mem_checkpointer and b t n md now u s'
  assume "mem_inv s" "co_put in_memory_checkpointer t n b md now s = (ok u, s')"
  then show "mem_inv s' \<and> mem_saved s' = (mem_saved s)(t := (mem_saved s t)(n \<mapsto> b))"
    by (intro mem_put_saved) (simp_all add: in_memory_checkpointer_def)
next
  fix s :: mem_checkpointer and t n res s'
  assume "mem_inv s" "co_get in_memory_checkpointer t n s = (res, s')"
  then show "mem_inv s' \<and> mem_saved s' = mem_saved s \<and>
      (case mem_saved s t n of Some b \<Rightarrow> res = ok b | None \<Rightarrow> \<exists>msg. res = fail KeyNotFound msg)"
    by (auto simp: in_memory_checkpointer_def mem_get_def mem_saved_def no_checkpoint_def split: option.splits)
next
  fix s :: mem_checkpointer and t res s'
  assume "mem_inv s" "co_get_latest in_memory_checkpointer t s = (res, s')"
  then show "mem_inv s' \<and> mem_saved s' = mem_saved s \<and>
      (if dom (mem_saved s t) = {} then \<exists>msg. res = fail KeyNotFound msg
       else res = ok (the (mem_saved s t (Max (dom (mem_saved s t))))))"
    using mem_get_latest_saved [of s t] mem_get_latest_def [of t s]
    by (auto simp: in_memory_checkpointer_def split: if_splits)
next
  fix s :: mem_checkpointer and t res s'
  assume s: "mem_inv s" "co_list in_memory_checkpointer t s = (res, s')"
  let ?m = "the_default [] (smap_find (mc_threads s) t)"
  have "sorted_wrt (<) (map fst ?m)" using mem_steps_ok [OF s(1), of t] by (simp add: steps_ok_def)
  then have "map fst ?m = sorted_list_of_set (dom (mem_saved s t))"
    using sorted_list_of_set.idem_if_sorted_distinct [of "map fst ?m"] by (simp add: strict_sorted_iff mem_dom)
  then show "mem_inv s' \<and> mem_saved s' = mem_saved s \<and>
      (\<exists>infos. res = ok infos \<and> map ci_step infos = sorted_list_of_set (dom (mem_saved s t)))"
    using s by (auto simp: in_memory_checkpointer_def mem_list_def comp_def case_prod_beta')
next
  fix s :: mem_checkpointer and t u s'
  assume "mem_inv s" "co_delete_thread in_memory_checkpointer t s = (ok u, s')"
  then show "mem_inv s' \<and> mem_saved s' = (mem_saved s)(t := Map.empty)"
    by (auto simp: in_memory_checkpointer_def mem_delete_thread_def mem_inv_def mem_saved_def find_erase fun_eq_iff
        split: if_splits)
qed

section \<open>The store adapter\<close>

text \<open>What the store of a session holds, and the entries that read as present.\<close>

definition stored :: "('m \<Rightarrow> string \<rightharpoonup> string) \<Rightarrow> ('w, 'm) rt \<Rightarrow> string \<rightharpoonup> string" where
  "stored contents r = (case rt_store r of Some m \<Rightarrow> contents m | None \<Rightarrow> Map.empty)"

definition present :: "(string \<rightharpoonup> string) \<Rightarrow> string \<Rightarrow> string option" where
  "present c k = (case c k of Some v \<Rightarrow> if v = [] then None else Some v | None \<Rightarrow> None)"

definition steps_at :: "(string \<rightharpoonup> string) \<Rightarrow> string \<Rightarrow> nat \<rightharpoonup> string" where
  "steps_at c t n = present c (checkpoint_key t (to_string n))"

text \<open>
  The entries of a thread agree: a step has a checkpoint exactly when it has metadata, and the
  two \<open>latest\<close> entries describe the highest step, or are absent when there is none.
\<close>

definition thread_ok :: "(string \<rightharpoonup> string) \<Rightarrow> string \<Rightarrow> bool" where
  "thread_ok c t \<longleftrightarrow> finite (dom (steps_at c t)) \<and>
     (\<forall>n. present c (meta_key t (to_string n)) \<noteq> None \<longleftrightarrow> n \<in> dom (steps_at c t)) \<and>
     (if dom (steps_at c t) = {} then present c (checkpoint_key t ''latest'') = None \<and> present c (meta_key t ''latest'') = None
      else let n = Max (dom (steps_at c t)) in n < 2 ^ 64 \<and> present c (meta_key t ''latest'') = Some (to_string n) \<and>
             present c (checkpoint_key t ''latest'') = steps_at c t n)"

lemma colon_free [simp]: "CHR '':'' \<notin> set (to_string n)" "CHR '':'' \<notin> set ''latest''" "CHR '':'' \<notin> set ''count''"
  by (simp_all add: digit_not_in_to_string is_digit_def)

lemma to_string_not_latest [simp]: "to_string n \<noteq> ''latest''" "''latest'' \<noteq> to_string n"
proof -
  have "\<not> is_digit (CHR ''l'')" by (simp add: is_digit_def)
  then show "to_string n \<noteq> ''latest''" using digit_not_in_to_string [of "CHR ''l''" n] by (metis list.set_intros(1))
  then show "''latest'' \<noteq> to_string n" by metis
qed

lemma key_inject:
  assumes "CHR '':'' \<notin> set a" "CHR '':'' \<notin> set b"
  shows "checkpoint_key t a = checkpoint_key t' b \<longleftrightarrow> t = t' \<and> a = b"
    "meta_key t a = meta_key t' b \<longleftrightarrow> t = t' \<and> a = b"
  using append_sep_inject [OF assms, of t t'] by (auto simp: checkpoint_key_def meta_key_def)

lemma key_kinds [simp]:
  "checkpoint_key t a \<noteq> meta_key t' b" "meta_key t' b \<noteq> checkpoint_key t a"
  "checkpoint_key t a \<noteq> events_key t' b" "events_key t' b \<noteq> checkpoint_key t a"
  "meta_key t a \<noteq> events_key t' b" "events_key t' b \<noteq> meta_key t a"
  by (simp_all add: checkpoint_key_def meta_key_def events_key_def)

lemmas adapter_keys [simp] = key_inject [OF colon_free(1,1)] key_inject [OF colon_free(1,2)]
  key_inject [OF colon_free(2,1)] key_inject [OF colon_free(2,2)]

lemma present_upd [simp]: "present (c(k \<mapsto> v)) k' = (if k' = k then (if v = [] then None else Some v) else present c k')"
  by (simp add: present_def)

lemma thread_ok_cong:
  assumes "\<And>k. present c' (checkpoint_key t (to_string k)) = present c (checkpoint_key t (to_string k))"
    and "\<And>k. present c' (meta_key t (to_string k)) = present c (meta_key t (to_string k))"
    and "present c' (checkpoint_key t ''latest'') = present c (checkpoint_key t ''latest'')"
    and "present c' (meta_key t ''latest'') = present c (meta_key t ''latest'')"
  shows "thread_ok c' t = thread_ok c t" "steps_at c' t = steps_at c t"
proof -
  show "steps_at c' t = steps_at c t" using assms by (simp add: steps_at_def fun_eq_iff)
  then show "thread_ok c' t = thread_ok c t" unfolding thread_ok_def assms by simp
qed

text \<open>A put to a thread.\<close>

definition put_entries :: "string \<Rightarrow> nat \<Rightarrow> string \<Rightarrow> string \<Rightarrow> (string \<rightharpoonup> string) \<Rightarrow> (string \<rightharpoonup> string)" where
  "put_entries t n b md c =
     c(checkpoint_key t (to_string n) \<mapsto> b, checkpoint_key t ''latest'' \<mapsto> b,
       meta_key t (to_string n) \<mapsto> md, meta_key t ''latest'' \<mapsto> to_string n)"

lemma present_put_entries:
  assumes "b \<noteq> []" "md \<noteq> []"
  shows "present (put_entries t n b md c) (checkpoint_key t' (to_string k)) =
      (if t' = t \<and> k = n then Some b else present c (checkpoint_key t' (to_string k)))"
    "present (put_entries t n b md c) (meta_key t' (to_string k)) =
      (if t' = t \<and> k = n then Some md else present c (meta_key t' (to_string k)))"
    "present (put_entries t n b md c) (checkpoint_key t' ''latest'') =
      (if t' = t then Some b else present c (checkpoint_key t' ''latest''))"
    "present (put_entries t n b md c) (meta_key t' ''latest'') =
      (if t' = t then Some (to_string n) else present c (meta_key t' ''latest''))"
  using assms by (auto simp: put_entries_def)

lemma put_entries_ok:
  assumes ok: "\<forall>t. thread_ok c t" and b: "b \<noteq> []" "md \<noteq> []" and n: "\<forall>k \<in> dom (steps_at c t). k \<le> n" "n < 2 ^ 64"
  shows "\<forall>t'. thread_ok (put_entries t n b md c) t'"
    "steps_at (put_entries t n b md c) = (steps_at c)(t := (steps_at c t)(n \<mapsto> b))"
proof -
  let ?c = "put_entries t n b md c"
  note p = present_put_entries [OF b]
  show steps: "steps_at ?c = (steps_at c)(t := (steps_at c t)(n \<mapsto> b))"
    by (auto simp: steps_at_def p fun_eq_iff)
  have "thread_ok ?c t"
  proof -
    have dom: "dom (steps_at ?c t) = insert n (dom (steps_at c t))" by (auto simp: steps)
    have fin: "finite (dom (steps_at c t))" using ok by (simp add: thread_ok_def)
    have "Max (dom (steps_at ?c t)) = n" using n(1) fin by (intro Max_eqI) (auto simp: dom)
    moreover have "\<forall>k. present c (meta_key t (to_string k)) \<noteq> None \<longleftrightarrow> k \<in> dom (steps_at c t)"
      using ok by (simp add: thread_ok_def)
    ultimately show ?thesis
      unfolding thread_ok_def using fin n(2) p b by (auto simp: dom Let_def steps)
  qed
  moreover have "thread_ok ?c t'" if "t' \<noteq> t" for t'
    using ok that thread_ok_cong(1) [of ?c t' c] by (simp add: p)
  ultimately show "\<forall>t'. thread_ok ?c t'" by metis
qed

text \<open>Deleting a range of steps.\<close>

definition erase_step :: "string \<Rightarrow> nat \<Rightarrow> (string \<rightharpoonup> string) \<Rightarrow> (string \<rightharpoonup> string)" where
  "erase_step t n c =
     (if present c (meta_key t (to_string n)) = None then c
      else c(meta_key t (to_string n) \<mapsto> [], checkpoint_key t (to_string n) \<mapsto> []))"

lemma present_erase_steps:
  "present (fold (erase_step t) ns c) (checkpoint_key t' (to_string k)) =
     (if t' = t \<and> k \<in> set ns \<and> present c (meta_key t (to_string k)) \<noteq> None then None
      else present c (checkpoint_key t' (to_string k)))"
  "present (fold (erase_step t) ns c) (meta_key t' (to_string k)) =
     (if t' = t \<and> k \<in> set ns then None else present c (meta_key t' (to_string k)))"
  "present (fold (erase_step t) ns c) (checkpoint_key t' ''latest'') = present c (checkpoint_key t' ''latest'')"
  "present (fold (erase_step t) ns c) (meta_key t' ''latest'') = present c (meta_key t' ''latest'')"
  by (induction ns arbitrary: c) (auto simp: erase_step_def)

definition delete_entries :: "string \<Rightarrow> (string \<rightharpoonup> string) \<Rightarrow> (string \<rightharpoonup> string)" where
  "delete_entries t c =
     (if dom (steps_at c t) = {} then c
      else (fold (erase_step t) [0..<Suc (Max (dom (steps_at c t)))] c)(meta_key t ''latest'' \<mapsto> []))"

lemma present_delete:
  assumes "thread_ok c t"
  shows "present (delete_entries t c) (checkpoint_key t' (to_string k)) =
      (if t' = t then None else present c (checkpoint_key t' (to_string k)))"
    "present (delete_entries t c) (meta_key t' (to_string k)) = (if t' = t then None else present c (meta_key t' (to_string k)))"
    "present (delete_entries t c) (meta_key t' ''latest'') = (if t' = t then None else present c (meta_key t' ''latest''))"
    "present (delete_entries t c) (checkpoint_key t' ''latest'') = present c (checkpoint_key t' ''latest'')"
proof -
  have meta: "present c (meta_key t (to_string k)) \<noteq> None \<longleftrightarrow> k \<in> dom (steps_at c t)"
    "present c (checkpoint_key t (to_string k)) \<noteq> None \<longleftrightarrow> k \<in> dom (steps_at c t)"
    using assms by (auto simp: thread_ok_def steps_at_def)
  have mem: "k \<in> dom (steps_at c t) \<Longrightarrow> k < Suc (Max (dom (steps_at c t)))"
    using assms by (simp add: thread_ok_def less_Suc_eq_le)
  have latest: "dom (steps_at c t) = {} \<Longrightarrow> present c (meta_key t ''latest'') = None"
    using assms by (simp add: thread_ok_def)
  note simps = delete_entries_def present_erase_steps
  show "present (delete_entries t c) (checkpoint_key t' (to_string k)) =
      (if t' = t then None else present c (checkpoint_key t' (to_string k)))"
    using meta mem by (cases "dom (steps_at c t) = {}") (auto simp: simps simp del: upt_Suc)
  show "present (delete_entries t c) (meta_key t' (to_string k)) = (if t' = t then None else present c (meta_key t' (to_string k)))"
    using meta mem by (cases "dom (steps_at c t) = {}") (auto simp: simps simp del: upt_Suc)
  show "present (delete_entries t c) (meta_key t' ''latest'') = (if t' = t then None else present c (meta_key t' ''latest''))"
    using latest by (cases "dom (steps_at c t) = {}") (auto simp: simps simp del: upt_Suc)
  show "present (delete_entries t c) (checkpoint_key t' ''latest'') = present c (checkpoint_key t' ''latest'')"
    by (cases "dom (steps_at c t) = {}") (auto simp: simps simp del: upt_Suc)
qed

text \<open>\<open>c2\<close> is \<open>c\<close> after a deletion, up to entries that are absent and the event count.\<close>

lemma delete_entries_ok:
  assumes ok: "\<forall>t. thread_ok c t"
    and c1: "\<And>k a. present c1 (checkpoint_key k a) = present (delete_entries t c) (checkpoint_key k a)"
      "\<And>k a. present c1 (meta_key k a) = present (delete_entries t c) (meta_key k a)"
    and c2: "c2 = c1(checkpoint_key t ''latest'' \<mapsto> []) \<or> c2 = c1 \<and> present c1 (checkpoint_key t ''latest'') = None"
  shows "\<forall>t'. thread_ok c2 t'" "steps_at c2 = (steps_at c)(t := Map.empty)"
proof -
  have tok: "thread_ok c t" using ok by blast
  note del = present_delete [OF tok]
  have ck: "present c2 (checkpoint_key t' (to_string k)) = (if t' = t then None else present c (checkpoint_key t' (to_string k)))" for t' k
    using c2 c1(1) [of t' "to_string k"] del(1) [of t' k] by auto
  have mk: "present c2 (meta_key t' (to_string k)) = (if t' = t then None else present c (meta_key t' (to_string k)))" for t' k
    using c2 c1(2) [of t' "to_string k"] del(2) [of t' k] by auto
  have lt: "present c2 (checkpoint_key t' ''latest'') = (if t' = t then None else present c (checkpoint_key t' ''latest''))" for t'
    using c2 c1(1) [of t' "''latest''"] del(4) [of t'] by auto
  have ml: "present c2 (meta_key t' ''latest'') = (if t' = t then None else present c (meta_key t' ''latest''))" for t'
    using c2 c1(2) [of t' "''latest''"] del(3) [of t'] by auto
  show steps: "steps_at c2 = (steps_at c)(t := Map.empty)" by (auto simp: steps_at_def ck fun_eq_iff)
  have "thread_ok c2 t'" for t'
  proof (cases "t' = t")
    case True
    then show ?thesis unfolding thread_ok_def by (simp add: steps mk lt ml)
  next
    case False
    then show ?thesis using ok thread_ok_cong(1) [of c2 t' c] by (simp add: ck mk lt ml)
  qed
  then show "\<forall>t'. thread_ok c2 t'" ..
qed

locale store_backed = kv_store put get clear contents
  for put get clear and contents :: "'m \<Rightarrow> string \<rightharpoonup> string" +
  fixes S :: "('w, 'm) session"
  assumes ops: "active_store S = \<lparr>so_put = put, so_get = get, so_clear = clear\<rparr>"
begin

lemma store_memory_ok:
  "store_memory S k v r = (ok u, r') \<Longrightarrow>
     rt_store r' \<noteq> None \<and> stored contents r' = (stored contents r)(k \<mapsto> v)"
  by (auto simp: store_memory_def stored_def ops put_contents split: option.splits prod.splits)

lemma store_all_ok:
  "store_all S kvs r = (ok u, r') \<Longrightarrow> rt_store r \<noteq> None \<Longrightarrow>
     rt_store r' \<noteq> None \<and> stored contents r' = fold (\<lambda>(k, v) c. c(k \<mapsto> v)) kvs (stored contents r)"
proof (induction kvs arbitrary: r)
  case (Cons kv kvs)
  obtain k v where kv: "kv = (k, v)" by (cases kv)
  obtain u1 r1 where st: "store_memory S k v r = (ok u1, r1)" "store_all S kvs r1 = (ok u, r')"
    using Cons.prems(1) by (auto simp: kv split: prod.splits sum.splits)
  note r1 = store_memory_ok [OF st(1)]
  show ?case using Cons.IH [OF st(2)] r1 by (simp add: kv)
qed simp

lemma retrieve_memory_ok:
  assumes "retrieve_memory S k r = (res, r')" "rt_store r \<noteq> None"
  shows "rt_store r' \<noteq> None \<and> stored contents r' = stored contents r \<and>
     (case stored contents r k of Some v \<Rightarrow> res = ok v | None \<Rightarrow> \<exists>msg. res = fail KeyNotFound msg)"
proof -
  obtain m m' where m: "rt_store r = Some m" "get k m = (res, m')" "r' = r\<lparr>rt_store := Some m'\<rparr>"
    using assms by (auto simp: retrieve_memory_def ops split: option.splits prod.splits)
  show ?thesis
  proof (cases "contents m k")
    case None
    then show ?thesis using m get_missing [OF None] get_contents [OF m(2)] by (auto simp: stored_def)
  next
    case (Some v)
    then show ?thesis using m get_found [OF Some] get_contents [OF m(2)] by (auto simp: stored_def)
  qed
qed

lemma get_nonempty_ok:
  assumes "store_get_nonempty S k r = (res, r')" "rt_store r \<noteq> None"
  shows "rt_store r' \<noteq> None \<and> stored contents r' = stored contents r \<and>
     (case present (stored contents r) k of Some v \<Rightarrow> res = ok v | None \<Rightarrow> \<exists>msg. res = fail KeyNotFound msg)"
proof -
  obtain res1 r1 where get: "retrieve_memory S k r = (res1, r1)" by (cases "retrieve_memory S k r")
  note ok = retrieve_memory_ok [OF get assms(2)]
  show ?thesis
    using ok assms(1) get
    by (cases "stored contents r k") (auto simp: store_get_nonempty_def present_def split: if_splits sum.splits)
qed

end

text \<open>The state of the adapter's contract.\<close>

definition store_saved :: "('m \<Rightarrow> string \<rightharpoonup> string) \<Rightarrow> ('w, 'm) rt \<Rightarrow> string \<Rightarrow> nat \<rightharpoonup> string" where
  "store_saved contents r = steps_at (stored contents r)"

definition store_inv :: "('m \<Rightarrow> string \<rightharpoonup> string) \<Rightarrow> ('w, 'm) rt \<Rightarrow> bool" where
  "store_inv contents r \<longleftrightarrow> rt_store r \<noteq> None \<and> (\<forall>t. thread_ok (stored contents r) t)"

context store_backed
begin

lemma put_ok:
  assumes "store_inv contents r" "b \<noteq> []" "\<forall>k \<in> dom (store_saved contents r t). k \<le> n" "n < 2 ^ 64"
    and "store_put S t n b md now r = (ok u, r')"
  shows "store_inv contents r' \<and> store_saved contents r' = (store_saved contents r)(t := (store_saved contents r t)(n \<mapsto> b))"
proof -
  have "rt_store r' \<noteq> None \<and> stored contents r' = put_entries t n b (to_string_int now @ '' '' @ md) (stored contents r)"
    using store_all_ok [OF assms(5) [unfolded store_put_def]] assms(1) by (simp add: store_inv_def put_entries_def)
  then show ?thesis
    using put_entries_ok [of "stored contents r" b "to_string_int now @ '' '' @ md" t n] assms
    by (simp add: store_inv_def store_saved_def)
qed

lemma latest_step_ok:
  assumes "store_latest_step S t r = (res, r')" "store_inv contents r"
  shows "rt_store r' \<noteq> None \<and> stored contents r' = stored contents r \<and>
     (if dom (store_saved contents r t) = {} then \<exists>msg. res = fail KeyNotFound msg
      else res = ok (Max (dom (store_saved contents r t))))"
proof -
  let ?c = "stored contents r"
  obtain res1 r1 where get: "store_get_nonempty S (meta_key t ''latest'') r = (res1, r1)"
    by (cases "store_get_nonempty S (meta_key t ''latest'') r")
  have st: "rt_store r \<noteq> None" "thread_ok ?c t" using assms(2) by (simp_all add: store_inv_def)
  note g = get_nonempty_ok [OF get st(1)]
  show ?thesis
  proof (cases "dom (steps_at ?c t) = {}")
    case True
    then have "present ?c (meta_key t ''latest'') = None" using st(2) by (simp add: thread_ok_def)
    then show ?thesis using g assms(1) get True by (auto simp: store_latest_step_def store_saved_def)
  next
    case False
    then have "present ?c (meta_key t ''latest'') = Some (to_string (Max (dom (steps_at ?c t))))"
      "Max (dom (steps_at ?c t)) < 2 ^ 64" using st(2) by (simp_all add: thread_ok_def Let_def)
    then show ?thesis using g assms(1) get False by (auto simp: store_latest_step_def store_saved_def from_chars_u64_def)
  qed
qed

lemma list_steps_ok:
  assumes "store_list_steps S t ns out r = (res, r')" "rt_store r \<noteq> None"
  shows "rt_store r' \<noteq> None \<and> stored contents r' = stored contents r \<and>
     (\<exists>infos. res = ok infos \<and>
        map ci_step infos = map ci_step out @ filter (\<lambda>n. present (stored contents r) (meta_key t (to_string n)) \<noteq> None) ns)"
  using assms
proof (induction ns arbitrary: out r)
  case (Cons n ns)
  obtain res1 r1 where get: "store_get_nonempty S (meta_key t (to_string n)) r = (res1, r1)"
    by (cases "store_get_nonempty S (meta_key t (to_string n)) r")
  note g = get_nonempty_ok [OF get Cons.prems(2)]
  show ?case
  proof (cases "present (stored contents r) (meta_key t (to_string n))")
    case None
    then have "store_list_steps S t ns out r1 = (res, r')" using g get Cons.prems(1) by auto
    then show ?thesis using Cons.IH [of out r1] g None by simp
  next
    case (Some v)
    then have "store_list_steps S t ns (out @ [parse_meta n v]) r1 = (res, r')" using g get Cons.prems(1) by auto
    then show ?thesis using Cons.IH [of "out @ [parse_meta n v]" r1] g Some by (simp add: parse_meta_def Let_def)
  qed
qed auto

lemma list_ok:
  assumes "store_list S t r = (res, r')" "store_inv contents r"
  shows "store_inv contents r' \<and> store_saved contents r' = store_saved contents r \<and>
     (\<exists>infos. res = ok infos \<and> map ci_step infos = sorted_list_of_set (dom (store_saved contents r t)))"
proof -
  let ?c = "stored contents r" and ?D = "dom (store_saved contents r t)"
  obtain res1 r1 where get: "store_latest_step S t r = (res1, r1)" by (cases "store_latest_step S t r")
  note l = latest_step_ok [OF get assms(2)]
  have tok: "thread_ok ?c t" using assms(2) by (simp add: store_inv_def)
  show ?thesis
  proof (cases "?D = {}")
    case True
    then show ?thesis using l get assms by (auto simp: store_list_def store_inv_def store_saved_def)
  next
    case False
    then have "store_list_steps S t [0..<Suc (Max ?D)] [] r1 = (res, r')"
      using l get assms(1) by (simp add: store_list_def del: upt_Suc)
    note ls = list_steps_ok [OF this]
    have "filter (\<lambda>n. present ?c (meta_key t (to_string n)) \<noteq> None) [0..<Suc (Max ?D)] = filter (\<lambda>n. n \<in> ?D) [0..<Suc (Max ?D)]"
      using tok by (simp add: thread_ok_def store_saved_def del: upt_Suc)
    also have "\<dots> = sorted_list_of_set ?D"
    proof -
      have "set (filter (\<lambda>n. n \<in> ?D) [0..<Suc (Max ?D)]) = ?D"
        using tok Max_ge [of ?D]
        by (auto simp: thread_ok_def store_saved_def less_Suc_eq_le domI simp del: upt_Suc Max_ge_iff)
      then show ?thesis
        using sorted_list_of_set.idem_if_sorted_distinct [of "filter (\<lambda>n. n \<in> ?D) [0..<Suc (Max ?D)]"]
        by (simp add: sorted_wrt_filter del: upt_Suc)
    qed
    finally show ?thesis using ls l assms by (auto simp: store_inv_def store_saved_def)
  qed
qed

lemma get_latest_ok:
  assumes "store_get_latest S t r = (res, r')" "store_inv contents r"
  shows "store_inv contents r' \<and> store_saved contents r' = store_saved contents r \<and>
     (if dom (store_saved contents r t) = {} then \<exists>msg. res = fail KeyNotFound msg
      else res = ok (the (store_saved contents r t (Max (dom (store_saved contents r t))))))"
proof -
  let ?c = "stored contents r"
  obtain res1 r1 where get: "store_get_nonempty S (checkpoint_key t ''latest'') r = (res1, r1)"
    by (cases "store_get_nonempty S (checkpoint_key t ''latest'') r")
  have st: "rt_store r \<noteq> None" "thread_ok ?c t" using assms(2) by (simp_all add: store_inv_def)
  note g = get_nonempty_ok [OF get st(1)]
  show ?thesis
  proof (cases "dom (steps_at ?c t) = {}")
    case True
    then have "present ?c (checkpoint_key t ''latest'') = None" using st(2) by (simp add: thread_ok_def)
    then show ?thesis
      using g assms get True by (auto simp: store_get_latest_def store_saved_def store_inv_def no_checkpoint_def)
  next
    case False
    then have "Max (dom (steps_at ?c t)) \<in> dom (steps_at ?c t)" using st(2) by (intro Max_in) (auto simp: thread_ok_def)
    then obtain b where b: "steps_at ?c t (Max (dom (steps_at ?c t))) = Some b" by blast
    then have "present ?c (checkpoint_key t ''latest'') = Some b" using st(2) False by (simp add: thread_ok_def Let_def)
    then show ?thesis using g assms get False b by (auto simp: store_get_latest_def store_saved_def store_inv_def)
  qed
qed

lemma erase_steps_ok:
  assumes "store_erase_steps S t ns r = (ok u, r')" "rt_store r \<noteq> None"
  shows "rt_store r' \<noteq> None \<and> stored contents r' = fold (erase_step t) ns (stored contents r)"
  using assms
proof (induction ns arbitrary: r)
  case (Cons n ns)
  obtain res1 r1 where get: "store_get_nonempty S (meta_key t (to_string n)) r = (res1, r1)"
    by (cases "store_get_nonempty S (meta_key t (to_string n)) r")
  note g = get_nonempty_ok [OF get Cons.prems(2)]
  show ?case
  proof (cases "present (stored contents r) (meta_key t (to_string n))")
    case None
    then have "store_erase_steps S t ns r1 = (ok u, r')" using g get Cons.prems(1) by auto
    then show ?thesis using Cons.IH [of r1] g None by (simp add: erase_step_def)
  next
    case (Some v)
    then obtain u2 r2 where st: "store_all S [(meta_key t (to_string n), []), (checkpoint_key t (to_string n), [])] r1 = (ok u2, r2)"
        "store_erase_steps S t ns r2 = (ok u, r')"
      using g get Cons.prems(1) by (auto split: prod.splits sum.splits)
    have "rt_store r2 \<noteq> None \<and> stored contents r2 = erase_step t n (stored contents r)"
      using store_all_ok [OF st(1)] g Some by (simp add: erase_step_def)
    then show ?thesis using Cons.IH [OF st(2)] by simp
  qed
qed simp

lemma delete_ok:
  assumes "store_delete_thread S t r = (ok u, r')" "store_inv contents r"
  shows "store_inv contents r' \<and> store_saved contents r' = (store_saved contents r)(t := Map.empty)"
proof -
  let ?c = "stored contents r"
  have st: "rt_store r \<noteq> None" "\<forall>t. thread_ok ?c t" using assms(2) by (simp_all add: store_inv_def)
  obtain u1 r1 u2 r2 where steps: "store_erase_events S t r = (ok u1, r1)" "store_erase_all_steps S t r1 = (ok u2, r2)"
      "store_erase_latest S t r2 = (ok u, r')"
    using assms(1) by (auto simp: store_delete_thread_def split: prod.splits sum.splits)
  have r1: "rt_store r1 \<noteq> None \<and> (stored contents r1 = ?c \<or> stored contents r1 = ?c(events_key t ''count'' \<mapsto> []))"
  proof (cases "store_get_nonempty S (events_key t ''count'') r")
    case (Pair res0 r0)
    note g = get_nonempty_ok [OF Pair st(1)]
    show ?thesis
      using steps(1) Pair g store_memory_ok [of "events_key t ''count''" "[]" r0 u1 r1]
      by (auto simp: store_erase_events_def split: sum.splits)
  qed
  then have c1: "present (stored contents r1) (checkpoint_key k a) = present ?c (checkpoint_key k a)"
      "present (stored contents r1) (meta_key k a) = present ?c (meta_key k a)" for k a
    by auto
  have s1: "steps_at (stored contents r1) = steps_at ?c" using c1 by (simp add: steps_at_def fun_eq_iff)
  have inv1: "store_inv contents r1"
    using r1 st(2) thread_ok_cong(1) [OF c1(1) c1(2) c1(1) c1(2)] by (simp add: store_inv_def)
  have r2: "rt_store r2 \<noteq> None \<and> stored contents r2 = delete_entries t (stored contents r1)"
  proof (cases "store_latest_step S t r1")
    case (Pair res0 r0)
    note l = latest_step_ok [OF Pair inv1]
    show ?thesis
    proof (cases "dom (store_saved contents r1 t) = {}")
      case True
      then show ?thesis
        using l Pair steps(2) by (auto simp: store_erase_all_steps_def delete_entries_def store_saved_def)
    next
      case False
      then obtain u3 r3 where e: "store_erase_steps S t [0..<Suc (Max (dom (store_saved contents r1 t)))] r0 = (ok u3, r3)"
          "store_memory S (meta_key t ''latest'') [] r3 = (ok u2, r2)"
        using l Pair steps(2) by (auto simp: store_erase_all_steps_def simp del: upt_Suc split: prod.splits sum.splits)
      show ?thesis
        using erase_steps_ok [OF e(1)] store_memory_ok [OF e(2)] l False
        by (simp add: delete_entries_def store_saved_def del: upt_Suc)
    qed
  qed
  have r': "rt_store r' \<noteq> None \<and> (stored contents r' = (stored contents r2)(checkpoint_key t ''latest'' \<mapsto> []) \<or>
      stored contents r' = stored contents r2 \<and> present (stored contents r2) (checkpoint_key t ''latest'') = None)"
  proof (cases "retrieve_memory S (checkpoint_key t ''latest'') r2")
    case (Pair res0 r0)
    note g = retrieve_memory_ok [OF Pair]
    show ?thesis
      using steps(3) Pair g r2 store_memory_ok [of "checkpoint_key t ''latest''" "[]" r0 u r']
      by (auto simp: store_erase_latest_def present_def split: sum.splits option.splits)
  qed
  have inv1': "\<forall>t. thread_ok (stored contents r1) t" using inv1 by (simp add: store_inv_def)
  show ?thesis
    using delete_entries_ok [OF inv1', of "stored contents r2" t "stored contents r'"] r2 r' s1
    by (simp add: store_inv_def store_saved_def)
qed

end

sublocale store_backed \<subseteq> store_cp: checkpointer "store_checkpointer S" "store_saved contents" "store_inv contents"
proof
  fix r t
  assume "store_inv contents r"
  then show "finite (dom (store_saved contents r t))" by (simp add: store_inv_def store_saved_def thread_ok_def)
next
  fix r t n res r'
  assume "store_inv contents r" "co_get (store_checkpointer S) t n r = (res, r')"
  then show "store_inv contents r' \<and> store_saved contents r' = store_saved contents r \<and>
      (case store_saved contents r t n of Some b \<Rightarrow> res = ok b | None \<Rightarrow> \<exists>msg. res = fail KeyNotFound msg)"
    using get_nonempty_ok [of "checkpoint_key t (to_string n)" r res r']
    by (simp add: store_checkpointer_def store_get_def store_inv_def store_saved_def steps_at_def)
next
  fix r b t n md now u r'
  assume "store_inv contents r" "b \<noteq> []" "\<forall>k \<in> dom (store_saved contents r t). k \<le> n" "n < 2 ^ 64"
    "co_put (store_checkpointer S) t n b md now r = (ok u, r')"
  then show "store_inv contents r' \<and>
      store_saved contents r' = (store_saved contents r)(t := (store_saved contents r t)(n \<mapsto> b))"
    unfolding store_checkpointer_def checkpointer_ops.simps by (rule put_ok)
next
  fix r t res r'
  assume "store_inv contents r" "co_get_latest (store_checkpointer S) t r = (res, r')"
  then show "store_inv contents r' \<and> store_saved contents r' = store_saved contents r \<and>
      (if dom (store_saved contents r t) = {} then \<exists>msg. res = fail KeyNotFound msg
       else res = ok (the (store_saved contents r t (Max (dom (store_saved contents r t))))))"
    unfolding store_checkpointer_def checkpointer_ops.simps by (intro get_latest_ok)
next
  fix r t lres r'
  assume "store_inv contents r" "co_list (store_checkpointer S) t r = (lres, r')"
  then show "store_inv contents r' \<and> store_saved contents r' = store_saved contents r \<and>
      (\<exists>infos. lres = ok infos \<and> map ci_step infos = sorted_list_of_set (dom (store_saved contents r t)))"
    unfolding store_checkpointer_def checkpointer_ops.simps by (intro list_ok)
next
  fix r t u r'
  assume "store_inv contents r" "co_delete_thread (store_checkpointer S) t r = (ok u, r')"
  then show "store_inv contents r' \<and> store_saved contents r' = (store_saved contents r)(t := Map.empty)"
    unfolding store_checkpointer_def checkpointer_ops.simps by (intro delete_ok)
qed

interpretation in_memory_backed: store_backed put_in_memory get_in_memory clear_in_memory "\<lambda>kv. kv"
    "S\<lparr>active_store := in_memory_store\<rparr>" for S :: "('w, in_memory_state) session"
  by unfold_locales (simp add: in_memory_store_def)

section \<open>Properties\<close>


lemma steps_at_empty [simp]: "steps_at Map.empty t = Map.empty"
  by (simp add: steps_at_def present_def fun_eq_iff)

lemma store_inv_empty: "store_inv (\<lambda>kv. kv) (sample_rt h)" "mem_inv mem_open"
  by (simp_all add: store_inv_def sample_rt_def stored_def open_in_memory_def thread_ok_def present_def
      mem_inv_def mem_open_def)


end
