(* ===== verification/Durable_Runs.thy ===== *)
theory Durable_Runs
  imports Run_Terminates Checkpoint_Props Checkpointer_Props
begin

text \<open>
  Runs and checkpointers together: what a call leaves in the checkpointer is what a later
  \<open>resume_graph\<close> reads. The contract of a checkpointer is extended by its event log and by what a
  run needs of it, shown for the adapter over the session's store, and the end of a call is proved
  over the contract.
\<close>

section \<open>The contract a run needs\<close>

locale logging_checkpointer = checkpointer +
  assumes append_saved:
    "\<lbrakk>inv s; co_append_events ops = Some f; f t es s = (ok u, s')\<rbrakk> \<Longrightarrow> inv s' \<and> saved s' = saved s"

locale run_sink = logging_checkpointer ops saved inv
  for ops :: "('u, 'm) grt checkpointer_ops" and saved :: "('u, 'm) grt \<Rightarrow> string \<Rightarrow> nat \<rightharpoonup> string"
    and inv :: "('u, 'm) grt \<Rightarrow> bool" +
  assumes env_inv: "inv (r\<lparr>rt_env := w\<rparr>) = inv r" and env_saved: "saved (r\<lparr>rt_env := w\<rparr>) = saved r"
begin

lemma now_ms_saved: "now_ms sv r = (t, r') \<Longrightarrow> inv r' = inv r \<and> saved r' = saved r"
  by (auto simp: now_ms_def env_inv env_saved split: prod.splits)

lemma make_event_saved: "make_event sv ty node key payload r = (e, r') \<Longrightarrow> inv r' = inv r \<and> saved r' = saved r"
  by (auto simp: make_event_def env_inv env_saved split: prod.splits)

lemma perform_put_saved:
  assumes "sv_ops sv = ops" "inv r" "b \<noteq> []" "\<forall>k \<in> dom (saved r t). k \<le> n" "n < 2 ^ 64"
    and "perform_now sv (Put_Job t n b md) r = (ok u, r')"
  shows "inv r' \<and> saved r' = (saved r)(t := (saved r t)(n \<mapsto> b))"
proof -
  obtain now r1 where now: "now_ms sv r = (now, r1)" by fastforce
  have "co_put ops t n b md now r1 = (ok u, r')" using assms(1,6) now by (simp add: perform_now_def perform_def)
  then show ?thesis using put_saved [of r1 b t n md now u r'] now_ms_saved [OF now] assms by simp
qed

lemma perform_events_saved:
  assumes "sv_ops sv = ops" "inv r" "perform_now sv (Events_Job t es) r = (ok u, r')"
  shows "inv r' \<and> saved r' = saved r"
proof -
  obtain now r1 where now: "now_ms sv r = (now, r1)" by fastforce
  show ?thesis
    using append_saved [of r1 _ t es u r'] now_ms_saved [OF now] assms now
    by (auto simp: perform_now_def perform_def split: option.splits)
qed

text \<open>A checkpoint written directly is the last of its thread.\<close>

lemma write_checkpoint_saved:
  assumes "sv_ops sv = ops" "inv r" "\<forall>k \<in> dom (saved r (run_thread_id (rc_run c))). k \<le> run_step (rc_run c)"
    and "run_step (rc_run c) < 2 ^ 64" "write_checkpoint sv g False c r = (ok u, c', r')"
  shows "inv r' \<and> saved r' = (saved r)(run_thread_id (rc_run c) :=
    (saved r (run_thread_id (rc_run c)))(run_step (rc_run c) \<mapsto> encode_checkpoint (rc_run c) (gr_name g) (rc_progress c)))"
proof -
  let ?run = "rc_run c"
  let ?t = "run_thread_id ?run" and ?n = "run_step ?run" and ?blob = "encode_checkpoint ?run (gr_name g) (rc_progress c)"
  obtain e r1 where e: "make_event sv Ev_Checkpoint (run_next_node ?run) (checkpoint_key ?t (to_string ?n)) [] r = (e, r1)"
    by fastforce
  let ?c1 = "c\<lparr>rc_run := ?run\<lparr>run_events := run_events ?run @ [e]\<rparr>\<rparr>"
  have blob: "encode_checkpoint (rc_run ?c1) (gr_name g) (rc_progress ?c1) = ?blob" by (simp add: encode_checkpoint_def)
  obtain res r2 where put: "perform_now sv (Put_Job ?t ?n ?blob (checkpoint_metadata g ?c1)) r1 = (res, r2)" by fastforce
  note w = assms(5) [unfolded write_checkpoint_def Let_def e prod.case blob]
  have res: "res = ok ()" using w put by (cases res) (auto split: if_splits)
  have "?blob \<noteq> []" by (simp add: encode_checkpoint_def)
  then have r2: "inv r2 \<and> saved r2 = (saved r)(?t := (saved r ?t)(?n \<mapsto> ?blob))"
    using perform_put_saved [OF assms(1) _ _ _ assms(4) put [unfolded res]] make_event_saved [OF e] assms(2,3) by simp
  show ?thesis
    using w put res r2 perform_events_saved [OF assms(1)] by (auto split: if_splits prod.splits)
qed

lemma latest_saved:
  assumes "inv r" "saved r t = m(n \<mapsto> b)" "\<forall>k \<in> dom m. k \<le> n"
  shows "\<exists>r'. co_get_latest ops t r = (ok b, r')"
proof -
  obtain res r' where get: "co_get_latest ops t r = (res, r')" by fastforce
  have fin: "finite (dom m)" using saved_finite [OF assms(1), of t] assms(2) by simp
  have dom: "dom (saved r t) = insert n (dom m)" using assms(2) by auto
  have "Max (dom (saved r t)) = n" using assms(3) fin by (intro Max_eqI) (auto simp: dom)
  then show ?thesis using get_latest_saved [OF assms(1) get] assms(2) dom get by simp
qed

lemma finish_saved:
  assumes "sv_ops (ex_services x) = ops" "inv (xs_rt st)"
    and "\<forall>k \<in> dom (saved (xs_rt st) (x_thread_id st)). k \<le> run_step (rc_run (xs_ctx st))"
    and "run_step (rc_run (xs_ctx st)) < 2 ^ 64" "finish x None st = (ok u, run, r)"
  shows "inv r \<and> saved r = (saved (xs_rt st))(x_thread_id st := (saved (xs_rt st) (x_thread_id st))(run_step (rc_run (xs_ctx st)) \<mapsto>
    encode_checkpoint (rc_run (sync_run st)) (gr_name (ex_graph x)) (rc_progress (xs_ctx st))))"
proof -
  let ?c = "(sync_run st)\<lparr>rc_write_error := None\<rparr>"
  obtain res c' r' where w: "write_checkpoint (ex_services x) (ex_graph x) False ?c (xs_rt st) = (res, c', r')"
    by (rule prod_cases3)
  have "res = ok ()" "r = r'" using assms(5) w by (auto simp: finish_def Let_def split: sum.splits if_splits)
  moreover have "run_thread_id (rc_run ?c) = x_thread_id st" "run_step (rc_run ?c) = run_step (rc_run (xs_ctx st))"
      "rc_progress ?c = rc_progress (xs_ctx st)"
    by (simp_all add: sync_run_def x_thread_id_def)
  ultimately show ?thesis using write_checkpoint_saved [OF assms(1,2), of ?c "ex_graph x" "()" c' r'] assms(3,4) w by simp
qed

lemma resume_reads_finished:
  assumes fin: "sv_ops sv = ops" "inv (xs_rt st)"
    "\<forall>k \<in> dom (saved (xs_rt st) (x_thread_id st)). k \<le> run_step (rc_run (xs_ctx st))"
    "run_step (rc_run (xs_ctx st)) < 2 ^ 64" "finish (top_exec sv g) None st = (ok u, run, r)"
    and enc: "json_reader (simdjson (sv_session sv))" "checkpoint_utf8 (rc_run (sync_run st)) (gr_name g) (rc_progress (xs_ctx st))"
    "state_sorted (xs_state st)" "case rc_progress (xs_ctx st) of None \<Rightarrow> True | Some p \<Rightarrow> progress_sorted p"
    "length (encode_checkpoint (rc_run (sync_run st)) (gr_name g) (rc_progress (xs_ctx st))) \<le> json_max_size"
    and "validate g = ok ()" "resolve_sink (sv_session sv) cp r = ok ops" "x_thread_id st \<noteq> []"
    and "run_status (rc_run (xs_ctx st)) = Run_Completed"
  shows "\<exists>r'. resume_impl fuel sv cp g (x_thread_id st) run0 req r =
    Some (ok (), restored_run (rc_run (sync_run st))
      (run0\<lparr>run_thread_id := x_thread_id st, run_state := empty_state, run_pending_tool_calls := []\<rparr>), r')"
proof -
  let ?t = "x_thread_id st" and ?run = "rc_run (sync_run st)"
  let ?blob = "encode_checkpoint ?run (gr_name g) (rc_progress (xs_ctx st))"
  let ?out = "run0\<lparr>run_thread_id := ?t, run_state := empty_state, run_pending_tool_calls := []\<rparr>"
  have sv: "sv_ops (ex_services (top_exec sv g)) = ops" "ex_graph (top_exec sv g) = g" using fin(1) by (simp_all add: top_exec_def)
  note saved_r = finish_saved [OF sv(1) fin(2-5), unfolded sv(2)]
  then obtain r' where get: "co_get_latest ops ?t r = (ok ?blob, r')"
    using latest_saved [of r ?t] fin(3) by fastforce
  have "state_sorted (run_state ?run)" using enc(3) by (simp add: sync_run_def)
  from json_reader.decode_encode_checkpoint [OF enc(1,2) this enc(4,5), of ?out]
  have dec: "decode_checkpoint (simdjson (sv_session sv)) ?blob True ?out =
      (ok (), restored_run ?run ?out, map_option (stored_progress ?t) (rc_progress (xs_ctx st)))"
    by simp
  have "run_status (restored_run ?run ?out) = Run_Completed" using assms(14) by (simp add: restored_run_def sync_run_def)
  moreover have "run0\<lparr>run_thread_id := default_thread ?t, run_state := empty_state, run_pending_tool_calls := []\<rparr> = ?out"
    using assms(13) by (simp add: default_thread_def)
  ultimately show ?thesis
    using assms(11,12,13) get dec by (simp add: resume_impl_def Let_def default_thread_def)
qed

end

section \<open>The checkpointers of the runtime\<close>

interpretation in_memory_log: logging_checkpointer in_memory_checkpointer mem_saved mem_inv
proof
  fix s f t es u s'
  assume inv: "mem_inv s" and f: "co_append_events in_memory_checkpointer = Some f" "f t es s = (ok u, s')"
  have "f = mem_append_events" using f(1) by (simp add: in_memory_checkpointer_def)
  then have "mc_threads s' = mc_threads s" using f(2) by (auto simp: mem_append_events_def)
  then show "mem_inv s' \<and> mem_saved s' = mem_saved s" using inv by (simp add: mem_inv_def mem_saved_def fun_eq_iff)
qed

context store_backed
begin

lemma append_ok:
  assumes "store_inv contents r" "store_append_events S t es r = (ok u, r')"
  shows "store_inv contents r' \<and> store_saved contents r' = store_saved contents r"
proof -
  have st: "rt_store r \<noteq> None" using assms(1) by (simp add: store_inv_def)
  obtain n r1 where n: "store_event_batches S t r = (ok n, r1)"
      "store_all S [(events_key t (to_string n), encode_events es), (events_key t ''count'', to_string (n + 1))] r1 = (ok u, r')"
    using assms(2) by (auto simp: store_append_events_def split: prod.splits sum.splits)
  obtain res r0 where g: "store_get_nonempty S (events_key t ''count'') r = (res, r0)" by fastforce
  have r1: "rt_store r1 \<noteq> None" "stored contents r1 = stored contents r"
    using get_nonempty_ok [OF g st] n(1) g by (auto simp: store_event_batches_def split: sum.splits)
  have r': "rt_store r' \<noteq> None" "stored contents r' =
      (stored contents r)(events_key t (to_string n) \<mapsto> encode_events es, events_key t ''count'' \<mapsto> to_string (n + 1))"
    using store_all_ok [OF n(2) r1(1)] r1(2) by simp_all
  have same: "present (stored contents r') (checkpoint_key k a) = present (stored contents r) (checkpoint_key k a)"
      "present (stored contents r') (meta_key k a) = present (stored contents r) (meta_key k a)" for k a
    by (simp_all add: r'(2))
  show ?thesis
    using assms(1) r'(1) thread_ok_cong [OF same(1) same(2) same(1) same(2)]
    by (simp add: store_inv_def store_saved_def fun_eq_iff)
qed

end

interpretation in_memory_sink: run_sink "store_checkpointer (S\<lparr>active_store := in_memory_store\<rparr>)" "store_saved (\<lambda>kv. kv)"
    "store_inv (\<lambda>kv. kv)" for S :: "('u graph_world, in_memory_state) session"
proof
  fix r f t es u r'
  assume "store_inv (\<lambda>kv. kv) r" "co_append_events (store_checkpointer (S\<lparr>active_store := in_memory_store\<rparr>)) = Some f"
    "f t es r = (ok u, r')"
  then show "store_inv (\<lambda>kv. kv) r' \<and> store_saved (\<lambda>kv. kv) r' = store_saved (\<lambda>kv. kv) r"
    using in_memory_backed.append_ok [of r S t es u r'] by (simp add: store_checkpointer_def)
qed (simp_all add: store_inv_def store_saved_def stored_def)

section \<open>Durable runs\<close>

text \<open>
  C4. A completed run is durable. When \<open>finish\<close> ends a call without an error on a run that has
  completed, whose checkpoints go to the session's store, \<open>resume_graph\<close> on that thread returns at
  once, without running a node: it finds the run completed, at the same step, with the state values
  the finished call left and its conversations.
\<close>

theorem completed_run_is_durable:
  assumes "sv_session sv = S\<lparr>active_store := in_memory_store\<rparr>" "sv_ops sv = store_checkpointer (sv_session sv)"
    and "store_inv (\<lambda>kv. kv) (xs_rt st)" "x_thread_id st \<noteq> []"
    and "\<forall>k \<in> dom (store_saved (\<lambda>kv. kv) (xs_rt st) (x_thread_id st)). k \<le> run_step (rc_run (xs_ctx st))"
    and "json_reader (simdjson (sv_session sv))" "checkpoint_utf8 (rc_run (sync_run st)) (gr_name g) None"
    and "state_sorted (xs_state st)" "rc_progress (xs_ctx st) = None"
    and "length (encode_checkpoint (rc_run (sync_run st)) (gr_name g) None) \<le> json_max_size"
    and "validate g = ok ()" "run_status (rc_run (xs_ctx st)) = Run_Completed"
    and "finish (top_exec sv g) None st = (ok (), run, r)"
  shows "\<exists>run' r'. resume_impl fuel sv None g (x_thread_id st) run0 req r = Some (ok (), run', r') \<and>
     run_status run' = Run_Completed \<and> run_step run' = run_step run \<and> run_next_node run' = run_next_node run \<and>
     gs_values (run_state run') = gs_values (run_state run) \<and>
     gs_histories (run_state run') = stored_histories (x_thread_id st) (gs_histories (run_state run))"
proof -
  have ops: "sv_ops sv = store_checkpointer (S\<lparr>active_store := in_memory_store\<rparr>)" using assms(1,2) by simp
  have n: "run_step (rc_run (xs_ctx st)) < 2 ^ 64" using assms(7) by (simp add: checkpoint_utf8_def sync_run_def)
  have sv: "sv_ops (ex_services (top_exec sv g)) = store_checkpointer (S\<lparr>active_store := in_memory_store\<rparr>)"
    using ops by (simp add: top_exec_def)
  have "store_inv (\<lambda>kv. kv) r" using in_memory_sink.finish_saved [OF sv assms(3,5) n assms(13)] by blast
  then have sink: "resolve_sink (sv_session sv) None r = ok (store_checkpointer (S\<lparr>active_store := in_memory_store\<rparr>))"
    using assms(1) by (simp add: resolve_sink_def store_inv_def)
  have progress: "case rc_progress (xs_ctx st) of None \<Rightarrow> True | Some p \<Rightarrow> progress_sorted p" using assms(9) by simp
  have "\<exists>r'. resume_impl fuel sv None g (x_thread_id st) run0 req r =
      Some (ok (), restored_run (rc_run (sync_run st))
        (run0\<lparr>run_thread_id := x_thread_id st, run_state := empty_state, run_pending_tool_calls := []\<rparr>), r')"
    by (rule in_memory_sink.resume_reads_finished
        [OF ops assms(3,5) n assms(13,6) _ assms(8) progress _ assms(11) sink assms(4,12)])
      (use assms(7,9,10) in simp_all)
  moreover have "run_state run = clear_temp (xs_state st) \<and> run_step run = run_step (rc_run (xs_ctx st)) \<and>
      run_next_node run = run_next_node (rc_run (xs_ctx st))"
    using assms(13) by (auto simp: finish_def Let_def sync_run_def split: prod.splits sum.splits dest!: write_checkpoint_run)
  ultimately show ?thesis using assms(12) by (auto simp: restored_run_def sync_run_def clear_temp_def empty_state_def)
qed

definition done_xst :: "(unit, in_memory_state) xst" where
  "done_xst = top_state (new_ctx ((new_run ''t'')\<lparr>run_status := Run_Completed\<rparr>)) [] graph_rt"

lemma finish_done: "\<exists>run r. finish (top_exec graph_services loop_graph) None done_xst = (ok (), run, r)"
  by (simp add: finish_def write_checkpoint_def make_event_def perform_now_def now_ms_def perform_def store_checkpointer_def
      top_exec_def graph_services_def done_xst_def top_state_def new_ctx_def sync_run_def flush_result_def store_put_def
      store_append_events_def store_event_batches_def store_get_nonempty_def retrieve_memory_def store_memory_def
      graph_session_def in_memory_store_def put_in_memory_def get_in_memory_def graph_rt_def set_events_def events_of_def
      fresh_events_def Let_def split: prod.split option.split sum.split)

theorem completed_run_is_durable_witness:
  "\<exists>run r run' r'. finish (top_exec graph_services loop_graph) None done_xst = (ok (), run, r) \<and>
     resume_impl 0 graph_services None loop_graph ''t'' (new_run []) 
       \<lparr>rq_per_branch = False, rq_decision = None, rq_human_input = [], rq_inputs = []\<rparr> r = Some (ok (), run', r') \<and>
     run_status run' = Run_Completed \<and> run_step run' = run_step run"
proof -
  obtain run r where fin: "finish (top_exec graph_services loop_graph) None done_xst = (ok (), run, r)" using finish_done by blast
  have S: "sv_session graph_services = graph_session\<lparr>active_store := in_memory_store\<rparr>"
    "sv_ops graph_services = store_checkpointer (sv_session graph_services)"
    by (simp_all add: graph_services_def graph_session_def)
  have st: "x_thread_id done_xst = ''t''" "xs_rt done_xst = graph_rt" "rc_run (xs_ctx done_xst) = (new_run ''t'')\<lparr>run_status := Run_Completed\<rparr>"
    "xs_state done_xst = empty_state" "rc_progress (xs_ctx done_xst) = None"
    "rc_run (sync_run done_xst) = (new_run ''t'')\<lparr>run_status := Run_Completed\<rparr>"
    by (simp_all add: done_xst_def top_state_def new_ctx_def new_run_def sync_run_def set_events_def events_of_def graph_rt_def
        x_thread_id_def)
  have stored: "stored (\<lambda>kv. kv) graph_rt = Map.empty" by (simp add: stored_def graph_rt_def open_in_memory_def)
  have empty: "steps_at Map.empty t = Map.empty" for t by (rule ext) (simp add: steps_at_def present_def)
  have "rt_store graph_rt \<noteq> None" by (simp add: graph_rt_def)
  then have "store_inv (\<lambda>kv. kv) graph_rt" "store_saved (\<lambda>kv. kv) graph_rt ''t'' = Map.empty"
    by (simp_all add: store_inv_def store_saved_def stored thread_ok_def empty present_def)
  moreover have "json_reader (simdjson (sv_session graph_services))"
    using reference.json_reader_axioms by (simp add: graph_services_def graph_session_def)
  moreover have "checkpoint_utf8 ((new_run ''t'')\<lparr>run_status := Run_Completed\<rparr>) (gr_name loop_graph) None"
    by (simp add: checkpoint_utf8_def new_run_def empty_state_def calls_utf8_def values_utf8_def histories_utf8_def loop_graph_def
        ascii_text make_loop_def append_graph_def new_graph_def)
  moreover have "length (encode_checkpoint ((new_run ''t'')\<lparr>run_status := Run_Completed\<rparr>) (gr_name loop_graph) None) \<le> json_max_size"
    using to_string_length [of 1 0]
    by (simp add: encode_checkpoint_def new_run_def empty_state_def encode_calls_def encode_values_def encode_histories_def
        loop_graph_def make_loop_def append_graph_def new_graph_def quoted_def escape_json_string_def escape_char_def json_max_size_def status_name_def)
  moreover have "state_sorted empty_state" by (simp add: state_sorted_def empty_state_def smap_ok_def)
  ultimately show ?thesis
    using completed_run_is_durable [OF S _ _ _ _ _ _ _ _ loop_graph_valid _ fin, of 0 "new_run []"
        "\<lparr>rq_per_branch = False, rq_decision = None, rq_human_input = [], rq_inputs = []\<rparr>"] fin
    by (simp add: st) blast
qed

end
