(* ===== verification/Model_Registry.thy ===== *)
theory Model_Registry
  imports Graph_Model
begin

text \<open>
  The model registry, \<^verbatim>\<open>src/core/models/model_registry.cpp\<close>: the memory estimate of a
  model and the registry's operations. A call of the registry holds its mutex except while it
  waits on the condition variable, destroys evicted sessions or loads a model; between two such
  points it is one atomic section. \<open>call_step\<close> is one section of one call, and \<open>registry_step\<close>
  interleaves the sections of any number of calls with the release of leases, in every order and
  with spurious wake-ups. Sessions are handles. The file system, the clocks, \<open>agent::init\<close> and
  the JSON parser are parameters. The turn mutex, a lock the registry only hands on, is left out.
\<close>

section \<open>Data\<close>

text \<open>The fields of \<open>Config\<close> that only the registry and \<open>init\<close> read.\<close>

record ('w, 'm) model_config = "('w, 'm) config" +
  cfg_engine :: string
  cfg_model :: string
  cfg_engine_options :: string

text \<open>\<open>ms_on_load\<close> is the callback with its user data and the spec it is called with.\<close>

record ('w, 'm, 's) model_spec =
  ms_name :: string
  ms_config :: "('w, 'm) model_config"
  ms_estimated_bytes :: u64
  ms_pinned :: bool
  ms_on_load :: "('s \<Rightarrow> unit result) option"

record model_budget =
  mb_ram_bytes :: u64
  mb_vram_bytes :: u64
  mb_allow_overcommit :: bool
  mb_wait_ms :: int

record model_memory_estimate =
  me_file_bytes :: u64
  me_ram_bytes :: u64
  me_vram_bytes :: u64

text \<open>
  What the estimate reads: the JSON parser, the integer part of a JSON number it delivers as a
  \<open>double\<close>, and the file system (\<open>os_file_size\<close> is \<open>None\<close> on an error, \<open>os_files_below\<close> are the
  regular files a recursive walk finds).
\<close>

record os =
  os_parse :: "string \<Rightarrow> json option"
  os_trunc :: "string \<Rightarrow> int"
  os_is_directory :: "string \<Rightarrow> bool"
  os_is_regular :: "string \<Rightarrow> bool"
  os_file_size :: "string \<Rightarrow> u64 option"
  os_files_below :: "string \<Rightarrow> string list"

section \<open>Memory estimate\<close>

definition kMiB :: nat where
  "kMiB = 1024 * 1024"

text \<open>
  \<open>static_cast<double>\<close> of a 64-bit value, as the integer it denotes: 53 significant bits, rounded
  half to even.
\<close>

definition round_div :: "nat \<Rightarrow> nat \<Rightarrow> nat" where
  "round_div n d =
     (let q = n div d; r = n mod d in if 2 * r > d \<or> 2 * r = d \<and> odd q then q + 1 else q)"

definition to_double :: "nat \<Rightarrow> nat" where
  "to_double n =
     (let unit = (if n < 2 ^ 53 then 1 else 2 ^ length (filter (\<lambda>k. n \<ge> 2 ^ k) [53..<64])) in round_div n unit * unit)"

text \<open>\<open>"%.1f MiB"\<close>: the quotient by a power of two is exact, printed with one rounded decimal.\<close>

definition mib :: "u64 \<Rightarrow> string" where
  "mib bytes =
     (let tenths = round_div (10 * to_double (unat bytes)) kMiB
      in to_string (tenths div 10) @ ''.'' @ to_string (tenths mod 10) @ '' MiB'')"

record engine_factor =
  ef_kind :: string
  ef_num :: u64
  ef_den :: u64
  ef_overhead :: u64

definition factor :: "string \<Rightarrow> u64 \<Rightarrow> u64 \<Rightarrow> nat \<Rightarrow> engine_factor" where
  "factor kind num den overhead_mib =
     \<lparr>ef_kind = kind, ef_num = num, ef_den = den, ef_overhead = of_nat (overhead_mib * kMiB)\<rparr>"

definition kFactors :: "engine_factor list" where
  "kFactors =
     [factor ''mock'' 1 1 0, factor ''llama'' 1 1 64, factor ''onnx'' 3 2 32, factor ''sdcpp'' 6 5 256,
      factor ''trellis'' 6 5 512, factor ''sherpa'' 3 2 32, factor '''' 5 4 64]"

definition lower_char :: "char \<Rightarrow> char" where
  "lower_char c = (if 65 \<le> (of_char c :: nat) \<and> (of_char c :: nat) \<le> 90 then char_of ((of_char c :: nat) + 32) else c)"

definition lower :: "string \<Rightarrow> string" where
  "lower s = map lower_char s"

fun contains :: "string \<Rightarrow> string \<Rightarrow> bool" where
  "contains [] p \<longleftrightarrow> p = []"
| "contains (c # cs) p \<longleftrightarrow> starts_with (c # cs) p \<or> contains cs p"

text \<open>\<open>fs::path::filename\<close>, and the part of a path before it.\<close>

definition filename :: "string \<Rightarrow> string" where
  "filename p = rev (takeWhile (\<lambda>c. c \<noteq> CHR ''/'') (rev p))"

definition directory_part :: "string \<Rightarrow> string" where
  "directory_part p = take (length p - length (filename p)) p"

definition factor_for :: "('w, 'm) model_config \<Rightarrow> engine_factor" where
  "factor_for cfg =
     (if cfg_provider cfg = Mock then hd kFactors
      else case filter (\<lambda>f. ef_kind f \<noteq> [] \<and> contains (lower (filename (cfg_engine cfg))) (ef_kind f)) kFactors of
             f # _ \<Rightarrow> f
           | [] \<Rightarrow> last kFactors)"

definition file_size_or_zero :: "os \<Rightarrow> string \<Rightarrow> u64" where
  "file_size_or_zero os p = (case os_file_size os p of Some n \<Rightarrow> n | None \<Rightarrow> 0)"

definition directory_bytes :: "os \<Rightarrow> string \<Rightarrow> u64" where
  "directory_bytes os dir = sum_list (map (file_size_or_zero os) (os_files_below os dir))"

text \<open>\<open>rfind\<close> at or before a position, and \<open>find\<close> from one.\<close>

definition rfind :: "string \<Rightarrow> string \<Rightarrow> nat \<Rightarrow> nat option" where
  "rfind s p pos =
     (case filter (\<lambda>i. starts_with (drop i s) p) [0..<min (pos + 1) (length s)] of [] \<Rightarrow> None | is \<Rightarrow> Some (last is))"

definition find_from :: "string \<Rightarrow> char \<Rightarrow> nat \<Rightarrow> nat option" where
  "find_from s c pos = (case filter (\<lambda>i. s ! i = c) [pos..<length s] of [] \<Rightarrow> None | i # _ \<Rightarrow> Some i)"

text \<open>The shard count: digits only, with the guard against large numbers; \<open>None\<close> returns 0.\<close>

fun shard_total :: "nat \<Rightarrow> string \<Rightarrow> nat option" where
  "shard_total n [] = Some n"
| "shard_total n (c # cs) = (if \<not> is_digit c \<or> n > 100000 then None else shard_total (n * 10 + digit_value c) cs)"

definition pad_zeros :: "nat \<Rightarrow> string \<Rightarrow> string" where
  "pad_zeros n s = replicate (n - length s) (CHR ''0'') @ s"

definition other_shard_bytes :: "os \<Rightarrow> string \<Rightarrow> u64" where
  "other_shard_bytes os first =
     (let name = filename first in
      case rfind name ''-of-'' (length name) of
        None \<Rightarrow> 0
      | Some p \<Rightarrow>
          if p < 6 then 0
          else
            (case rfind name ''-'' (p - 1) of
               None \<Rightarrow> 0
             | Some dash \<Rightarrow>
                 let idx = take (p - dash - 1) (drop (dash + 1) name);
                     cnt = (case find_from name (CHR ''.'') p of
                              None \<Rightarrow> drop (p + 4) name
                            | Some dot \<Rightarrow> take (dot - p - 4) (drop (p + 4) name))
                 in if idx = [] \<or> length idx \<noteq> length cnt \<or> idx \<noteq> pad_zeros (length idx) ''1'' then 0
                    else
                      (case shard_total 0 cnt of
                         None \<Rightarrow> 0
                       | Some shards \<Rightarrow>
                           sum_list (map (\<lambda>i. file_size_or_zero os
                                (directory_part first @ take (dash + 1) name @ pad_zeros (length idx) (to_string i) @ drop p name))
                             [2..<shards + 1]))))"

text \<open>The files named by string values of the options, in the order in which they are met.\<close>

fun scan_options :: "os \<Rightarrow> string \<Rightarrow> json \<Rightarrow> string list" where
  "scan_options os model (JObject fs) = concat (map (\<lambda>(k, v). scan_options os model v) fs)"
| "scan_options os model (JArray xs) = concat (map (scan_options os model) xs)"
| "scan_options os model (JString s) =
     (if s = [] \<or> length s > 4096 \<or> s = model then [] else if os_is_regular os s then [s] else [])"
| "scan_options os model _ = []"

definition gpu_layers_option :: "os \<Rightarrow> json \<Rightarrow> int" where
  "gpu_layers_option os root =
     (case get_object (Some root) of
        None \<Rightarrow> -1
      | Some fs \<Rightarrow>
          (case map_of fs ''gpu_layers'' of
             Some (JInt i) \<Rightarrow> max (-1) (min (2 ^ 20) i)
           | Some (JReal t) \<Rightarrow> max (-1) (min (2 ^ 20) (os_trunc os t))
           | _ \<Rightarrow> -1))"

text \<open>The engine options: \<open>gpu_layers\<close> and the extra files, a \<open>std::set\<close>.\<close>

definition read_options :: "os \<Rightarrow> ('w, 'm, 's) model_spec \<Rightarrow> (int \<times> string list) result" where
  "read_options os spec =
     (let cfg = ms_config spec in
      if cfg_engine_options cfg = [] then ok (-1, [])
      else case os_parse os (cfg_engine_options cfg) of
             None \<Rightarrow> fail InvalidConfig (''model '' @ squote (ms_name spec) @ '': engine_options is not valid JSON'')
           | Some root \<Rightarrow>
               ok (gpu_layers_option os root,
                   if ms_estimated_bytes spec = 0 then remdups (scan_options os (cfg_model cfg) root) else []))"

definition model_file_bytes :: "os \<Rightarrow> ('w, 'm, 's) model_spec \<Rightarrow> u64 result" where
  "model_file_bytes os spec =
     (let cfg = ms_config spec; model = cfg_model cfg in
      if model = [] then ok 0
      else if os_is_directory os model then ok (directory_bytes os model)
      else if os_is_regular os model then ok (file_size_or_zero os model + other_shard_bytes os model)
      else if cfg_provider cfg = Engine then
        fail FilesystemError (''model '' @ squote (ms_name spec) @ '': no such file: '' @ model @
          '' (set ModelSpec::estimated_bytes to skip the estimate)'')
      else ok 0)"

definition resident_bytes :: "('w, 'm) model_config \<Rightarrow> engine_factor \<Rightarrow> u64 \<Rightarrow> u64" where
  "resident_bytes cfg f bytes =
     (let weights = bytes div ef_den f * ef_num f + bytes mod ef_den f * ef_num f div ef_den f;
          slots = of_int (max 1 (cfg_max_parallel_subagents cfg));
          ctx = of_int (max 1 (cfg_context_window cfg));
          per_token = max (bytes div 32768) 64;
          kv = (if ef_kind f = ''llama'' then ctx * slots * per_token else 0)
      in weights + kv + ef_overhead f)"

definition estimate_model_memory :: "os \<Rightarrow> ('w, 'm, 's) model_spec \<Rightarrow> model_memory_estimate result" where
  "estimate_model_memory os spec =
     (case read_options os spec of
        Inl e \<Rightarrow> Inl e
      | Inr (gpu_layers, extra_files) \<Rightarrow>
          let f = factor_for (ms_config spec);
              place = (\<lambda>bytes total.
                if gpu_layers > 0
                then \<lparr>me_file_bytes = bytes, me_ram_bytes = min total (ef_overhead f), me_vram_bytes = total\<rparr>
                else \<lparr>me_file_bytes = bytes, me_ram_bytes = total, me_vram_bytes = 0\<rparr>)
          in if ms_estimated_bytes spec \<noteq> 0 then ok (place 0 (ms_estimated_bytes spec))
             else case model_file_bytes os spec of
                    Inl e \<Rightarrow> Inl e
                  | Inr n \<Rightarrow>
                      let bytes = n + sum_list (map (file_size_or_zero os) extra_files)
                      in ok (place bytes (resident_bytes (ms_config spec) f bytes)))"

section \<open>Registry\<close>

datatype entry_status = Unloaded | Loading | Loaded

record ('w, 'm, 's) entry =
  en_spec :: "('w, 'm, 's) model_spec"
  en_status :: entry_status
  en_session :: "'s option"
  en_ram :: u64
  en_vram :: u64
  en_leases :: int
  en_use_tick :: u64
  en_loaded_at_ms :: int
  en_last_used_ms :: int
  en_load_time_ms :: int

definition new_entry :: "('w, 'm, 's) model_spec \<Rightarrow> ('w, 'm, 's) entry" where
  "new_entry spec =
     \<lparr>en_spec = spec, en_status = Unloaded, en_session = None, en_ram = 0, en_vram = 0, en_leases = 0, en_use_tick = 0,
      en_loaded_at_ms = 0, en_last_used_ms = 0, en_load_time_ms = 0\<rparr>"

record ('w, 'm, 's) registry =
  rg_budget :: model_budget
  rg_entries :: "('w, 'm, 's) entry std_map"
  rg_ram_used :: u64
  rg_vram_used :: u64
  rg_ram_releasing :: u64
  rg_vram_releasing :: u64
  rg_tick :: u64

definition new_registry :: "model_budget \<Rightarrow> ('w, 'm, 's) registry" where
  "new_registry budget =
     \<lparr>rg_budget = budget, rg_entries = [], rg_ram_used = 0, rg_vram_used = 0, rg_ram_releasing = 0,
      rg_vram_releasing = 0, rg_tick = 0\<rparr>"

record 's doomed =
  dm_session :: "'s option"
  dm_ram :: u64
  dm_vram :: u64

record 's lease =
  le_session :: "'s option"
  le_name :: string

definition set_entry :: "string \<Rightarrow> ('w, 'm, 's) entry \<Rightarrow> ('w, 'm, 's) registry \<Rightarrow> ('w, 'm, 's) registry" where
  "set_entry name e st = st\<lparr>rg_entries := smap_put name e (rg_entries st)\<rparr>"

definition touch :: "int \<Rightarrow> string \<Rightarrow> ('w, 'm, 's) entry \<Rightarrow> ('w, 'm, 's) registry \<Rightarrow> ('w, 'm, 's) registry" where
  "touch wall name e st =
     set_entry name (e\<lparr>en_use_tick := rg_tick st + 1, en_last_used_ms := wall\<rparr>) (st\<lparr>rg_tick := rg_tick st + 1\<rparr>)"

definition take_out ::
    "string \<Rightarrow> ('w, 'm, 's) entry \<Rightarrow> ('w, 'm, 's) registry \<Rightarrow> 's doomed \<times> ('w, 'm, 's) registry" where
  "take_out name e st =
     (\<lparr>dm_session = en_session e, dm_ram = en_ram e, dm_vram = en_vram e\<rparr>,
      set_entry name (e\<lparr>en_session := None, en_status := Unloaded, en_ram := 0, en_vram := 0\<rparr>)
        (st\<lparr>rg_ram_releasing := rg_ram_releasing st + en_ram e, rg_vram_releasing := rg_vram_releasing st + en_vram e\<rparr>))"

text \<open>The end of \<open>destroy\<close>, after the sessions are gone and the lock is taken again.\<close>

definition uncharge :: "'s doomed list \<Rightarrow> ('w, 'm, 's) registry \<Rightarrow> ('w, 'm, 's) registry" where
  "uncharge doomed st =
     (let ram = sum_list (map dm_ram doomed); vram = sum_list (map dm_vram doomed) in
      st\<lparr>rg_ram_used := rg_ram_used st - ram, rg_vram_used := rg_vram_used st - vram,
         rg_ram_releasing := rg_ram_releasing st - ram, rg_vram_releasing := rg_vram_releasing st - vram\<rparr>)"

definition fits :: "u64 \<Rightarrow> u64 \<Rightarrow> u64 \<Rightarrow> bool" where
  "fits limit used need \<longleftrightarrow> limit = 0 \<or> used + need \<le> limit"

definition idle :: "('w, 'm, 's) entry \<Rightarrow> bool" where
  "idle e \<longleftrightarrow> en_status e = Loaded \<and> en_leases e = 0 \<and> \<not> ms_pinned (en_spec e)"

definition evictable :: "('w, 'm, 's) registry \<Rightarrow> string option \<Rightarrow> (string \<times> ('w, 'm, 's) entry) list" where
  "evictable st except =
     sort_key (\<lambda>(_, e). en_use_tick e) (filter (\<lambda>(name, e). Some name \<noteq> except \<and> idle e) (rg_entries st))"

text \<open>The loop of \<open>plan\<close>, with the bytes still used and the number of models chosen so far.\<close>

fun plan_from ::
    "model_budget \<Rightarrow> u64 \<Rightarrow> u64 \<Rightarrow> (string \<times> ('w, 'm, 's) entry) list \<Rightarrow> u64 \<Rightarrow> u64 \<Rightarrow> nat \<Rightarrow> bool \<times> nat" where
  "plan_from b ram vram candidates need_ram need_vram n =
     (if fits (mb_ram_bytes b) ram need_ram \<and> fits (mb_vram_bytes b) vram need_vram then (True, n)
      else case candidates of
             [] \<Rightarrow> (False, n)
           | (_, e) # rest \<Rightarrow> plan_from b (ram - en_ram e) (vram - en_vram e) rest need_ram need_vram (n + 1))"

declare plan_from.simps [simp del]

definition plan ::
    "('w, 'm, 's) registry \<Rightarrow> (string \<times> ('w, 'm, 's) entry) list \<Rightarrow> u64 \<Rightarrow> u64 \<Rightarrow> bool \<times> nat" where
  "plan st candidates need_ram need_vram =
     plan_from (rg_budget st) (rg_ram_used st) (rg_vram_used st) candidates need_ram need_vram 0"

fun evict :: "(string \<times> ('w, 'm, 's) entry) list \<Rightarrow> ('w, 'm, 's) registry \<Rightarrow> 's doomed list \<times> ('w, 'm, 's) registry" where
  "evict [] st = ([], st)"
| "evict ((name, e) # rest) st =
     (case take_out name e st of (d, st1) \<Rightarrow> case evict rest st1 of (ds, st2) \<Rightarrow> (d # ds, st2))"

definition held_by :: "string \<times> ('w, 'm, 's) entry \<Rightarrow> string" where
  "held_by ne =
     (case ne of (name, e) \<Rightarrow>
        name @ '' '' @ mib (en_ram e + en_vram e) @
        (if en_status e = Loading then '' loading''
         else if en_leases e \<noteq> 0 then '' in use''
         else if ms_pinned (en_spec e) then '' pinned'' else []))"

definition out_of_memory_message ::
    "('w, 'm, 's) registry \<Rightarrow> string \<Rightarrow> ('w, 'm, 's) entry \<Rightarrow> model_memory_estimate \<Rightarrow> string" where
  "out_of_memory_message st name e est =
     (let b = rg_budget st;
          held = map held_by (filter (\<lambda>(k, x). en_status x \<noteq> Unloaded \<and> k \<noteq> name) (rg_entries st))
      in ''model '' @ squote (ms_name (en_spec e)) @ '' needs '' @ mib (me_ram_bytes est) @ '' RAM'' @
         (if me_vram_bytes est \<noteq> 0 then '' + '' @ mib (me_vram_bytes est) @ '' VRAM'' else []) @
         ''; budget '' @ (if mb_ram_bytes b \<noteq> 0 then mib (mb_ram_bytes b) else ''unlimited'') @ '' RAM'' @
         (if mb_vram_bytes b \<noteq> 0 then '' / '' @ mib (mb_vram_bytes b) @ '' VRAM'' else []) @
         '', and the loaded models that cannot be evicted use '' @ mib (rg_ram_used st) @
         (if held = [] then [] else '' ('' @ sep_by '', '' held @ '')'') @
         ''. Release a lease, unload a model, raise the budget or set allow_overcommit.'')"

definition make_lease :: "('w, 'm, 's) entry \<Rightarrow> 's lease" where
  "make_lease e = \<lparr>le_session = en_session e, le_name = ms_name (en_spec e)\<rparr>"

text \<open>The deleter of \<open>ModelLease::hold\<close>, run when the last copy of a lease is gone.\<close>

definition release_model :: "int \<Rightarrow> string \<Rightarrow> ('w, 'm, 's) registry \<Rightarrow> ('w, 'm, 's) registry" where
  "release_model wall name st =
     (case smap_find (rg_entries st) name of
        None \<Rightarrow> st
      | Some e \<Rightarrow> touch wall name (e\<lparr>en_leases := en_leases e - 1\<rparr>) st)"

definition has_model :: "('w, 'm, 's) registry \<Rightarrow> string \<Rightarrow> bool" where
  "has_model st name \<longleftrightarrow> smap_find (rg_entries st) name \<noteq> None"

text \<open>
  \<open>loaded_models\<close>: the loaded and loading models, most recently used first. Loaded models have
  distinct ticks.
\<close>

record loaded_model_info =
  lm_name :: string
  lm_ram_bytes :: u64
  lm_vram_bytes :: u64
  lm_pinned :: bool
  lm_leases :: int
  lm_loaded_at_ms :: int
  lm_last_used_ms :: int
  lm_load_time_ms :: int

definition model_info :: "string \<times> ('w, 'm, 's) entry \<Rightarrow> loaded_model_info" where
  "model_info ne =
     (case ne of (name, e) \<Rightarrow>
        \<lparr>lm_name = name, lm_ram_bytes = en_ram e, lm_vram_bytes = en_vram e, lm_pinned = ms_pinned (en_spec e),
         lm_leases = en_leases e, lm_loaded_at_ms = en_loaded_at_ms e, lm_last_used_ms = en_last_used_ms e,
         lm_load_time_ms = en_load_time_ms e\<rparr>)"

definition loaded_models :: "('w, 'm, 's) registry \<Rightarrow> loaded_model_info list" where
  "loaded_models st =
     map model_info (sort_key (\<lambda>(_, e). - int (unat (en_use_tick e)))
       (filter (\<lambda>(_, e). en_status e \<noteq> Unloaded) (rg_entries st)))"

section \<open>Calls\<close>

text \<open>
  A call in progress, by the point at which it last let go of the lock. The argument of \<open>Acquire\<close>
  is the deadline, once it has been computed; \<open>Acquire\<close>, \<open>Unload\<close> and \<open>Register\<close> are also the states
  of a call that waits on the condition variable and will look again.
\<close>

datatype ('w, 'm, 's) call =
    Acquire string "int option"
  | Acquire_Destroying string "'s doomed list"
  | Acquire_Loading string "('w, 'm, 's) model_spec"
  | Unload string
  | Unload_Destroying "'s doomed list"
  | Register "('w, 'm, 's) model_spec"
  | Register_Destroying "('w, 'm, 's) model_spec" "'s doomed list"
  | Set_Budget model_budget
  | Budget_Destroying "'s doomed list"

datatype ('w, 'm, 's) outcome =
    Continues "('w, 'm, 's) call"
  | Leased "'s lease"
  | Returned "unit result"

text \<open>What a section reads from outside: the file system, the two clocks and \<open>agent::init\<close>.\<close>

record ('w, 'm, 's) surroundings =
  su_os :: os
  su_steady_ms :: int
  su_wall_ms :: int
  su_load_ms :: int
  su_init :: "('w, 'm) model_config \<Rightarrow> 's result"

text \<open>
  The end of the loop of \<open>acquire_model\<close>: the victims are taken out and the model is reserved. With
  no victim \<open>destroy\<close> returns at once, and the call goes on to load the model.
\<close>

definition reserve ::
    "string \<Rightarrow> ('w, 'm, 's) entry \<Rightarrow> model_memory_estimate \<Rightarrow> (string \<times> ('w, 'm, 's) entry) list \<Rightarrow> ('w, 'm, 's) registry \<Rightarrow>
     ('w, 'm, 's) outcome \<times> ('w, 'm, 's) registry" where
  "reserve name e est victims st =
     (case evict victims st of
        (doomed, st1) \<Rightarrow>
          let e1 = e\<lparr>en_status := Loading, en_ram := me_ram_bytes est, en_vram := me_vram_bytes est\<rparr>;
              st2 = set_entry name e1 (st1\<lparr>rg_ram_used := rg_ram_used st1 + me_ram_bytes est,
                                          rg_vram_used := rg_vram_used st1 + me_vram_bytes est\<rparr>)
          in (Continues (if doomed = [] then Acquire_Loading name (en_spec e) else Acquire_Destroying name doomed), st2))"

text \<open>One pass of the loop of \<open>acquire_model\<close> over an unloaded model.\<close>

definition acquire_unloaded ::
    "('w, 'm, 's) surroundings \<Rightarrow> string \<Rightarrow> int \<Rightarrow> ('w, 'm, 's) entry \<Rightarrow> ('w, 'm, 's) registry \<Rightarrow>
     ('w, 'm, 's) outcome \<times> ('w, 'm, 's) registry" where
  "acquire_unloaded su name deadline e st =
     (case estimate_model_memory (su_os su) (en_spec e) of
        Inl er \<Rightarrow> (Returned (Inl er), st)
      | Inr est \<Rightarrow>
          let candidates = evictable st (Some name) in
          (case plan st candidates (me_ram_bytes est) (me_vram_bytes est) of
             (True, n) \<Rightarrow> reserve name e est (take n candidates) st
           | (False, _) \<Rightarrow>
               if rg_ram_releasing st > 0 \<or> rg_vram_releasing st > 0 then (Continues (Acquire name (Some deadline)), st)
               else if \<not> mb_allow_overcommit (rg_budget st) \<and> su_steady_ms su < deadline then
                 (Continues (Acquire name (Some deadline)), st)
               else if \<not> mb_allow_overcommit (rg_budget st) then
                 (Returned (fail OutOfMemory (''acquire_model: '' @ out_of_memory_message st name e est)), st)
               else reserve name e est candidates st))"

definition acquire_section ::
    "('w, 'm, 's) surroundings \<Rightarrow> string \<Rightarrow> int option \<Rightarrow> ('w, 'm, 's) registry \<Rightarrow>
     ('w, 'm, 's) outcome \<times> ('w, 'm, 's) registry" where
  "acquire_section su name dl st =
     (case smap_find (rg_entries st) name of
        None \<Rightarrow> (Returned (fail KeyNotFound (''no model named '' @ squote name @ '' is registered'')), st)
      | Some e \<Rightarrow>
          let deadline = (case dl of Some d \<Rightarrow> d | None \<Rightarrow> su_steady_ms su + max 0 (mb_wait_ms (rg_budget st))) in
          (case en_status e of
             Loaded \<Rightarrow>
               let e1 = e\<lparr>en_leases := en_leases e + 1\<rparr> in (Leased (make_lease e1), touch (su_wall_ms su) name e1 st)
           | Loading \<Rightarrow> (Continues (Acquire name (Some deadline)), st)
           | Unloaded \<Rightarrow> acquire_unloaded su name deadline e st))"

text \<open>The part of \<open>acquire_model\<close> that runs without the lock.\<close>

definition load_session :: "('w, 'm, 's) surroundings \<Rightarrow> ('w, 'm, 's) model_spec \<Rightarrow> 's result" where
  "load_session su spec =
     (case su_init su (ms_config spec) of
        Inl er \<Rightarrow> Inl (Error (code er) (''model '' @ squote (ms_name spec) @ '': '' @ message er))
      | Inr s \<Rightarrow>
          (case ms_on_load spec of
             None \<Rightarrow> ok s
           | Some f \<Rightarrow>
               (case f s of
                  Inr _ \<Rightarrow> ok s
                | Inl er \<Rightarrow> Inl (Error (code er) (''model '' @ squote (ms_name spec) @ '': on_load: '' @ message er)))))"

definition finish_load ::
    "('w, 'm, 's) surroundings \<Rightarrow> string \<Rightarrow> 's result \<Rightarrow> ('w, 'm, 's) registry \<Rightarrow> ('w, 'm, 's) outcome \<times> ('w, 'm, 's) registry" where
  "finish_load su name session st =
     (case smap_find (rg_entries st) name of
        None \<Rightarrow> (Returned (ok ()), st)
      | Some e \<Rightarrow>
          (case session of
             Inl er \<Rightarrow>
               (Returned (Inl er),
                set_entry name (e\<lparr>en_ram := 0, en_vram := 0, en_status := Unloaded\<rparr>)
                  (st\<lparr>rg_ram_used := rg_ram_used st - en_ram e, rg_vram_used := rg_vram_used st - en_vram e\<rparr>))
           | Inr s \<Rightarrow>
               let e1 = e\<lparr>en_session := Some s, en_status := Loaded, en_leases := 1, en_loaded_at_ms := su_wall_ms su,
                          en_load_time_ms := su_load_ms su\<rparr>
               in (Leased (make_lease e1), touch (su_wall_ms su) name e1 st)))"

text \<open>
  Entries are never erased: where a call finds its entry again, the case of a missing one does not
  occur.

  \<open>unload_locked\<close>: it waits, ends, or has taken the session out.
\<close>

datatype 's unloading = Wait_For_Load | Unload_Done "unit result" | Taken_Out "'s doomed"

definition unload_locked :: "string \<Rightarrow> ('w, 'm, 's) entry \<Rightarrow> ('w, 'm, 's) registry \<Rightarrow> 's unloading \<times> ('w, 'm, 's) registry" where
  "unload_locked name e st =
     (if en_status e = Loading then (Wait_For_Load, st)
      else if en_status e = Unloaded then (Unload_Done (ok ()), st)
      else if en_leases e > 0 then
        (Unload_Done (fail InvalidConfig (''model '' @ squote (ms_name (en_spec e)) @ '' is in use ('' @
           to_string_int (en_leases e) @ '' lease(s))'')), st)
      else case take_out name e st of (d, st1) \<Rightarrow> (Taken_Out d, st1))"

definition prefix_error :: "string \<Rightarrow> unit result \<Rightarrow> unit result" where
  "prefix_error p res = (case res of Inr _ \<Rightarrow> ok () | Inl er \<Rightarrow> Inl (Error (code er) (p @ message er)))"

definition unload_section :: "string \<Rightarrow> ('w, 'm, 's) registry \<Rightarrow> ('w, 'm, 's) outcome \<times> ('w, 'm, 's) registry" where
  "unload_section name st =
     (case smap_find (rg_entries st) name of
        None \<Rightarrow> (Returned (fail KeyNotFound (''no model named '' @ squote name @ '' is registered'')), st)
      | Some e \<Rightarrow>
          (case unload_locked name e st of
             (Wait_For_Load, st1) \<Rightarrow> (Continues (Unload name), st1)
           | (Unload_Done res, st1) \<Rightarrow> (Returned (prefix_error ''unload_model: '' res), st1)
           | (Taken_Out d, st1) \<Rightarrow> (Continues (Unload_Destroying [d]), st1)))"

text \<open>The end of \<open>register_model\<close> on a known name: nobody may have loaded it again meanwhile.\<close>

definition replace_spec :: "('w, 'm, 's) model_spec \<Rightarrow> ('w, 'm, 's) registry \<Rightarrow> ('w, 'm, 's) outcome \<times> ('w, 'm, 's) registry" where
  "replace_spec spec st =
     (case smap_find (rg_entries st) (ms_name spec) of
        None \<Rightarrow> (Returned (ok ()), st)
      | Some e \<Rightarrow>
          if en_status e \<noteq> Unloaded then
            (Returned (fail InvalidConfig (''register_model: model '' @ squote (ms_name (en_spec e)) @ '' is in use'')), st)
          else (Returned (ok ()), set_entry (ms_name spec) (e\<lparr>en_spec := spec\<rparr>) st))"

definition register_section :: "('w, 'm, 's) model_spec \<Rightarrow> ('w, 'm, 's) registry \<Rightarrow> ('w, 'm, 's) outcome \<times> ('w, 'm, 's) registry" where
  "register_section spec st =
     (if ms_name spec = [] then (Returned (fail InvalidConfig ''register_model: the model name is empty''), st)
      else case smap_find (rg_entries st) (ms_name spec) of
             None \<Rightarrow> (Returned (ok ()), set_entry (ms_name spec) (new_entry spec) st)
           | Some e \<Rightarrow>
               (case unload_locked (ms_name spec) e st of
                  (Wait_For_Load, st1) \<Rightarrow> (Continues (Register spec), st1)
                | (Unload_Done (Inl er), st1) \<Rightarrow> (Returned (prefix_error ''register_model: '' (Inl er)), st1)
                | (Unload_Done (Inr _), st1) \<Rightarrow> replace_spec spec st1
                | (Taken_Out d, st1) \<Rightarrow> (Continues (Register_Destroying spec [d]), st1)))"

definition set_budget_section :: "model_budget \<Rightarrow> ('w, 'm, 's) registry \<Rightarrow> ('w, 'm, 's) outcome \<times> ('w, 'm, 's) registry" where
  "set_budget_section budget st =
     (let st1 = st\<lparr>rg_budget := budget\<rparr>; candidates = evictable st1 None;
          n = (case plan st1 candidates 0 0 of (True, n) \<Rightarrow> n | (False, _) \<Rightarrow> length candidates)
      in case evict (take n candidates) st1 of
           (doomed, st2) \<Rightarrow> (if doomed = [] then Returned (ok ()) else Continues (Budget_Destroying doomed), st2))"

fun call_step ::
    "('w, 'm, 's) surroundings \<Rightarrow> ('w, 'm, 's) call \<Rightarrow> ('w, 'm, 's) registry \<Rightarrow> ('w, 'm, 's) outcome \<times> ('w, 'm, 's) registry" where
  "call_step su (Acquire name dl) st = acquire_section su name dl st"
| "call_step su (Acquire_Destroying name doomed) st =
     (let st1 = uncharge doomed st in
      case smap_find (rg_entries st1) name of
        None \<Rightarrow> (Returned (ok ()), st1)
      | Some e \<Rightarrow> (Continues (Acquire_Loading name (en_spec e)), st1))"
| "call_step su (Acquire_Loading name spec) st = finish_load su name (load_session su spec) st"
| "call_step su (Unload name) st = unload_section name st"
| "call_step su (Unload_Destroying doomed) st = (Returned (ok ()), uncharge doomed st)"
| "call_step su (Register spec) st = register_section spec st"
| "call_step su (Register_Destroying spec doomed) st = replace_spec spec (uncharge doomed st)"
| "call_step su (Set_Budget budget) st = set_budget_section budget st"
| "call_step su (Budget_Destroying doomed) st = (Returned (ok ()), uncharge doomed st)"

section \<open>Interleavings\<close>

text \<open>
  The registry, the calls in progress (in the order of their last section) and the leases held.
  Any call may start, any call may run its next section, and any lease may be released, whatever the
  others do. The parameters bound what happens around the registry: the calls that are made, and the
  surroundings their sections see.
\<close>

record ('w, 'm, 's) system =
  sy_registry :: "('w, 'm, 's) registry"
  sy_calls :: "('w, 'm, 's) call list"
  sy_leases :: "'s lease list"

definition system_start :: "model_budget \<Rightarrow> ('w, 'm, 's) system" where
  "system_start budget = \<lparr>sy_registry = new_registry budget, sy_calls = [], sy_leases = []\<rparr>"

fun starts_call :: "('w, 'm, 's) call \<Rightarrow> bool" where
  "starts_call (Acquire _ dl) \<longleftrightarrow> dl = None"
| "starts_call (Unload _) \<longleftrightarrow> True"
| "starts_call (Register _) \<longleftrightarrow> True"
| "starts_call (Set_Budget _) \<longleftrightarrow> True"
| "starts_call _ \<longleftrightarrow> False"

definition after_step ::
    "('w, 'm, 's) call list \<Rightarrow> ('w, 'm, 's) outcome \<times> ('w, 'm, 's) registry \<Rightarrow> 's lease list \<Rightarrow> ('w, 'm, 's) system" where
  "after_step calls out leases =
     (case out of
        (Continues c, st) \<Rightarrow> \<lparr>sy_registry = st, sy_calls = calls @ [c], sy_leases = leases\<rparr>
      | (Leased l, st) \<Rightarrow> \<lparr>sy_registry = st, sy_calls = calls, sy_leases = leases @ [l]\<rparr>
      | (Returned _, st) \<Rightarrow> \<lparr>sy_registry = st, sy_calls = calls, sy_leases = leases\<rparr>)"

inductive registry_step ::
    "(('w, 'm, 's) call \<Rightarrow> bool) \<Rightarrow> (('w, 'm, 's) surroundings \<Rightarrow> bool) \<Rightarrow> ('w, 'm, 's) system \<Rightarrow> ('w, 'm, 's) system \<Rightarrow> bool"
  for made :: "('w, 'm, 's) call \<Rightarrow> bool" and seen :: "('w, 'm, 's) surroundings \<Rightarrow> bool" where
  start: "made c \<Longrightarrow> starts_call c \<Longrightarrow> registry_step made seen sy (sy\<lparr>sy_calls := sy_calls sy @ [c]\<rparr>)"
| run_section: "sy_calls sy = xs @ c # ys \<Longrightarrow> seen su \<Longrightarrow>
    registry_step made seen sy (after_step (xs @ ys) (call_step su c (sy_registry sy)) (sy_leases sy))"
| release: "sy_leases sy = xs @ l # ys \<Longrightarrow>
    registry_step made seen sy
      (sy\<lparr>sy_registry := release_model wall (le_name l) (sy_registry sy), sy_leases := xs @ ys\<rparr>)"

inductive reachable ::
    "(('w, 'm, 's) call \<Rightarrow> bool) \<Rightarrow> (('w, 'm, 's) surroundings \<Rightarrow> bool) \<Rightarrow> model_budget \<Rightarrow> ('w, 'm, 's) system \<Rightarrow> bool"
  for made seen budget where
  initial: "reachable made seen budget (system_start budget)"
| step: "reachable made seen budget sy \<Longrightarrow> registry_step made seen sy sy' \<Longrightarrow> reachable made seen budget sy'"

end
