(* ===== verification/Registry_Budget.thy ===== *)
theory Registry_Budget
  imports Registry_Props
begin

text \<open>
  The budget of the model registry. A model is reserved before its victims are destroyed, so that the
  accounts can exceed the budget for a while; the memory of the models that exist, loaded, being
  loaded or still being destroyed, does not.
\<close>

section \<open>The two kinds of memory\<close>

datatype dim = Ram | Vram

primrec used :: "dim \<Rightarrow> ('w, 'm, 's) registry \<Rightarrow> u64" where
  "used Ram = rg_ram_used"
| "used Vram = rg_vram_used"

primrec en_mem :: "dim \<Rightarrow> ('w, 'm, 's) entry \<Rightarrow> u64" where
  "en_mem Ram = en_ram"
| "en_mem Vram = en_vram"

primrec dm_mem :: "dim \<Rightarrow> 's doomed \<Rightarrow> u64" where
  "dm_mem Ram = dm_ram"
| "dm_mem Vram = dm_vram"

primrec me_mem :: "dim \<Rightarrow> model_memory_estimate \<Rightarrow> u64" where
  "me_mem Ram = me_ram_bytes"
| "me_mem Vram = me_vram_bytes"

primrec mb_limit :: "dim \<Rightarrow> model_budget \<Rightarrow> u64" where
  "mb_limit Ram = mb_ram_bytes"
| "mb_limit Vram = mb_vram_bytes"

definition bytes :: "u64 \<Rightarrow> int" where
  "bytes w = int (unat w)"

lemma bytes_nonneg [simp]: "0 \<le> bytes w"
  by (simp add: bytes_def)

lemma bytes_0 [simp]: "bytes 0 = 0"
  by (simp add: bytes_def)

lemma of_int_bytes [simp]: "of_int (bytes w) = w"
  by (simp add: bytes_def)

lemma bytes_of_int: "0 \<le> i \<Longrightarrow> i < 2 ^ 64 \<Longrightarrow> bytes (of_int i) = i"
  by (simp add: bytes_def unsigned_of_int take_bit_int_eq_self)

lemma of_int_sum_bytes: "of_int (\<Sum>x\<leftarrow>xs. bytes (f x)) = (\<Sum>x\<leftarrow>xs. f x)"
  by (induction xs) simp_all

lemma sum_bytes_nonneg [simp]: "0 \<le> (\<Sum>x\<leftarrow>xs. bytes (f x))"
  by (induction xs) (simp_all add: add_nonneg_nonneg)

section \<open>Totals\<close>

text \<open>The bytes of all entries and of all sessions being destroyed, without wrap-around.\<close>

definition total_bytes :: "dim \<Rightarrow> ('w, 'm, 's) registry \<Rightarrow> ('w, 'm, 's) call list \<Rightarrow> int" where
  "total_bytes d st calls = in_entries (\<lambda>e. bytes (en_mem d e)) st + in_calls (\<lambda>x. bytes (dm_mem d x)) calls"

text \<open>What a call has reserved for a model it does not load yet, because it still destroys.\<close>

fun reserved :: "dim \<Rightarrow> ('w, 'm, 's) registry \<Rightarrow> ('w, 'm, 's) call \<Rightarrow> int" where
  "reserved d st (Acquire_Destroying k _) =
     (case smap_find (rg_entries st) k of Some e \<Rightarrow> bytes (en_mem d e) | None \<Rightarrow> 0)"
| "reserved d st _ = 0"

fun reserving :: "('w, 'm, 's) call \<Rightarrow> bool" where
  "reserving (Acquire_Destroying _ _) \<longleftrightarrow> True"
| "reserving _ \<longleftrightarrow> False"

definition doomed_bytes :: "dim \<Rightarrow> ('w, 'm, 's) call \<Rightarrow> int" where
  "doomed_bytes d c = (\<Sum>x\<leftarrow>doomed_of c. bytes (dm_mem d x))"

text \<open>The memory of the models that exist.\<close>

definition physical_bytes :: "dim \<Rightarrow> ('w, 'm, 's) system \<Rightarrow> int" where
  "physical_bytes d sy =
     total_bytes d (sy_registry sy) (sy_calls sy) - (\<Sum>c\<leftarrow>sy_calls sy. reserved d (sy_registry sy) c)"

lemma reserved_nonneg [simp]: "0 \<le> reserved d st c"
  by (cases c) (simp_all split: option.split)

lemma reserved_idle: "\<not> reserving c \<Longrightarrow> reserved d st c = 0"
  by (cases c) simp_all

lemma doomed_bytes_nonneg [simp]: "0 \<le> doomed_bytes d c"
  by (simp add: doomed_bytes_def)

lemma sum_reserved_nonneg [simp]: "0 \<le> (\<Sum>c\<leftarrow>cs. reserved d st c)"
  by (induction cs) (simp_all add: add_nonneg_nonneg)

lemma used_total:
  assumes "ledger st calls" "0 \<le> total_bytes d st calls" "total_bytes d st calls < 2 ^ 64"
  shows "bytes (used d st) = total_bytes d st calls"
proof -
  have "of_int (in_entries (\<lambda>e. bytes (en_mem d e)) st) = (in_entries (en_mem d) st :: u64)"
    unfolding in_entries_def by (rule of_int_sum_bytes)
  moreover have "of_int (in_calls (\<lambda>x. bytes (dm_mem d x)) calls) = (in_calls (dm_mem d) calls :: u64)"
    by (induction calls) (simp_all add: of_int_sum_bytes)
  ultimately have "of_int (total_bytes d st calls) = (in_entries (en_mem d) st + in_calls (dm_mem d) calls :: u64)"
    by (simp add: total_bytes_def)
  also have "\<dots> = used d st" using assms(1) by (cases d) (simp_all add: ledger_def)
  finally show ?thesis using bytes_of_int [OF assms(2,3)] by simp
qed

fun call_made :: "(('w, 'm, 's) call \<Rightarrow> bool) \<Rightarrow> ('w, 'm, 's) call \<Rightarrow> bool" where
  "call_made made (Register_Destroying spec _) \<longleftrightarrow> made (Register spec)"
| "call_made made (Register spec) \<longleftrightarrow> made (Register spec)"
| "call_made made (Set_Budget b) \<longleftrightarrow> made (Set_Budget b)"
| "call_made made _ \<longleftrightarrow> True"

section \<open>Plans\<close>

lemma plan_from_fits:
  assumes "plan_from b ram vram cands nr nv n = (True, m)"
  shows "n \<le> m \<and> m \<le> n + length cands \<and>
    fits (mb_ram_bytes b) (ram - (\<Sum>x\<leftarrow>take (m - n) cands. en_ram (snd x))) nr \<and>
    fits (mb_vram_bytes b) (vram - (\<Sum>x\<leftarrow>take (m - n) cands. en_vram (snd x))) nv"
  using assms
proof (induction cands arbitrary: ram vram n)
  case Nil
  then show ?case by (subst (asm) plan_from.simps) (auto split: if_splits)
next
  case (Cons c cands)
  show ?case
  proof (cases "fits (mb_ram_bytes b) ram nr \<and> fits (mb_vram_bytes b) vram nv")
    case True
    then have "m = n" using Cons.prems by (subst (asm) plan_from.simps) simp
    then show ?thesis using True by simp
  next
    case False
    have "plan_from b (ram - en_ram (snd c)) (vram - en_vram (snd c)) cands nr nv (n + 1) = (True, m)"
      using Cons.prems False by (subst (asm) plan_from.simps) (auto split: if_splits prod.splits)
    from Cons.IH [OF this] have IH: "n + 1 \<le> m" "m \<le> n + 1 + length cands"
      "fits (mb_ram_bytes b) (ram - en_ram (snd c) - (\<Sum>x\<leftarrow>take (m - (n + 1)) cands. en_ram (snd x))) nr"
      "fits (mb_vram_bytes b) (vram - en_vram (snd c) - (\<Sum>x\<leftarrow>take (m - (n + 1)) cands. en_vram (snd x))) nv"
      by auto
    have "m - n = Suc (m - (n + 1))" using IH(1) by simp
    then show ?thesis using IH by (simp add: algebra_simps)
  qed
qed

lemma plan_fits:
  assumes "plan st cands nr nv = (True, m)"
  shows "fits (mb_limit d (rg_budget st)) (used d st - (\<Sum>x\<leftarrow>take m cands. en_mem d (snd x)))
           (case d of Ram \<Rightarrow> nr | Vram \<Rightarrow> nv)"
  using plan_from_fits [OF assms [unfolded plan_def]] by (cases d) simp_all

section \<open>The order of reservations\<close>

text \<open>
  Every reservation was within the limit given what it evicts and what was reserved before it: with
  \<open>T\<close> the total, a call that still destroys bounds it up to its victims and the later reservations.
\<close>

fun ordered :: "int \<Rightarrow> ('c \<Rightarrow> bool) \<Rightarrow> ('c \<Rightarrow> int) \<Rightarrow> ('c \<Rightarrow> int) \<Rightarrow> int \<Rightarrow> 'c list \<Rightarrow> bool" where
  "ordered L p r v T [] \<longleftrightarrow> True"
| "ordered L p r v T (c # cs) \<longleftrightarrow> (p c \<longrightarrow> T \<le> L + (\<Sum>x\<leftarrow>cs. r x) + v c) \<and> ordered L p r v T cs"

lemma ordered_append: "ordered L p r v T (xs @ ys) \<longleftrightarrow> ordered L p r v (T - (\<Sum>y\<leftarrow>ys. r y)) xs \<and> ordered L p r v T ys"
  by (induction xs) auto

lemma ordered_mono: "ordered L p r v T cs \<Longrightarrow> T' \<le> T \<Longrightarrow> ordered L p r v T' cs"
  by (induction cs) auto

lemma ordered_small:
  assumes "T \<le> L" "\<And>c. c \<in> set cs \<Longrightarrow> 0 \<le> r c \<and> 0 \<le> v c"
  shows "ordered L p r v T cs"
  using assms
proof (induction cs)
  case (Cons c cs)
  have "0 \<le> (\<Sum>x\<leftarrow>cs. r x)" using Cons.prems(2) by (intro sum_list_nonneg) auto
  moreover have "0 \<le> v c" "ordered L p r v T cs" using Cons by simp_all
  ultimately show ?case using Cons.prems(1) by simp
qed simp

lemma ordered_cong:
  assumes "\<And>c. c \<in> set cs \<Longrightarrow> r c = r' c"
  shows "ordered L p r v T cs = ordered L p r' v T cs"
  using assms
proof (induction cs)
  case (Cons c cs)
  have m: "map r cs = map r' cs" using Cons.prems by simp
  have "ordered L p r v T cs = ordered L p r' v T cs" using Cons by simp
  then show ?case unfolding ordered.simps m by simp
qed simp

section \<open>Sections and the totals\<close>

text \<open>A model that is being loaded is left alone by every other call.\<close>

lemma evict_keeps:
  "evict vs st = (ds, st') \<Longrightarrow> k \<notin> fst ` set vs \<Longrightarrow> smap_find (rg_entries st') k = smap_find (rg_entries st) k"
proof (induction vs arbitrary: st ds)
  case (Cons v vs)
  obtain k' e where v: "v = (k', e)" by (cases v)
  obtain d st1 where t: "take_out k' e st = (d, st1)" by fastforce
  obtain ds' where "evict vs st1 = (ds', st')" using Cons.prems(1) v t by (auto split: prod.splits)
  from Cons.IH [OF this] show ?case using Cons.prems(2) v by (simp add: take_out_simps [OF t] find_put)
qed simp

lemma evictable_not_loading:
  assumes "smap_ok (rg_entries st)" "smap_find (rg_entries st) k = Some e" "en_status e = Loading"
  shows "k \<notin> fst ` set (take n (evictable st x))"
proof
  assume "k \<in> fst ` set (take n (evictable st x))"
  then obtain e' where "(k, e') \<in> set (evictable st x)" by (auto dest: in_set_takeD)
  from chosenD(1,2) [OF chosen_evictable [OF assms(1)] this] assms(2,3) show False by simp
qed

lemma reserve_keeps:
  assumes "reserve k' e' est vs st = (out, st')" "k \<notin> fst ` set vs" "k \<noteq> k'"
  shows "smap_find (rg_entries st') k = smap_find (rg_entries st) k"
  using assms evict_keeps [of vs st _ _ k] by (auto simp: reserve_def Let_def find_put split: prod.splits)

lemma unload_locked_keeps:
  assumes "unload_locked k' e' st = (u, st')" "smap_find (rg_entries st) k' = Some e'"
    and "smap_find (rg_entries st) k = Some e" "en_status e = Loading"
  shows "smap_find (rg_entries st') k = Some e"
  using assms take_out_simps(1) [of k' e' st]
  by (auto simp: unload_locked_def find_put split: if_splits prod.splits)

lemma replace_spec_keeps:
  "replace_spec spec st = (out, st') \<Longrightarrow> smap_find (rg_entries st) k = Some e \<Longrightarrow> en_status e = Loading \<Longrightarrow>
   smap_find (rg_entries st') k = Some e"
  by (auto simp: replace_spec_def find_put split: option.splits if_splits)

lemma call_step_keeps_loading:
  assumes "smap_ok (rg_entries st)" "call_step su c st = (out, st')"
    and "smap_find (rg_entries st) k = Some e" "en_status e = Loading" "\<not> loads k c"
  shows "smap_find (rg_entries st') k = Some e"
proof (cases c)
  case (Acquire k' dl)
  have no: "k \<notin> fst ` set (take n (evictable st x))" for n x by (rule evictable_not_loading [OF assms(1,3,4)])
  have "smap_find (rg_entries st') k = smap_find (rg_entries st) k"
    if "reserve k' e' est (take n (evictable st x)) st = (out, st')" "smap_find (rg_entries st) k' = Some e'"
      "en_status e' = Unloaded" for e' est n x
    by (rule reserve_keeps [OF that(1) no]) (use that(2,3) assms(3,4) in auto)
  note res = this [of _ _ "length (evictable st (Some k'))" "Some k'"] this
  show ?thesis
    using assms(2-4) Acquire res
    by (auto simp: acquire_section_def acquire_unloaded_def Let_def find_put
        split: option.splits entry_status.splits sum.splits prod.splits bool.splits if_splits)
next
  case (Acquire_Loading k' spec)
  then show ?thesis
    using assms(2,3,5) by (auto simp: finish_load_def Let_def find_put split: option.splits sum.splits)
next
  case (Unload k')
  then show ?thesis
    using assms(2-4) unload_locked_keeps [of k' _ st _ _ k e]
    by (auto simp: unload_section_def split: option.splits prod.splits unloading.splits)
next
  case (Register spec)
  have "smap_find (rg_entries st') k = Some e"
    if "unload_locked (ms_name spec) e' st = (Unload_Done u, st1)" "replace_spec spec st1 = (out, st')" for e' u st1
    using unload_locked_same [OF that(1)] replace_spec_keeps [OF that(2)] assms(3,4) by simp
  moreover have "smap_find (rg_entries st) (ms_name spec) = None \<Longrightarrow> ms_name spec \<noteq> k" using assms(3) by auto
  ultimately show ?thesis
    using assms(2-4) Register unload_locked_keeps [of "ms_name spec" _ st _ _ k e]
    by (auto simp: register_section_def find_put split: if_splits option.splits prod.splits unloading.splits sum.splits)
next
  case (Set_Budget b)
  have "k \<notin> fst ` set (take n (evictable (st\<lparr>rg_budget := b\<rparr>) None))" for n
    by (rule evictable_not_loading [of _ _ e]) (simp_all add: assms)
  then show ?thesis
    using assms(2,3) Set_Budget evict_keeps [of _ "st\<lparr>rg_budget := b\<rparr>" _ _ k]
    by (auto simp: set_budget_section_def Let_def split: prod.splits)
next
  case (Register_Destroying spec ds)
  then show ?thesis using assms(2-4) replace_spec_keeps [of spec "uncharge ds st"] by simp
qed (use assms(2,3) in \<open>auto simp: Let_def split: option.splits\<close>)

lemma total_simps [simp]:
  "total_bytes d st (c # cs) = doomed_bytes d c + total_bytes d st cs"
  "total_bytes d st (cs @ cs') = total_bytes d st cs + in_calls (\<lambda>x. bytes (dm_mem d x)) cs'"
  by (simp_all add: total_bytes_def doomed_bytes_def)

lemma total_put:
  assumes "smap_ok (rg_entries st)" "rg_entries st' = smap_put k e' (rg_entries st)"
  shows "total_bytes d st' cs =
    total_bytes d st cs - (case smap_find (rg_entries st) k of None \<Rightarrow> 0 | Some e \<Rightarrow> bytes (en_mem d e)) + bytes (en_mem d e')"
  using sum_put [OF assms(1), of "\<lambda>e. bytes (en_mem d e)" k e'] assms(2) by (simp add: total_bytes_def in_entries_def)

lemma total_cong: "rg_entries st' = rg_entries st \<Longrightarrow> total_bytes d st' cs = total_bytes d st cs"
  by (simp add: total_bytes_def in_entries_def)

lemma evict_bytes:
  assumes "registry_ok st cs ls" "chosen st vs" "evict vs st = (ds, st')"
  shows "(\<Sum>x\<leftarrow>ds. bytes (dm_mem d x)) = (\<Sum>v\<leftarrow>vs. bytes (en_mem d (snd v)))"
    "total_bytes d st' cs' = total_bytes d st cs' - (\<Sum>v\<leftarrow>vs. bytes (en_mem d (snd v)))"
proof -
  have "map (dm_mem d) ds = map (\<lambda>v. en_mem d (snd v)) vs" using evict_ok [OF assms] by (cases d) (simp_all add: comp_def)
  then have "map bytes (map (dm_mem d) ds) = map bytes (map (\<lambda>v. en_mem d (snd v)) vs)" by simp
  then show "(\<Sum>x\<leftarrow>ds. bytes (dm_mem d x)) = (\<Sum>v\<leftarrow>vs. bytes (en_mem d (snd v)))" by (simp add: comp_def)
  have "bytes (en_mem d (emptied e)) = 0" for e :: "('a, 'b, 'c) entry" by (cases d) simp_all
  then show "total_bytes d st' cs' = total_bytes d st cs' - (\<Sum>v\<leftarrow>vs. bytes (en_mem d (snd v)))"
    using in_entries_evict [of "\<lambda>e. bytes (en_mem d e)", OF _ _ assms(2,3)] assms(1) by (simp add: total_bytes_def registry_ok_def)
qed

text \<open>A reservation, in bytes.\<close>

lemma reserve_bytes:
  assumes "consistent st cs ls" "smap_find (rg_entries st) k = Some e" "en_status e = Unloaded"
    and "chosen st vs" "k \<notin> fst ` set vs" "reserve k e est vs st = (out, st')"
  obtains c where "out = Continues c" "total_bytes d st' (c # cs) = total_bytes d st cs + bytes (me_mem d est)"
    "doomed_bytes d c = (\<Sum>v\<leftarrow>vs. bytes (en_mem d (snd v)))"
    "reserved d st' c = (if vs = [] then 0 else bytes (me_mem d est))" "reserving c \<longleftrightarrow> vs \<noteq> []" "call_made made c"
proof -
  note ok = consistent_entry [OF assms(1,2)]
  obtain ds st1 where ev: "evict vs st = (ds, st1)" by fastforce
  let ?c = "if ds = [] then Acquire_Loading k (en_spec e) else Acquire_Destroying k ds"
  let ?e = "e\<lparr>en_status := Loading, en_ram := me_ram_bytes est, en_vram := me_vram_bytes est\<rparr>"
  have out: "out = Continues ?c" "rg_entries st' = smap_put k ?e (rg_entries st1)"
    using assms(6) ev by (auto simp: reserve_def Let_def)
  note eb = evict_bytes [OF ok(3) assms(4) ev]
  have vs: "ds = [] \<longleftrightarrow> vs = []" using evict_ok [OF ok(3) assms(4) ev] by (metis map_is_Nil_conv)
  have e1: "smap_find (rg_entries st1) k = Some e" "smap_ok (rg_entries st1)"
    using evict_ok [OF ok(3) assms(4) ev] assms(2,5) by (simp_all add: registry_ok_def)
  have mem: "en_mem d e = 0" "en_mem d ?e = me_mem d est" using ok(1) assms(3) by (cases d; simp add: entry_ok_def)+
  have db: "doomed_bytes d ?c = (\<Sum>v\<leftarrow>vs. bytes (en_mem d (snd v)))" using eb(1) vs by (simp add: doomed_bytes_def)
  show thesis
  proof (rule that [OF out(1) _ db])
    show "total_bytes d st' (?c # cs) = total_bytes d st cs + bytes (me_mem d est)"
      using total_put [OF e1(2) out(2), of d cs] e1(1) mem eb(2) [of d cs] by (simp only: total_simps db) simp
    show "reserved d st' ?c = (if vs = [] then 0 else bytes (me_mem d est))" using vs mem(2) by (simp add: out(2) find_put)
  qed (use vs in simp_all)
qed

text \<open>Every other section leaves the total or lowers it, and reserves nothing.\<close>

definition quiet ::
    "('w, 'm, 's) call \<Rightarrow> ('w, 'm, 's) registry \<Rightarrow> ('w, 'm, 's) outcome \<Rightarrow> ('w, 'm, 's) registry \<Rightarrow> bool" where
  "quiet c st out st' \<longleftrightarrow> (\<forall>c' \<in> set (out_calls out). \<not> reserving c') \<and>
     (\<forall>d. total_bytes d st' (out_calls out) \<le> total_bytes d st [c] - (if reserving c then doomed_bytes d c else 0))"

lemma total_same_mem:
  assumes "smap_ok (rg_entries st)" "smap_find (rg_entries st) k = Some e" "rg_entries st' = smap_put k e' (rg_entries st)"
    and "en_ram e' = en_ram e" "en_vram e' = en_vram e"
  shows "total_bytes d st' cs = total_bytes d st cs"
  using total_put [OF assms(1,3), of d cs] assms(2,4,5) by (cases d) simp_all

lemma total_less_mem:
  assumes "smap_ok (rg_entries st)" "rg_entries st' = smap_put k e' (rg_entries st)" "en_ram e' = 0" "en_vram e' = 0"
  shows "total_bytes d st' cs \<le> total_bytes d st cs"
  using total_put [OF assms(1,2), of d cs] assms(3,4) by (cases d) (simp_all split: option.split)

lemma quiet_same: "\<not> reserving c \<Longrightarrow> (\<And>c'. c' \<in> set (out_calls out) \<Longrightarrow> \<not> reserving c' \<and> doomed_of c' = []) \<Longrightarrow>
    (\<And>d. total_bytes d st' [] \<le> total_bytes d st []) \<Longrightarrow> quiet c st out st'"
  by (cases out) (auto simp: quiet_def doomed_bytes_def intro: add_increasing)

lemma taken_out_bytes:
  assumes "registry_ok st cs ls" "smap_find (rg_entries st) k = Some e" "unload_locked k e st = (Taken_Out x, st')"
  shows "total_bytes d st' [] + bytes (dm_mem d x) = total_bytes d st []"
proof -
  have "entry_ok cs ls k e" using assms(1,2) by (simp add: registry_ok_def)
  then have t: "en_status e = Loaded" "en_leases e = 0" "take_out k e st = (x, st')"
    using assms(3) by (cases "en_status e"; auto simp: unload_locked_def entry_ok_def split: if_splits prod.splits)+
  have "evict [(k, e)] st = ([x], st')" using t(3) by simp
  from evict_bytes [OF assms(1) chosen_single [OF assms(2) t(1,2)] this, of d]
  show ?thesis by (cases d) (simp_all add: take_out_simps [OF t(3)])
qed

lemma replace_spec_quiet:
  assumes "smap_ok (rg_entries st)" "replace_spec spec st = (out, st')"
  shows "out_calls out = []" "total_bytes d st' [] = total_bytes d st []"
  using assms total_same_mem [OF assms(1), of "ms_name spec" _ st' _ d "[]"]
  by (auto simp: replace_spec_def split: option.splits if_splits)

lemma taken_out_quiet:
  assumes "registry_ok st cs ls" "smap_find (rg_entries st) k = Some e" "unload_locked k e st = (Taken_Out x, st')"
    and "out = Continues c'" "doomed_of c' = [x]" "\<not> reserving c" "\<not> reserving c'"
  shows "quiet c st out st'"
  using taken_out_bytes [OF assms(1-3)] assms(4-7)
  by (auto simp: quiet_def doomed_bytes_def intro!: add_increasing) (metis add.commute order_refl)

lemma unload_quiet:
  assumes "registry_ok st cs ls" "unload_section k st = (out, st')"
  shows "quiet (Unload k) st out st'"
proof (cases "smap_find (rg_entries st) k")
  case None
  then show ?thesis using assms(2) by (intro quiet_same) (auto simp: unload_section_def)
next
  case (Some e)
  obtain u st1 where u: "unload_locked k e st = (u, st1)" by fastforce
  show ?thesis
  proof (cases "\<exists>x. u = Taken_Out x")
    case True
    then obtain x where "u = Taken_Out x" by blast
    then show ?thesis
      using assms(2) Some u by (intro taken_out_quiet [OF assms(1) Some, of x]) (auto simp: unload_section_def)
  next
    case False
    then show ?thesis
      using assms(2) Some u unload_locked_same [OF u]
      by (intro quiet_same; cases u) (auto simp: unload_section_def)
  qed
qed

lemma register_quiet:
  assumes "registry_ok st cs ls" "register_section spec st = (out, st')"
  shows "quiet (Register spec) st out st'"
proof (cases "ms_name spec = []")
  case True
  then show ?thesis using assms(2) by (intro quiet_same) (auto simp: register_section_def)
next
  case named: False
  have ok: "smap_ok (rg_entries st)" using assms(1) by (simp add: registry_ok_def)
  show ?thesis
  proof (cases "smap_find (rg_entries st) (ms_name spec)")
    case None
    then show ?thesis
      using assms(2) named total_less_mem [OF ok, of st' "ms_name spec" "new_entry spec"]
      by (intro quiet_same) (auto simp: register_section_def new_entry_def)
  next
    case (Some e)
    obtain u st1 where u: "unload_locked (ms_name spec) e st = (u, st1)" by fastforce
    show ?thesis
    proof (cases u)
      case Wait_For_Load
      then show ?thesis
        using assms(2) Some named u unload_locked_same [OF u] by (intro quiet_same) (auto simp: register_section_def)
    next
      case (Unload_Done res)
      have st1: "st1 = st" using unload_locked_same [OF u] Unload_Done by simp
      show ?thesis
      proof (cases res)
        case (Inl er)
        then show ?thesis
          using assms(2) Some named u Unload_Done st1 by (intro quiet_same) (auto simp: register_section_def)
      next
        case (Inr v)
        then have r: "replace_spec spec st = (out, st')"
          using assms(2) Some named u Unload_Done st1 by (simp add: register_section_def)
        show ?thesis
          by (rule quiet_same) (simp_all add: replace_spec_quiet(1) [OF ok r] replace_spec_quiet(2) [OF ok r])
      qed
    next
      case (Taken_Out x)
      then show ?thesis
        using assms(2) Some named u by (intro taken_out_quiet [OF assms(1) Some, of x]) (auto simp: register_section_def)
    qed
  qed
qed

lemma set_budget_quiet:
  assumes "registry_ok st cs ls" "set_budget_section b st = (out, st')"
  shows "quiet (Set_Budget b) st out st'"
proof -
  let ?st = "st\<lparr>rg_budget := b\<rparr>"
  have ok: "registry_ok ?st cs ls" using assms(1) by (simp add: registry_ok_entries [of ?st st])
  have "smap_ok (rg_entries ?st)" using assms(1) by (simp add: registry_ok_def)
  then have ch: "chosen ?st (take n (evictable ?st None))" for n by (intro chosen_take chosen_evictable)
  obtain n ds where ev: "evict (take n (evictable ?st None)) ?st = (ds, st')"
      "out = (if ds = [] then Returned (ok ()) else Continues (Budget_Destroying ds))"
    using assms(2) by (auto simp: set_budget_section_def Let_def split: prod.splits)
  have t: "(\<Sum>x\<leftarrow>ds. bytes (dm_mem d x)) + total_bytes d st' [] = total_bytes d st []" for d
    using evict_bytes [OF ok ch ev(1), of d] total_cong [of ?st st d "[]"] by simp
  show ?thesis
  proof (cases "ds = []")
    case True
    then show ?thesis using ev(2) t by (intro quiet_same) auto
  next
    case False
    then show ?thesis using ev(2) t by (auto simp: quiet_def doomed_bytes_def)
  qed
qed

lemma call_step_cases:
  assumes "consistent st (c # cs) ls" "call_step su c st = (out, st')"
  obtains (reserves) k dl e est n where "c = Acquire k dl" "smap_find (rg_entries st) k = Some e" "en_status e = Unloaded"
      "estimate_model_memory (su_os su) (en_spec e) = ok est"
      "reserve k e est (take n (evictable st (Some k))) st = (out, st')"
      "plan st (evictable st (Some k)) (me_ram_bytes est) (me_vram_bytes est) = (True, n) \<or> mb_allow_overcommit (rg_budget st)"
  | (other) "quiet c st out st'"
proof -
  have ok: "smap_ok (rg_entries st)" "registry_ok st (c # cs) ls" using assms(1) by (simp_all add: consistent_def registry_ok_def)
  note same = total_same_mem [OF ok(1)]
  show thesis
  proof (cases c)
    case (Acquire k dl)
    show thesis
    proof (cases "smap_find (rg_entries st) k")
      case None
      then show thesis using assms(2) Acquire by (intro other quiet_same) (auto simp: acquire_section_def)
    next
      case (Some e)
      show thesis
      proof (cases "en_status e")
        case Loaded
        then show thesis
          using assms(2) Acquire Some same [OF Some, of st'] by (intro other quiet_same) (auto simp: acquire_section_def Let_def)
      next
        case Loading
        then show thesis
          using assms(2) Acquire Some by (intro other quiet_same) (auto simp: acquire_section_def Let_def)
      next
        case Unloaded
        define dead where "dead = (case dl of Some d \<Rightarrow> d | None \<Rightarrow> su_steady_ms su + max 0 (mb_wait_ms (rg_budget st)))"
        have u: "acquire_unloaded su k dead e st = (out, st')"
          using assms(2) Acquire Some Unloaded by (simp add: acquire_section_def Let_def dead_def)
        show thesis
        proof (cases "estimate_model_memory (su_os su) (en_spec e)")
          case (Inl er)
          then show thesis using u Acquire by (intro other quiet_same) (auto simp: acquire_unloaded_def)
        next
          case (Inr est)
          let ?p = "plan st (evictable st (Some k)) (me_ram_bytes est) (me_vram_bytes est)"
          obtain f n where p: "?p = (f, n)" by fastforce
          note r = reserves [OF Acquire Some Unloaded Inr]
          show thesis
          proof (cases "f \<or> (mb_allow_overcommit (rg_budget st) \<and> \<not> (rg_ram_releasing st > 0 \<or> rg_vram_releasing st > 0))")
            case True
            then show thesis
              using u Inr p r [of n] r [of "length (evictable st (Some k))"]
              by (cases f) (auto simp: acquire_unloaded_def Let_def)
          next
            case False
            then show thesis
              using u Inr p Acquire
              by (intro other quiet_same) (auto simp: acquire_unloaded_def Let_def split: if_splits)
          qed
        qed
      qed
    qed
  next
    case (Acquire_Destroying k ds)
    then show thesis
      using assms(2) total_cong [of "uncharge ds st" st]
      by (intro other) (auto simp: quiet_def Let_def doomed_bytes_def split: option.splits)
  next
    case (Acquire_Loading k spec)
    show thesis
    proof (cases "smap_find (rg_entries st) k")
      case None
      then show thesis using assms(2) Acquire_Loading by (intro other quiet_same) (auto simp: finish_load_def)
    next
      case (Some e)
      then show thesis
        using assms(2) Acquire_Loading same [OF Some, of st'] total_less_mem [OF ok(1), of st' k]
        by (intro other quiet_same) (auto simp: finish_load_def Let_def split: sum.splits)
    qed
  next
    case (Unload k)
    show thesis using assms(2) unload_quiet [OF ok(2), of k out st'] by (intro other) (simp add: Unload)
  next
    case (Unload_Destroying ds)
    then show thesis using assms(2) total_cong [of "uncharge ds st" st] by (intro other) (auto simp: quiet_def)
  next
    case (Register spec)
    show thesis using assms(2) register_quiet [OF ok(2), of spec out st'] by (intro other) (simp add: Register)
  next
    case (Register_Destroying spec ds)
    then show thesis
      using assms(2) total_cong [of "uncharge ds st" st] replace_spec_quiet [of "uncharge ds st" spec out st'] ok(1)
      by (intro other) (auto simp: quiet_def)
  next
    case (Set_Budget b)
    show thesis using assms(2) set_budget_quiet [OF ok(2), of b out st'] by (intro other) (simp add: Set_Budget)
  next
    case (Budget_Destroying ds)
    then show thesis using assms(2) total_cong [of "uncharge ds st" st] by (intro other) (auto simp: quiet_def)
  qed
qed

section \<open>What the registry is used for\<close>

text \<open>
  The surroundings of the registry: every budget has a limit of at most \<open>L\<close> bytes without overcommit,
  every estimate of a registered model is at most \<open>M\<close> bytes, and \<open>L\<close> plus one such model for each name
  and one more stay below \<open>2 ^ 64\<close>.
\<close>

definition good_budget :: "dim \<Rightarrow> int \<Rightarrow> model_budget \<Rightarrow> bool" where
  "good_budget d L b \<longleftrightarrow> mb_limit d b \<noteq> 0 \<and> bytes (mb_limit d b) \<le> L \<and> \<not> mb_allow_overcommit b"

definition bounded_use ::
    "(('w, 'm, 's) call \<Rightarrow> bool) \<Rightarrow> (('w, 'm, 's) surroundings \<Rightarrow> bool) \<Rightarrow> dim \<Rightarrow> int \<Rightarrow> int \<Rightarrow> string set \<Rightarrow> bool" where
  "bounded_use made seen d L M names \<longleftrightarrow>
     finite names \<and> 0 \<le> M \<and> L + (int (card names) + 1) * M < 2 ^ 64 \<and>
     (\<forall>spec. made (Register spec) \<longrightarrow> ms_name spec \<in> names) \<and> (\<forall>b. made (Set_Budget b) \<longrightarrow> good_budget d L b) \<and>
     (\<forall>su spec est. seen su \<longrightarrow> made (Register spec) \<longrightarrow> estimate_model_memory (su_os su) spec = ok est \<longrightarrow>
        bytes (me_mem d est) \<le> M)"

definition good_entry ::
    "(('w, 'm, 's) call \<Rightarrow> bool) \<Rightarrow> dim \<Rightarrow> int \<Rightarrow> string set \<Rightarrow> string \<Rightarrow> ('w, 'm, 's) entry \<Rightarrow> bool" where
  "good_entry made d M names k e \<longleftrightarrow> made (Register (en_spec e)) \<and> k \<in> names \<and> bytes (en_mem d e) \<le> M"

definition all_good ::
    "(('w, 'm, 's) call \<Rightarrow> bool) \<Rightarrow> dim \<Rightarrow> int \<Rightarrow> string set \<Rightarrow> ('w, 'm, 's) registry \<Rightarrow> bool" where
  "all_good made d M names st \<longleftrightarrow> (\<forall>k e. smap_find (rg_entries st) k = Some e \<longrightarrow> good_entry made d M names k e)"

lemma all_good_put:
  "all_good made d M names st \<Longrightarrow> good_entry made d M names k e \<Longrightarrow> rg_entries st' = smap_put k e (rg_entries st) \<Longrightarrow>
   all_good made d M names st'"
  by (simp add: all_good_def find_put)

lemma all_good_entries: "rg_entries st' = rg_entries st \<Longrightarrow> all_good made d M names st' = all_good made d M names st"
  by (simp add: all_good_def)

lemma good_entry_same:
  assumes "good_entry made d M names k e" "0 \<le> M" "en_spec e' = en_spec e"
    and "en_ram e' = en_ram e \<and> en_vram e' = en_vram e \<or> en_ram e' = 0 \<and> en_vram e' = 0"
  shows "good_entry made d M names k e'"
  using assms by (cases d) (auto simp: good_entry_def)

lemma all_good_update:
  assumes "all_good made d M names st" "0 \<le> M" "smap_find (rg_entries st) k = Some e"
    and "rg_entries st' = smap_put k e' (rg_entries st)" "en_spec e' = en_spec e"
    and "en_ram e' = en_ram e \<and> en_vram e' = en_vram e \<or> en_ram e' = 0 \<and> en_vram e' = 0"
  shows "all_good made d M names st'"
proof (rule all_good_put [OF assms(1) _ assms(4)])
  show "good_entry made d M names k e'"
    using assms(1,3) by (intro good_entry_same [OF _ assms(2,5,6)]) (simp add: all_good_def)
qed

lemma all_good_evict:
  "all_good made d M names st \<Longrightarrow> 0 \<le> M \<Longrightarrow> chosen st vs \<Longrightarrow> evict vs st = (ds, st') \<Longrightarrow> all_good made d M names st'"
proof (induction vs arbitrary: st ds)
  case (Cons v vs)
  obtain k e where v: "v = (k, e)" by (cases v)
  obtain x st1 where t: "take_out k e st = (x, st1)" by fastforce
  obtain ds' where r: "evict vs st1 = (ds', st')" using Cons.prems(4) t v by (auto split: prod.splits)
  have "smap_find (rg_entries st) k = Some e" using chosenD(1) [OF Cons.prems(3), of k e] v by simp
  then have "all_good made d M names st1"
    by (rule all_good_update [OF Cons.prems(1,2) _ take_out_simps(1) [OF t]]) simp_all
  then show ?case using Cons.IH [OF _ Cons.prems(2) chosen_take_out [OF Cons.prems(3) [unfolded v] t] r] by simp
qed simp

lemma all_good_unload:
  assumes "all_good made d M names st" "0 \<le> M" "smap_find (rg_entries st) k = Some e" "unload_locked k e st = (u, st')"
  shows "all_good made d M names st'"
  using assms all_good_update [OF assms(1-3) take_out_simps(1) [of k e st]]
  by (auto simp: unload_locked_def split: if_splits prod.splits)

lemma all_good_replace:
  assumes "all_good made d M names st" "0 \<le> M" "made (Register spec)" "replace_spec spec st = (out, st')"
  shows "all_good made d M names st' \<and> out_calls out = []"
proof (cases "smap_find (rg_entries st) (ms_name spec)")
  case (Some e)
  then have "good_entry made d M names (ms_name spec) (e\<lparr>en_spec := spec\<rparr>)"
    using assms(1,3) by (cases d) (auto simp: all_good_def good_entry_def)
  then show ?thesis
    using assms(1,4) Some all_good_put [OF assms(1), of "ms_name spec" "e\<lparr>en_spec := spec\<rparr>" st']
    by (auto simp: replace_spec_def split: if_splits)
qed (use assms in \<open>auto simp: replace_spec_def\<close>)

lemma all_good_register:
  assumes "all_good made d M names st" "0 \<le> M" "made (Register spec)" "ms_name spec \<in> names"
    and "register_section spec st = (out, st')"
  shows "all_good made d M names st' \<and> (\<forall>c \<in> set (out_calls out). call_made made c)"
proof (cases "ms_name spec = []")
  case True
  then show ?thesis using assms by (auto simp: register_section_def)
next
  case named: False
  show ?thesis
  proof (cases "smap_find (rg_entries st) (ms_name spec)")
    case None
    have "good_entry made d M names (ms_name spec) (new_entry spec)"
      using assms(2-4) by (cases d) (simp_all add: good_entry_def new_entry_def)
    then show ?thesis
      using assms(5) None named all_good_put [OF assms(1), of "ms_name spec" "new_entry spec" st']
      by (auto simp: register_section_def)
  next
    case (Some e)
    obtain u st1 where u: "unload_locked (ms_name spec) e st = (u, st1)" by fastforce
    note good = all_good_unload [OF assms(1,2) Some u]
    show ?thesis
    proof (cases "\<exists>v. u = Unload_Done (Inr v)")
      case True
      then have "replace_spec spec st1 = (out, st')"
        using assms(5) Some named u by (auto simp: register_section_def)
      from all_good_replace [OF good assms(2,3) this] show ?thesis by auto
    next
      case False
      then show ?thesis
        using assms(3,5) Some named u good
        by (auto simp: register_section_def prefix_error_def split: unloading.splits sum.splits)
    qed
  qed
qed

lemma reserve_good:
  assumes "all_good made d M names st" "0 \<le> M" "chosen st vs" "smap_find (rg_entries st) k = Some e" "bytes (me_mem d est) \<le> M"
    and "reserve k e est vs st = (out, st')"
  shows "all_good made d M names st' \<and> (\<forall>c \<in> set (out_calls out). call_made made c)"
proof -
  obtain ds st1 where ev: "evict vs st = (ds, st1)" by fastforce
  let ?e = "e\<lparr>en_status := Loading, en_ram := me_ram_bytes est, en_vram := me_vram_bytes est\<rparr>"
  have out: "rg_entries st' = smap_put k ?e (rg_entries st1)" "\<forall>c \<in> set (out_calls out). call_made made c"
    using assms(6) ev by (auto simp: reserve_def Let_def)
  have "good_entry made d M names k e" using assms(1,4) by (simp add: all_good_def)
  then have "good_entry made d M names k ?e" using assms(5) by (cases d) (simp_all add: good_entry_def)
  then show ?thesis using all_good_put [OF all_good_evict [OF assms(1-3) ev] _ out(1)] out(2) by blast
qed

lemma acquire_good:
  assumes "bounded_use made seen d L M names" "seen su" "all_good made d M names st" "smap_ok (rg_entries st)"
    and "acquire_section su k dl st = (out, st')"
  shows "all_good made d M names st' \<and> (\<forall>c \<in> set (out_calls out). call_made made c)"
proof (cases "smap_find (rg_entries st) k")
  case None
  then show ?thesis using assms(3,5) by (auto simp: acquire_section_def)
next
  case (Some e)
  have M: "0 \<le> M" using assms(1) by (simp add: bounded_use_def)
  have res: ?thesis if "estimate_model_memory (su_os su) (en_spec e) = ok est"
    "reserve k e est (take n (evictable st (Some k))) st = (out, st')" for est n
  proof -
    have "made (Register (en_spec e))" using assms(3) Some by (auto simp: all_good_def good_entry_def)
    then have "bytes (me_mem d est) \<le> M" using assms(1,2) that(1) by (auto simp: bounded_use_def)
    then show ?thesis
      by (rule reserve_good [OF assms(3) M chosen_take [OF chosen_evictable [OF assms(4)]] Some _ that(2)])
  qed
  show ?thesis
  proof (cases "en_status e")
    case Loaded
    then show ?thesis
      using assms(3,5) Some all_good_update [OF assms(3) M Some, of st'] by (auto simp: acquire_section_def Let_def)
  next
    case Loading
    then show ?thesis using assms(3,5) Some by (auto simp: acquire_section_def Let_def)
  next
    case Unloaded
    then obtain dead where u: "acquire_unloaded su k dead e st = (out, st')"
      using assms(5) Some by (simp add: acquire_section_def Let_def)
    show ?thesis
    proof (cases "estimate_model_memory (su_os su) (en_spec e)")
      case (Inl er)
      then show ?thesis using u assms(3) by (auto simp: acquire_unloaded_def)
    next
      case (Inr est)
      obtain f n where "plan st (evictable st (Some k)) (me_ram_bytes est) (me_vram_bytes est) = (f, n)" by fastforce
      then show ?thesis
        using u Inr assms(3) res [OF Inr, of n] res [OF Inr, of "length (evictable st (Some k))"]
        by (cases f) (auto simp: acquire_unloaded_def Let_def split: if_splits)
    qed
  qed
qed

lemma evict_budget: "evict vs st = (ds, st') \<Longrightarrow> rg_budget st' = rg_budget st"
proof (induction vs arbitrary: st ds)
  case (Cons v vs)
  obtain k e where v: "v = (k, e)" by (cases v)
  obtain x st1 where t: "take_out k e st = (x, st1)" by fastforce
  obtain ds' where "evict vs st1 = (ds', st')" using Cons.prems t v by (auto split: prod.splits)
  then show ?case using Cons.IH [of st1] take_out_simps(6) [OF t] by simp
qed simp

lemma unload_locked_budget: "unload_locked k e st = (u, st') \<Longrightarrow> rg_budget st' = rg_budget st"
  using take_out_simps(6) [of k e st] by (auto simp: unload_locked_def split: if_splits prod.splits)

lemma replace_spec_budget: "replace_spec spec st = (out, st') \<Longrightarrow> rg_budget st' = rg_budget st"
  by (auto simp: replace_spec_def split: option.splits if_splits)

lemma reserve_budget: "reserve k e est vs st = (out, st') \<Longrightarrow> rg_budget st' = rg_budget st"
  using evict_budget [of vs st] by (auto simp: reserve_def Let_def split: prod.splits)

lemma acquire_budget: "acquire_section su k dl st = (out, st') \<Longrightarrow> rg_budget st' = rg_budget st"
  using reserve_budget
  by (auto simp: acquire_section_def acquire_unloaded_def Let_def
      split: option.splits entry_status.splits sum.splits prod.splits bool.splits if_splits)

lemma register_budget: "register_section spec st = (out, st') \<Longrightarrow> rg_budget st' = rg_budget st"
  using unload_locked_budget replace_spec_budget
  by (fastforce simp: register_section_def split: if_splits option.splits prod.splits unloading.splits sum.splits)

lemma unload_budget: "unload_section k st = (out, st') \<Longrightarrow> rg_budget st' = rg_budget st"
  using unload_locked_budget by (fastforce simp: unload_section_def split: option.splits prod.splits unloading.splits)

lemma set_budget_budget: "set_budget_section b st = (out, st') \<Longrightarrow> rg_budget st' = b"
  using evict_budget by (fastforce simp: set_budget_section_def Let_def split: prod.splits)

lemma call_step_budget:
  "call_step su c st = (out, st') \<Longrightarrow> rg_budget st' = (case c of Set_Budget b \<Rightarrow> b | _ \<Rightarrow> rg_budget st)"
  by (cases c)
    (auto simp: acquire_budget unload_budget register_budget set_budget_budget replace_spec_budget finish_load_def Let_def
      split: option.splits sum.splits)

lemma all_good_step:
  assumes use: "bounded_use made seen d L M names" and ok: "smap_ok (rg_entries st)" and c: "call_step su c st = (out, st')"
    and "seen su" "call_made made c" and good: "all_good made d M names st"
  shows "all_good made d M names st' \<and> (\<forall>c' \<in> set (out_calls out). call_made made c')"
proof -
  have M: "0 \<le> M" using use by (simp add: bounded_use_def)
  have same: ?thesis if "rg_entries st' = rg_entries st" "\<forall>c' \<in> set (out_calls out). call_made made c'"
    using that good all_good_entries [of st' st] by simp
  show ?thesis
  proof (cases c)
    case (Acquire k dl)
    then show ?thesis using c acquire_good [OF use assms(4) good ok] by simp
  next
    case (Acquire_Destroying k ds)
    then show ?thesis using c by (intro same) (auto simp: Let_def split: option.splits)
  next
    case (Acquire_Loading k spec)
    show ?thesis
    proof (cases "smap_find (rg_entries st) k")
      case None
      then show ?thesis using c Acquire_Loading by (intro same) (auto simp: finish_load_def)
    next
      case (Some e)
      then show ?thesis
        using c Acquire_Loading all_good_update [OF good M Some, of st']
        by (auto simp: finish_load_def Let_def split: sum.splits)
    qed
  next
    case (Unload k)
    show ?thesis
    proof (cases "smap_find (rg_entries st) k")
      case None
      then show ?thesis using c Unload by (intro same) (auto simp: unload_section_def)
    next
      case (Some e)
      obtain u st1 where u: "unload_locked k e st = (u, st1)" by fastforce
      then show ?thesis
        using c Unload Some all_good_unload [OF good M Some u] by (auto simp: unload_section_def split: unloading.splits)
    qed
  next
    case (Register spec)
    then show ?thesis
      using c use all_good_register [OF good M, of spec out st'] assms(5) by (auto simp: bounded_use_def)
  next
    case (Register_Destroying spec ds)
    have "all_good made d M names (uncharge ds st)" using good all_good_entries [of "uncharge ds st" st] by simp
    from all_good_replace [OF this M, of spec out st'] show ?thesis using c assms(5) Register_Destroying by auto
  next
    case (Set_Budget b)
    let ?st = "st\<lparr>rg_budget := b\<rparr>"
    have "all_good made d M names ?st" using good all_good_entries [of ?st st] by simp
    moreover have "chosen ?st (take n (evictable ?st None))" for n by (intro chosen_take chosen_evictable) (simp add: ok)
    ultimately show ?thesis
      using c Set_Budget all_good_evict [OF _ M, of made d names ?st]
      by (auto simp: set_budget_section_def Let_def split: prod.splits if_splits)
  qed (use c good in \<open>auto simp: all_good_def\<close>)
qed

end
