(* ===== verification/Registry_Bound.thy ===== *)
theory Registry_Bound
  imports Registry_Budget
begin

text \<open>
  The memory of the models of a registry stays within its budget, and its accounts are right, in every
  interleaving of the registry's calls.
\<close>

section \<open>The budget holds\<close>

definition budget_inv ::
    "(('w, 'm, 's) call \<Rightarrow> bool) \<Rightarrow> dim \<Rightarrow> int \<Rightarrow> int \<Rightarrow> string set \<Rightarrow> ('w, 'm, 's) registry \<Rightarrow> ('w, 'm, 's) call list \<Rightarrow> bool" where
  "budget_inv made d L M names st calls \<longleftrightarrow>
     all_good made d M names st \<and> good_budget d L (rg_budget st) \<and> (\<forall>c \<in> set calls. call_made made c) \<and>
     total_bytes d st calls \<le> L + int (card names) * M \<and>
     total_bytes d st calls \<le> L + (\<Sum>c\<leftarrow>calls. reserved d st c) \<and>
     ordered L reserving (reserved d st) (doomed_bytes d) (total_bytes d st calls) calls"

lemma entries_bytes:
  assumes "smap_ok (rg_entries st)" "all_good made d M names st" "finite names" "0 \<le> M"
  shows "in_entries (\<lambda>e. bytes (en_mem d e)) st \<le> int (card names) * M"
proof -
  let ?m = "rg_entries st"
  have "bytes (en_mem d (snd x)) \<le> M" if "x \<in> set ?m" for x
    using assms(2) map_of_is_SomeI [OF smap_ok_distinct [OF assms(1)], of "fst x" "snd x"] that
    by (auto simp: all_good_def good_entry_def)
  then have "in_entries (\<lambda>e. bytes (en_mem d e)) st \<le> int (length ?m) * M"
    unfolding in_entries_def using sum_list_mono [of ?m "\<lambda>x. bytes (en_mem d (snd x))" "\<lambda>x. M"] by (simp add: sum_list_triv)
  also have "\<dots> \<le> int (card names) * M"
  proof -
    have "fst ` set ?m \<subseteq> names"
      using assms(2) map_of_is_SomeI [OF smap_ok_distinct [OF assms(1)]] by (force simp: all_good_def good_entry_def)
    then have "card (fst ` set ?m) \<le> card names" by (rule card_mono [OF assms(3)])
    moreover have "card (fst ` set ?m) = length ?m"
      using smap_ok_distinct [OF assms(1)] by (metis distinct_card length_map list.set_map)
    ultimately show ?thesis using assms(4) by (simp add: mult_right_mono)
  qed
  finally show ?thesis .
qed

lemma victims_bytes:
  assumes "consistent st cs ls" "chosen st vs"
  shows "(\<Sum>v\<leftarrow>vs. bytes (en_mem d (snd v))) \<le> in_entries (\<lambda>e. bytes (en_mem d e)) st"
proof -
  obtain ds st' where ev: "evict vs st = (ds, st')" by fastforce
  have ok: "registry_ok st cs ls" using assms(1) by (simp add: consistent_def)
  have "0 \<le> in_entries (\<lambda>e. bytes (en_mem d e)) st'" by (simp add: in_entries_def)
  then show ?thesis using evict_bytes(2) [OF ok assms(2) ev, of d "[]"] by (simp add: total_bytes_def)
qed

lemma bytes_mono: "v \<le> w \<Longrightarrow> bytes v \<le> bytes w"
  by (simp add: bytes_def word_le_def)

text \<open>A reservation within the limit, counted without wrap-around.\<close>

lemma reservation_within:
  assumes use: "bounded_use made seen d L M names" and c: "consistent st cs ls" and inv: "budget_inv made d L M names st cs"
    and ch: "chosen st vs" and need: "bytes need \<le> M"
    and fit: "fits (mb_limit d (rg_budget st)) (used d st - (\<Sum>v\<leftarrow>vs. en_mem d (snd v))) need"
  shows "total_bytes d st cs + bytes need \<le> L + (\<Sum>v\<leftarrow>vs. bytes (en_mem d (snd v)))"
proof -
  let ?T = "total_bytes d st cs" and ?V = "\<Sum>v\<leftarrow>vs. bytes (en_mem d (snd v))"
  have M: "0 \<le> M" "L + int (card names) * M + M < 2 ^ 64" using use by (simp_all add: bounded_use_def algebra_simps)
  have "0 \<le> in_calls (\<lambda>x. bytes (dm_mem d x)) cs" by (induction cs) (simp_all add: add_nonneg_nonneg)
  then have T: "?V \<le> ?T" "0 \<le> ?V" using victims_bytes [OF c ch, of d] by (simp_all add: total_bytes_def)
  have le: "?T \<le> L + int (card names) * M" using inv by (simp add: budget_inv_def)
  have T0: "0 \<le> ?T" "?T < 2 ^ 64" using T le M by linarith+
  have "ledger st cs" using c by (simp add: consistent_def)
  then have "bytes (used d st) = ?T" using T0 by (rule used_total)
  then have u: "used d st = of_int ?T" by (metis of_int_bytes)
  have sum: "used d st - (\<Sum>v\<leftarrow>vs. en_mem d (snd v)) + need = of_int (?T - ?V + bytes need)"
    by (simp add: u of_int_sum_bytes)
  have "mb_limit d (rg_budget st) \<noteq> 0" and L: "bytes (mb_limit d (rg_budget st)) \<le> L"
    using inv by (simp_all add: budget_inv_def good_budget_def)
  then have "bytes (of_int (?T - ?V + bytes need)) \<le> bytes (mb_limit d (rg_budget st))"
    using fit bytes_mono unfolding fits_def sum by blast
  moreover have "bytes (of_int (?T - ?V + bytes need)) = ?T - ?V + bytes need"
    using T le M need bytes_nonneg [of need] by (intro bytes_of_int) linarith+
  ultimately show ?thesis using L by linarith
qed

lemma reserved_kept:
  assumes "consistent st (c # cs) ls" "call_step su c st = (out, st')" "x \<in> set cs"
  shows "reserved d st' x = reserved d st x"
proof (cases "reserving x")
  case True
  then obtain k ds where x: "x = Acquire_Destroying k ds" by (cases x) simp_all
  have l: "loads k x" using x by simp
  then have "has_model st k" using assms(1,3) unfolding consistent_def registry_ok_def by (meson list.set_intros(2))
  then obtain e where e: "smap_find (rg_entries st) k = Some e" by (auto simp: has_model_def)
  note ok = consistent_entry [OF assms(1) e]
  have "filter (loads k) cs \<noteq> []" using assms(3) l by (auto simp: filter_empty_conv)
  then have "en_status e = Loading" "\<not> loads k c" using ok(1) by (auto simp: entry_ok_def split: if_splits)
  from call_step_keeps_loading [OF ok(2) assms(2) e this] show ?thesis using x e by simp
qed (simp add: reserved_idle)

lemma budget_step:
  assumes use: "bounded_use made seen d L M names" and c: "consistent st (c # xs @ ys) ls" "call_step su c st = (out, st')"
    and inv: "budget_inv made d L M names st (xs @ c # ys)" and su: "seen su"
  shows "budget_inv made d L M names st' (xs @ ys @ out_calls out)"
proof -
  let ?T = "total_bytes d st (xs @ c # ys)" and ?U = "total_bytes d st' (xs @ ys @ out_calls out)"
  let ?R = "\<lambda>cs. \<Sum>x\<leftarrow>cs. reserved d st x"
  let ?ord = "ordered L reserving (reserved d st) (doomed_bytes d)"
  note inv' = inv [unfolded budget_inv_def]
  have ok: "smap_ok (rg_entries st)" using c(1) by (simp add: consistent_def registry_ok_def)
  have M: "0 \<le> M" using use by (simp add: bounded_use_def)
  have static: "all_good made d M names st'" "\<forall>c' \<in> set (out_calls out). call_made made c'"
    using all_good_step [OF use ok c(2) su, of] inv' by auto
  have budget: "good_budget d L (rg_budget st')"
    using call_step_budget [OF c(2)] inv' use by (cases c) (auto simp: bounded_use_def)
  have kept: "reserved d st' x = reserved d st x" if "x \<in> set (xs @ ys)" for x using reserved_kept [OF c that] .
  then have R: "(\<Sum>x\<leftarrow>xs. reserved d st' x) = ?R xs" "(\<Sum>x\<leftarrow>ys. reserved d st' x) = ?R ys"
    by (auto intro: arg_cong [where f = sum_list])
  have nonneg: "0 \<le> ?R cs" for cs by simp
  have small: "?ord T cs" if "T \<le> L" for T cs by (rule ordered_small [OF that]) simp
  have old: "?ord (?T - ?R ys - reserved d st c) xs" "?ord ?T ys" "reserving c \<longrightarrow> ?T \<le> L + ?R ys + doomed_bytes d c"
    "?T \<le> L + ?R xs + reserved d st c + ?R ys" "?T \<le> L + int (card names) * M"
    using inv' by (simp_all add: ordered_append algebra_simps)
  obtain r where r: "(\<Sum>x\<leftarrow>out_calls out. reserved d st' x) = r" by blast
  have goal: ?thesis
    if "?U \<le> L + int (card names) * M" "?U \<le> L + ?R xs + ?R ys + r" "?ord (?U - r - ?R ys) xs" "?ord (?U - r) ys"
      "ordered L reserving (reserved d st') (doomed_bytes d) ?U (out_calls out)"
  proof -
    have "ordered L reserving (reserved d st') (doomed_bytes d) (?U - r - ?R ys) xs"
      "ordered L reserving (reserved d st') (doomed_bytes d) (?U - r) ys"
      using that(3,4) ordered_cong [of xs "reserved d st'" "reserved d st"] ordered_cong [of ys "reserved d st'" "reserved d st"] kept
      by auto
    then have "ordered L reserving (reserved d st') (doomed_bytes d) ?U (xs @ ys @ out_calls out)"
      using that(5) by (simp only: ordered_append map_append sum_list_append R r) (simp add: algebra_simps)
    moreover have "\<forall>x \<in> set (xs @ ys @ out_calls out). call_made made x" using static(2) inv' by auto
    moreover have "?U \<le> L + (\<Sum>x\<leftarrow>xs @ ys @ out_calls out. reserved d st' x)"
      using that(2) unfolding map_append sum_list_append R r by (simp add: algebra_simps)
    ultimately show ?thesis unfolding budget_inv_def using static(1) budget that(1) by blast
  qed
  show ?thesis
    using c
  proof (cases rule: call_step_cases)
    case (reserves k dl e est n)
    let ?vs = "take n (evictable st (Some k))"
    have ch: "chosen st ?vs" by (intro chosen_take chosen_evictable ok)
    have k: "k \<notin> fst ` set ?vs" using evictable_set [of st "Some k"] by (auto dest!: in_set_takeD)
    have c': "consistent st (xs @ ys) ls" using c(1) reserves(1) by (simp add: consistent_idle_call)
    obtain x where x: "out = Continues x" "total_bytes d st' (x # xs @ ys) = total_bytes d st (xs @ ys) + bytes (me_mem d est)"
      "doomed_bytes d x = (\<Sum>v\<leftarrow>?vs. bytes (en_mem d (snd v)))"
      "reserved d st' x = (if ?vs = [] then 0 else bytes (me_mem d est))" "reserving x \<longleftrightarrow> ?vs \<noteq> []"
      by (rule reserve_bytes [OF c' reserves(2,3) ch k reserves(5), of d])
    have need: "bytes (me_mem d est) \<le> M"
    proof -
      have "made (Register (en_spec e))" using inv' reserves(2) unfolding all_good_def good_entry_def by blast
      then show ?thesis using use su reserves(4) unfolding bounded_use_def by blast
    qed
    have inv2: "budget_inv made d L M names st (xs @ ys)"
      using inv' reserves(1) old by (simp add: budget_inv_def ordered_append doomed_bytes_def)
    have "\<not> mb_allow_overcommit (rg_budget st)" using inv' by (simp add: good_budget_def)
    then have "plan st (evictable st (Some k)) (me_ram_bytes est) (me_vram_bytes est) = (True, n)" using reserves(6) by simp
    from plan_fits [OF this, of d]
    have "fits (mb_limit d (rg_budget st)) (used d st - (\<Sum>v\<leftarrow>?vs. en_mem d (snd v))) (me_mem d est)" by (cases d) simp_all
    note within = reservation_within [OF use c' inv2 ch need this]
    have U: "?U = ?T + bytes (me_mem d est)" using x(1,2) reserves(1) by (simp add: doomed_bytes_def)
    have V: "(\<Sum>v\<leftarrow>?vs. bytes (en_mem d (snd v))) \<le> int (card names) * M"
      using victims_bytes [OF c' ch, of d] entries_bytes [OF ok, of made d M names] inv' use by (simp add: bounded_use_def)
    have T: "?T = total_bytes d st (xs @ ys)" using reserves(1) by (simp add: doomed_bytes_def)
    have c0: "reserved d st c = 0" using reserves(1) by simp
    have r0: "r = reserved d st' x" using r x(1) by simp
    have r1: "?U - r \<le> ?T \<or> ?U - r \<le> L" "?U \<le> L + ?R xs + ?R ys + r"
    proof -
      have "?U - r \<le> ?T \<and> ?U \<le> L + ?R xs + ?R ys + r" if "?vs \<noteq> []"
        using U x(4) that r0 old(4) c0 by (simp only: if_False) linarith
      moreover have "?U - r \<le> L \<and> ?U \<le> L + ?R xs + ?R ys + r" if "?vs = []"
      proof -
        have "(\<Sum>v\<leftarrow>?vs. bytes (en_mem d (snd v))) = 0" unfolding that by simp
        moreover have "r = 0" using that x(4) r0 by simp
        ultimately show ?thesis using U T within nonneg [of xs] nonneg [of ys] by linarith
      qed
      ultimately show "?U - r \<le> ?T \<or> ?U - r \<le> L" "?U \<le> L + ?R xs + ?R ys + r" by blast+
    qed
    show ?thesis
    proof (rule goal)
      show "?U \<le> L + int (card names) * M" using U T within V by linarith
      show "?ord (?U - r - ?R ys) xs"
        using r1(1)
      proof
        assume "?U - r \<le> ?T"
        then show ?thesis using ordered_mono [OF old(1), of "?U - r - ?R ys"] c0 by linarith
      next
        assume "?U - r \<le> L"
        then show ?thesis using small [of "?U - r - ?R ys" xs] nonneg [of ys] by linarith
      qed
      show "?ord (?U - r) ys" using r1(1) small [of "?U - r" ys] ordered_mono [OF old(2), of "?U - r"] by blast
      show "ordered L reserving (reserved d st') (doomed_bytes d) ?U (out_calls out)"
        unfolding x(1) out_calls.simps ordered.simps using x(1,3) U T within by simp
    qed (fact r1(2))
  next
    case other
    then have q: "\<forall>c' \<in> set (out_calls out). \<not> reserving c'"
      "?U \<le> ?T - (if reserving c then doomed_bytes d c else 0)"
      unfolding quiet_def by (auto simp: total_bytes_def dest: spec [of _ d])
    have r0: "r = 0" using r q(1) by (cases out) (auto simp: reserved_idle)
    have idle: "ordered L reserving (reserved d st') (doomed_bytes d) ?U (out_calls out)" using q(1) by (cases out) auto
    have c0: "\<not> reserving c \<Longrightarrow> reserved d st c = 0" by (rule reserved_idle)
    show ?thesis
    proof (cases "reserving c")
      case True
      then have "?U \<le> ?T - doomed_bytes d c" "?T \<le> L + ?R ys + doomed_bytes d c" using q(2) old(3) by (simp_all only: if_True)
      then have U: "?U \<le> L + ?R ys" "?U \<le> ?T" using doomed_bytes_nonneg [of d c] by linarith+
      show ?thesis
      proof (rule goal)
        show "?ord (?U - r - ?R ys) xs" using small [of "?U - r - ?R ys" xs] U(1) r0 by linarith
        show "?ord (?U - r) ys" using ordered_mono [OF old(2), of "?U - r"] U(2) r0 by linarith
      qed (use U r0 old(5) nonneg [of xs] idle in linarith)+
    next
      case False
      then have U: "?U \<le> ?T" using q(2) by (simp only: if_False)
      show ?thesis
      proof (rule goal)
        show "?ord (?U - r - ?R ys) xs" using ordered_mono [OF old(1), of "?U - r - ?R ys"] U r0 c0 [OF False] by linarith
        show "?ord (?U - r) ys" using ordered_mono [OF old(2), of "?U - r"] U r0 by linarith
      qed (use U r0 c0 [OF False] old(4,5) idle in linarith)+
    qed
  qed
qed

lemma release_budget:
  assumes "consistent st cs (l # ls)" "bounded_use made seen d L M names" "budget_inv made d L M names st cs"
  shows "budget_inv made d L M names (release_model w (le_name l) st) cs"
proof -
  let ?k = "le_name l" and ?st = "release_model w (le_name l) st"
  obtain e where e: "smap_find (rg_entries st) ?k = Some e"
    using assms(1) by (auto simp: consistent_def registry_ok_def lease_ok_def)
  let ?e = "e\<lparr>en_leases := en_leases e - 1, en_use_tick := rg_tick st + 1, en_last_used_ms := w\<rparr>"
  note ok = consistent_entry [OF assms(1) e]
  have st: "rg_entries ?st = smap_put ?k ?e (rg_entries st)" "rg_budget ?st = rg_budget st"
    using e by (simp_all add: release_model_def)
  have mem: "en_mem d ?e = en_mem d e" by (cases d) simp_all
  have "reserved d ?st c = reserved d st c" for c using e mem by (cases c) (simp_all add: st find_put)
  then have r: "reserved d ?st = reserved d st" by (rule ext)
  have t: "total_bytes d ?st cs = total_bytes d st cs" by (rule total_same_mem [OF ok(2) e st(1)]) simp_all
  have M: "0 \<le> M" using assms(2) by (simp add: bounded_use_def)
  have "all_good made d M names ?st"
    using assms(3) by (intro all_good_update [OF _ M e st(1)]) (simp_all add: budget_inv_def)
  then show ?thesis using assms(3) unfolding budget_inv_def st(2) r t by blast
qed

lemma budget_start:
  assumes "bounded_use made seen d L M names" "good_budget d L b"
  shows "budget_inv made d L M names (new_registry b) []"
proof -
  have "0 \<le> L" using assms(2) bytes_nonneg [of "mb_limit d b"] unfolding good_budget_def by linarith
  moreover have "0 \<le> int (card names) * M" using assms(1) by (simp add: bounded_use_def)
  ultimately show ?thesis
    using assms(2) by (simp add: budget_inv_def new_registry_def all_good_def total_bytes_def in_entries_def)
qed

lemma budget_reachable:
  assumes "reachable made seen b sy" "bounded_use made seen d L M names" "good_budget d L b"
  shows "budget_inv made d L M names (sy_registry sy) (sy_calls sy)"
  using assms(1)
proof (induction rule: reachable.induct)
  case initial
  then show ?case using budget_start [OF assms(2,3)] by (simp add: system_start_def)
next
  case (step sy sy')
  have ok: "consistent (sy_registry sy) (sy_calls sy) (sy_leases sy)"
    using reachable_ok [OF step(1)] by (simp add: system_ok_def)
  from step(2) show ?case
  proof cases
    case (start c)
    have "call_made made c" using start(2,3) by (cases c) simp_all
    moreover have "reserved d (sy_registry sy) c = 0" "doomed_bytes d c = 0" "\<not> reserving c"
      using start(3) by (cases c; simp add: doomed_bytes_def)+
    ultimately show ?thesis
      using step.IH by (simp add: start(1) budget_inv_def ordered_append doomed_bytes_def)
  next
    case (run_section xs c ys su)
    obtain out st' where out: "call_step su c (sy_registry sy) = (out, st')" by fastforce
    have "consistent (sy_registry sy) (c # xs @ ys) (sy_leases sy)"
      using consistent_cong [OF _ refl ok, of "c # xs @ ys"] run_section(2) by simp
    from budget_step [OF assms(2) this out step.IH [unfolded run_section(2)] run_section(3)]
    show ?thesis by (cases out) (simp_all add: run_section(1) out after_step_def)
  next
    case (release xs l ys w)
    have "consistent (sy_registry sy) (sy_calls sy) (l # xs @ ys)"
      using consistent_cong [OF refl _ ok, of "l # xs @ ys"] release(2) by simp
    from release_budget [OF this assms(2) step.IH] show ?thesis by (simp add: release(1))
  qed
qed

section \<open>Least recently used first\<close>

lemma plan_from_least:
  assumes "plan_from b ram vram cands nr nv n = (f, m)" "j < m - n"
  shows "\<not> (fits (mb_ram_bytes b) (ram - (\<Sum>x\<leftarrow>take j cands. en_ram (snd x))) nr \<and>
    fits (mb_vram_bytes b) (vram - (\<Sum>x\<leftarrow>take j cands. en_vram (snd x))) nv)"
  using assms
proof (induction cands arbitrary: ram vram n j)
  case Nil
  then show ?case by (subst (asm) plan_from.simps) (auto split: if_splits)
next
  case (Cons c cands)
  show ?case
  proof (cases "fits (mb_ram_bytes b) ram nr \<and> fits (mb_vram_bytes b) vram nv")
    case True
    then have "m = n" using Cons.prems(1) by (subst (asm) plan_from.simps) simp
    then show ?thesis using Cons.prems(2) by simp
  next
    case False
    then have rec: "plan_from b (ram - en_ram (snd c)) (vram - en_vram (snd c)) cands nr nv (n + 1) = (f, m)"
      using Cons.prems(1) by (subst (asm) plan_from.simps) (auto split: if_splits prod.splits)
    show ?thesis
    proof (cases j)
      case 0
      then show ?thesis using False by simp
    next
      case (Suc i)
      then have "i < m - (n + 1)" using Cons.prems(2) by simp
      from Cons.IH [OF rec this] show ?thesis by (simp add: Suc algebra_simps)
    qed
  qed
qed

lemma evictable_sorted: "sorted (map (\<lambda>x. en_use_tick (snd x)) (evictable st x))"
  using sorted_sort_key [of "\<lambda>(_, e). en_use_tick e" "filter (\<lambda>(name, e). Some name \<noteq> x \<and> idle e) (rg_entries st)"]
  by (simp add: evictable_def case_prod_beta')

definition doom :: "('w, 'm, 's) entry \<Rightarrow> 's doomed" where
  "doom e = \<lparr>dm_session = en_session e, dm_ram = en_ram e, dm_vram = en_vram e\<rparr>"

lemma evict_doomed: "evict vs st = (ds, st') \<Longrightarrow> ds = map (\<lambda>v. doom (snd v)) vs"
proof (induction vs arbitrary: st ds)
  case (Cons v vs)
  obtain k e where v: "v = (k, e)" by (cases v)
  obtain x st1 where t: "take_out k e st = (x, st1)" by fastforce
  obtain ds' where r: "evict vs st1 = (ds', st')" "ds = x # ds'" using Cons.prems t v by (auto split: prod.splits)
  have "x = doom e" using arg_cong [OF t, of fst] unfolding take_out_def doom_def fst_conv by (rule sym)
  then show ?case using Cons.IH [OF r(1)] r(2) v by simp
qed simp

section \<open>Executed runs\<close>

text \<open>A run of the registry as a list of actions, for concrete states.\<close>

datatype ('w, 'm, 's) action =
    Start "('w, 'm, 's) call"
  | Section nat "('w, 'm, 's) surroundings"
  | Release nat int

fun act :: "('w, 'm, 's) action \<Rightarrow> ('w, 'm, 's) system \<Rightarrow> ('w, 'm, 's) system" where
  "act (Start c) sy = sy\<lparr>sy_calls := sy_calls sy @ [c]\<rparr>"
| "act (Section i su) sy =
     (let cs = sy_calls sy in
      if i < length cs then after_step (take i cs @ drop (Suc i) cs) (call_step su (cs ! i) (sy_registry sy)) (sy_leases sy) else sy)"
| "act (Release i wall) sy =
     (let ls = sy_leases sy in
      if i < length ls
      then sy\<lparr>sy_registry := release_model wall (le_name (ls ! i)) (sy_registry sy), sy_leases := take i ls @ drop (Suc i) ls\<rparr> else sy)"

fun allowed :: "(('w, 'm, 's) call \<Rightarrow> bool) \<Rightarrow> (('w, 'm, 's) surroundings \<Rightarrow> bool) \<Rightarrow> ('w, 'm, 's) action \<Rightarrow> bool" where
  "allowed made seen (Start c) \<longleftrightarrow> made c \<and> starts_call c"
| "allowed made seen (Section _ su) \<longleftrightarrow> seen su"
| "allowed made seen (Release _ _) \<longleftrightarrow> True"

lemma reachable_act:
  assumes "reachable made seen b sy" "allowed made seen a"
  shows "reachable made seen b (act a sy)"
proof (cases a)
  case (Start c)
  then show ?thesis using assms reachable.step [OF assms(1) registry_step.start] by simp
next
  case (Section i su)
  show ?thesis
  proof (cases "i < length (sy_calls sy)")
    case True
    from registry_step.run_section [OF id_take_nth_drop [OF True], of seen su made]
    show ?thesis using assms True Section reachable.step [OF assms(1)] by (simp add: Let_def)
  qed (use assms(1) Section in \<open>simp add: Let_def\<close>)
next
  case (Release i w)
  show ?thesis
  proof (cases "i < length (sy_leases sy)")
    case True
    from registry_step.release [OF id_take_nth_drop [OF True], of made seen w]
    show ?thesis using True Release reachable.step [OF assms(1)] by (simp add: Let_def)
  qed (use assms(1) Release in \<open>simp add: Let_def\<close>)
qed

lemma reachable_acts:
  "reachable made seen b sy \<Longrightarrow> list_all (allowed made seen) as \<Longrightarrow> reachable made seen b (fold act as sy)"
  by (induction as arbitrary: sy) (auto intro: reachable_act)

text \<open>Two models of 100 bytes under a budget of 150: the second evicts the first.\<close>

definition sample_model :: "string \<Rightarrow> (unit, unit, nat) model_spec" where
  "sample_model name =
     \<lparr>ms_name = name,
      ms_config = \<lparr>cfg_provider = Engine, cfg_context_window = 2048, cfg_max_tokens = 512, cfg_temperature = ''0.7000'',
        cfg_max_tool_call_rounds = 10, cfg_max_parallel_subagents = 4, cfg_default_task = 0, cfg_tools = [],
        cfg_permission_check = None, cfg_permission_prompt = None, cfg_engine = ''llama'', cfg_model = name,
        cfg_engine_options = []\<rparr>,
      ms_estimated_bytes = 100, ms_pinned = False, ms_on_load = None\<rparr>"

definition sample_budget :: model_budget where
  "sample_budget = \<lparr>mb_ram_bytes = 150, mb_vram_bytes = 0, mb_allow_overcommit = False, mb_wait_ms = 0\<rparr>"

definition sample_surroundings :: "(unit, unit, nat) surroundings" where
  "sample_surroundings =
     \<lparr>su_os = \<lparr>os_parse = json_parse, os_trunc = (\<lambda>_. 0), os_is_directory = (\<lambda>_. False), os_is_regular = (\<lambda>_. True),
        os_file_size = (\<lambda>_. None), os_files_below = (\<lambda>_. [])\<rparr>,
      su_steady_ms = 5, su_wall_ms = 7, su_load_ms = 1, su_init = (\<lambda>_. ok 1)\<rparr>"

definition sample_made :: "(unit, unit, nat) call \<Rightarrow> bool" where
  "sample_made c \<longleftrightarrow> (\<exists>name \<in> {''a'', ''b''}. c = Register (sample_model name) \<or> c = Acquire name None)"

definition sample_seen :: "(unit, unit, nat) surroundings \<Rightarrow> bool" where
  "sample_seen su \<longleftrightarrow> su = sample_surroundings"

definition sample_actions :: "(unit, unit, nat) action list" where
  "sample_actions =
     (let sec = Section 0 sample_surroundings in
      [Start (Register (sample_model ''a'')), sec, Start (Register (sample_model ''b'')), sec,
       Start (Acquire ''a'' None), sec, sec, Release 0 8, Start (Acquire ''b'' None), sec])"

lemma plan_from_now [simp]:
  "fits (mb_ram_bytes b) ram nr \<Longrightarrow> fits (mb_vram_bytes b) vram nv \<Longrightarrow> plan_from b ram vram cs nr nv n = (True, n)"
  by (subst plan_from.simps) simp

lemma plan_from_more:
  "\<not> (fits (mb_ram_bytes b) ram nr \<and> fits (mb_vram_bytes b) vram nv) \<Longrightarrow>
   plan_from b ram vram ((k, e) # cs) nr nv n = plan_from b (ram - en_ram e) (vram - en_vram e) cs nr nv (n + 1)"
  by (subst plan_from.simps) auto

lemma sample_model_simps:
  "ms_name (sample_model n) = n" "\<not> ms_pinned (sample_model n)"
  "estimate_model_memory (su_os sample_surroundings) (sample_model n) = ok \<lparr>me_file_bytes = 0, me_ram_bytes = 100, me_vram_bytes = 0\<rparr>"
  "load_session sample_surroundings (sample_model n) = ok 1" "su_steady_ms sample_surroundings = 5"
  "su_wall_ms sample_surroundings = 7" "su_load_ms sample_surroundings = 1"
  by (simp_all add: estimate_model_memory_def read_options_def sample_model_def Let_def load_session_def sample_surroundings_def)

lemmas sample_eval = after_step_def acquire_section_def acquire_unloaded_def register_section_def set_entry_def new_entry_def
  new_registry_def system_start_def sample_budget_def sample_model_simps plan_def fits_def reserve_def finish_load_def
  make_lease_def touch_def release_model_def Let_def evictable_def idle_def take_out_def plan_from_more sample_actions_def

definition sample_run :: "nat \<Rightarrow> (unit, unit, nat) system" where
  "sample_run n = fold act (take n sample_actions) (system_start sample_budget)"

lemma sample_reachable: "reachable sample_made sample_seen sample_budget (sample_run n)"
proof -
  have "list_all (allowed sample_made sample_seen) sample_actions"
    by (simp add: sample_actions_def Let_def sample_made_def sample_seen_def)
  then have "list_all (allowed sample_made sample_seen) (take n sample_actions)"
    by (simp add: list_all_length)
  then show ?thesis unfolding sample_run_def by (intro reachable_acts reachable.initial)
qed

section \<open>Properties\<close>

text \<open>
  C5. The registry keeps its promises to lease holders in every interleaving of its calls, with any
  wake-ups, evictions, failed loads and changes of the budget: a leased model stays loaded, with the
  very session the lease points to; the lease count of every model is the number of its leases; a
  model is being loaded by exactly one call when it is marked so; and the accounts are the bytes of
  the models loaded, reserved or being destroyed (modulo \<open>2 ^ 64\<close>, as they are kept).
\<close>

theorem leased_models_stay_loaded:
  assumes "reachable made seen b sy"
  shows "(\<forall>l \<in> set (sy_leases sy). \<exists>e s. smap_find (rg_entries (sy_registry sy)) (le_name l) = Some e \<and>
        en_status e = Loaded \<and> en_session e = Some s \<and> le_session l = Some s) \<and>
     (\<forall>k e. smap_find (rg_entries (sy_registry sy)) k = Some e \<longrightarrow>
        en_leases e = int (length (filter (\<lambda>l. le_name l = k) (sy_leases sy))) \<and>
        length (filter (loads k) (sy_calls sy)) = (if en_status e = Loading then 1 else 0)) \<and>
     rg_ram_used (sy_registry sy) = in_entries en_ram (sy_registry sy) + in_calls dm_ram (sy_calls sy) \<and>
     rg_vram_used (sy_registry sy) = in_entries en_vram (sy_registry sy) + in_calls dm_vram (sy_calls sy) \<and>
     rg_ram_releasing (sy_registry sy) = in_calls dm_ram (sy_calls sy) \<and>
     rg_vram_releasing (sy_registry sy) = in_calls dm_vram (sy_calls sy)"
proof -
  have ok: "registry_ok (sy_registry sy) (sy_calls sy) (sy_leases sy)" "ledger (sy_registry sy) (sy_calls sy)"
    using reachable_ok [OF assms] by (simp_all add: system_ok_def consistent_def)
  have entry: "entry_ok (sy_calls sy) (sy_leases sy) k e" if "smap_find (rg_entries (sy_registry sy)) k = Some e" for k e
    using ok(1) that by (simp add: registry_ok_def)
  have "\<exists>e s. smap_find (rg_entries (sy_registry sy)) (le_name l) = Some e \<and> en_status e = Loaded \<and>
      en_session e = Some s \<and> le_session l = Some s" if "l \<in> set (sy_leases sy)" for l
  proof -
    obtain e where e: "smap_find (rg_entries (sy_registry sy)) (le_name l) = Some e" "en_status e = Loaded" "en_session e = le_session l"
      using ok(1) \<open>l \<in> set (sy_leases sy)\<close> by (auto simp: registry_ok_def lease_ok_def)
    moreover have "en_session e \<noteq> None" using entry [OF e(1)] e(2) by (simp add: entry_ok_def)
    ultimately show ?thesis by auto
  qed
  moreover have "en_leases e = int (length (filter (\<lambda>l. le_name l = k) (sy_leases sy))) \<and>
      length (filter (loads k) (sy_calls sy)) = (if en_status e = Loading then 1 else 0)"
    if "smap_find (rg_entries (sy_registry sy)) k = Some e" for k e
    using entry [OF that] unfolding entry_ok_def by blast
  ultimately show ?thesis using ok(2) unfolding ledger_def by blast
qed

theorem leased_models_stay_loaded_witness:
  "reachable sample_made sample_seen sample_budget (sample_run 7) \<and> sy_leases (sample_run 7) = [\<lparr>le_session = Some 1, le_name = ''a''\<rparr>] \<and>
   (\<exists>e. smap_find (rg_entries (sy_registry (sample_run 7))) ''a'' = Some e \<and> en_status e = Loaded \<and> en_session e = Some 1)"
proof -
  have l: "sy_leases (sample_run 7) = [\<lparr>le_session = Some 1, le_name = ''a''\<rparr>]" by (simp add: sample_run_def sample_eval)
  show ?thesis
    using leased_models_stay_loaded [OF sample_reachable [of 7]] sample_reachable [of 7] l
    by (auto simp del: One_nat_def)
qed

text \<open>
  C6. The memory of the models stays within the budget: when every budget set has a limit of at most
  \<open>L\<close> bytes without overcommit (and the estimates do not reach \<open>2 ^ 64\<close> together), the models that
  exist, loaded, being loaded or being destroyed, never take more than \<open>L\<close> bytes, although the
  accounts, which include reservations made before the victims are destroyed, may exceed it; the
  accounts do not wrap around.
\<close>

theorem registry_within_budget:
  assumes "reachable made seen b sy" "bounded_use made seen d L M names" "good_budget d L b"
  shows "physical_bytes d sy \<le> L \<and> bytes (used d (sy_registry sy)) = total_bytes d (sy_registry sy) (sy_calls sy)"
proof -
  let ?T = "total_bytes d (sy_registry sy) (sy_calls sy)"
  note inv = budget_reachable [OF assms, unfolded budget_inv_def]
  have "0 \<le> ?T" unfolding total_bytes_def in_entries_def in_calls_def by (intro add_nonneg_nonneg sum_list_nonneg) auto
  moreover have "?T < 2 ^ 64"
  proof -
    have "?T \<le> L + int (card names) * M" "0 \<le> M" "L + int (card names) * M + M < 2 ^ 64"
      using inv assms(2) by (simp_all add: bounded_use_def algebra_simps)
    then show ?thesis by linarith
  qed
  moreover have "ledger (sy_registry sy) (sy_calls sy)" using reachable_ok [OF assms(1)] by (simp add: system_ok_def consistent_def)
  ultimately have "bytes (used d (sy_registry sy)) = ?T" by (intro used_total)
  moreover have "?T \<le> L + (\<Sum>c\<leftarrow>sy_calls sy. reserved d (sy_registry sy) c)" using inv by blast
  ultimately show ?thesis unfolding physical_bytes_def by simp
qed

lemma sample_bounded: "bounded_use sample_made sample_seen Ram 150 100 {''a'', ''b''}" "good_budget Ram 150 sample_budget"
proof -
  have "bytes 100 = 100" "bytes 150 = 150" by (simp_all add: bytes_def)
  then show "bounded_use sample_made sample_seen Ram 150 100 {''a'', ''b''}" "good_budget Ram 150 sample_budget"
    by (auto simp: bounded_use_def good_budget_def sample_made_def sample_seen_def sample_budget_def sample_model_simps)
qed

theorem registry_within_budget_witness:
  "reachable sample_made sample_seen sample_budget (sample_run 10) \<and> rg_ram_used (sy_registry (sample_run 10)) = 200 \<and>
   physical_bytes Ram (sample_run 10) \<le> 150"
proof -
  have "rg_ram_used (sy_registry (sample_run 10)) = 200" by (simp add: sample_run_def sample_eval)
  then show ?thesis using registry_within_budget [OF sample_reachable [of 10] sample_bounded] sample_reachable [of 10] by simp
qed

text \<open>
  C19. Victims are the least recently used: when \<open>acquire_model\<close> reserves a model without overcommit,
  what it destroys are the first idle models (loaded, not leased, not pinned, not the one acquired) in
  the order of their last use; with them gone the new model fits the budget, and with fewer it does not.
\<close>

theorem eviction_is_lru:
  assumes "acquire_section su k dl st = (Continues c, st')" "loads k c" "\<not> mb_allow_overcommit (rg_budget st)"
  shows "\<exists>e est n. smap_find (rg_entries st) k = Some e \<and> estimate_model_memory (su_os su) (en_spec e) = ok est \<and>
     doomed_of c = map (\<lambda>v. doom (snd v)) (take n (evictable st (Some k))) \<and>
     sorted (map (\<lambda>v. en_use_tick (snd v)) (evictable st (Some k))) \<and>
     (\<forall>v. v \<in> set (evictable st (Some k)) \<longleftrightarrow> v \<in> set (rg_entries st) \<and> fst v \<noteq> k \<and> idle (snd v)) \<and>
     (\<forall>j \<le> n. (fits (mb_ram_bytes (rg_budget st))
                  (rg_ram_used st - (\<Sum>v\<leftarrow>take j (evictable st (Some k)). en_ram (snd v))) (me_ram_bytes est) \<and>
                fits (mb_vram_bytes (rg_budget st))
                  (rg_vram_used st - (\<Sum>v\<leftarrow>take j (evictable st (Some k)). en_vram (snd v))) (me_vram_bytes est)) \<longleftrightarrow> j = n)"
proof -
  obtain e where e: "smap_find (rg_entries st) k = Some e" "en_status e = Unloaded"
    using assms(1,2) by (auto simp: acquire_section_def Let_def split: option.splits entry_status.splits)
  then obtain dead where u: "acquire_unloaded su k dead e st = (Continues c, st')"
    using assms(1) by (simp add: acquire_section_def Let_def)
  then obtain est n where est: "estimate_model_memory (su_os su) (en_spec e) = ok est"
      and plan: "plan st (evictable st (Some k)) (me_ram_bytes est) (me_vram_bytes est) = (True, n)"
      and res: "reserve k e est (take n (evictable st (Some k))) st = (Continues c, st')"
    using assms(2,3) by (auto simp: acquire_unloaded_def Let_def split: sum.splits prod.splits bool.splits if_splits)
  obtain ds st1 where ev: "evict (take n (evictable st (Some k))) st = (ds, st1)" by fastforce
  have "doomed_of c = ds" using res ev by (auto simp: reserve_def Let_def)
  then have "doomed_of c = map (\<lambda>v. doom (snd v)) (take n (evictable st (Some k)))" using evict_doomed [OF ev] by simp
  moreover have "v \<in> set (evictable st (Some k)) \<longleftrightarrow> v \<in> set (rg_entries st) \<and> fst v \<noteq> k \<and> idle (snd v)" for v
    by (cases v) (simp add: evictable_set)
  moreover have "(fits (mb_ram_bytes (rg_budget st))
        (rg_ram_used st - (\<Sum>v\<leftarrow>take j (evictable st (Some k)). en_ram (snd v))) (me_ram_bytes est) \<and>
      fits (mb_vram_bytes (rg_budget st))
        (rg_vram_used st - (\<Sum>v\<leftarrow>take j (evictable st (Some k)). en_vram (snd v))) (me_vram_bytes est)) \<longleftrightarrow> j = n"
    if "j \<le> n" for j
    using plan_from_fits [OF plan [unfolded plan_def]] plan_from_least [OF plan [unfolded plan_def], of j] that
    by (cases "j = n") auto
  ultimately show ?thesis using e(1) est evictable_sorted by blast
qed

theorem eviction_is_lru_witness:
  "\<exists>c st' n. acquire_section sample_surroundings ''b'' None (sy_registry (sample_run 8)) = (Continues c, st') \<and>
     doomed_of c = map (\<lambda>v. doom (snd v)) (take n (evictable (sy_registry (sample_run 8)) (Some ''b''))) \<and> length (doomed_of c) = 1"
proof -
  let ?st = "sy_registry (sample_run 8)"
  have "\<exists>ds st'. acquire_section sample_surroundings ''b'' None ?st = (Continues (Acquire_Destroying ''b'' ds), st') \<and> length ds = 1"
    by (simp add: sample_run_def sample_eval)
  then obtain ds st' where a: "acquire_section sample_surroundings ''b'' None ?st = (Continues (Acquire_Destroying ''b'' ds), st')"
      "length ds = 1" by blast
  have "\<not> mb_allow_overcommit (rg_budget ?st)" by (simp add: sample_run_def sample_eval)
  from eviction_is_lru [OF a(1) _ this] obtain n where
      "ds = map (\<lambda>v. doom (snd v)) (take n (evictable ?st (Some ''b'')))" by auto
  then show ?thesis using a by (intro exI [of _ "Acquire_Destroying ''b'' ds"] exI [of _ st'] exI [of _ n]) simp
qed

end
