(* ===== verification/Turn_Media.thy ===== *)
theory Turn_Media
  imports Turn_Props
begin

text \<open>
  Tool media and the provider that cannot refuse it. \<open>run_turn_with_media\<close> repeats an inference
  that failed while it carried tool media, after \<open>reject_tool_media\<close>; for the mock provider that
  call does nothing and \<open>accepts_tool_media\<close> stays true, so the repetition is the same request.
\<close>

definition media_message :: message where
  "media_message = (new_message ''tool'' ''m'')
     \<lparr>msg_media := [\<lparr>media_path = ''/a.png'', media_mime = ''image/png''\<rparr>], msg_token_count := 5\<rparr>"

text \<open>The mock provider with a default task it does not perform (\<open>AGENT_CAP_TTS\<close>).\<close>

definition tts_mock_session :: "(unit, in_memory_state) session" where
  "tts_mock_session = sample_session\<lparr>config := sample_config\<lparr>cfg_default_task := 128\<rparr>\<rparr>"

definition media_rt :: "arena \<Rightarrow> (unit, in_memory_state) rt" where
  "media_rt a = (sample_rt [media_message])\<lparr>rt_arena := a\<rparr>"

abbreviation media_slab :: arena where
  "media_slab \<equiv> arena_new 65536 65536"

lemma media_views:
  obtains vs a where
    "build_message_views tts_mock_session ambient_default False [media_message] media_slab = (ok (vs, True), a)"
    "reset a = media_slab"
proof -
  have "case build_message_views tts_mock_session ambient_default False [media_message] media_slab of
      (Inl _, _) \<Rightarrow> False | (Inr (vs, sent), a) \<Rightarrow> sent \<and> reset a = media_slab"
    by code_simp
  then show thesis using that by (auto split: prod.splits sum.splits)
qed

lemma media_prune: "prune_history_state tts_mock_session ambient_default (media_rt a) = media_rt a"
proof -
  have "injected_system_text tts_mock_session ambient_default = []"
    by (simp add: injected_system_text_def tts_mock_session_def sample_config_def)
  moreover have "prune_loop tts_mock_session [media_message] (max_allowed_tokens tts_mock_session 0) 1 0 0 5 w = (0, w)" for w
    by (simp add: prune_loop.simps max_allowed_tokens_def)
  moreover have "fixed_start [media_message] = 0"
    by (simp add: fixed_start_def media_message_def new_message_def)
  ultimately show ?thesis
    by (simp add: prune_history_state_def count_text_tokens_def count_message_tokens_def media_rt_def sample_rt_def
        sample_memory_def set_history_def) (simp add: media_message_def set_history_def)
qed

lemma media_infer:
  "\<exists>msg. infer tts_mock_session ambient_default (turn_request stream on_token vs) r = (fail UnsupportedProvider msg, r)"
  by (simp add: infer_def infer_mock_def tts_mock_session_def sample_config_def cap_text_gen_def turn_request_def)

lemma media_step:
  assumes "reset a = media_slab"
  shows "\<exists>a'. turn_step tts_mock_session ambient_default stream on_token n (media_rt a) = (Again n, media_rt a') \<and> reset a' = media_slab"
proof -
  obtain vs a' where views: "build_message_views tts_mock_session ambient_default False [media_message] media_slab = (ok (vs, True), a')"
      "reset a' = media_slab"
    by (rule media_views)
  have parts: "rt_media_rejected (media_rt b) = False" "history (media_rt b) = [media_message]"
      "current_arena ambient_default (media_rt b) = b" "set_current_arena ambient_default c (media_rt b) = media_rt c"
      "\<not> env_cancel (rt_env (media_rt b))" "trigger_event tts_mock_session ty p (media_rt b) = media_rt b"
      "reject_tool_media tts_mock_session (media_rt b) = media_rt b" for b c ty p
    by (simp_all add: media_rt_def sample_rt_def sample_memory_def current_arena_def set_current_arena_def
        ambient_default_def trigger_event_def tts_mock_session_def sample_session_def reject_tool_media_def sample_config_def)
  obtain msg where "infer tts_mock_session ambient_default (turn_request stream on_token vs) (media_rt a') =
      (fail UnsupportedProvider msg, media_rt a')"
    using media_infer by blast
  with views show ?thesis
    by (intro exI [of _ a']) (simp add: turn_step_def Let_def media_prune parts assms)
qed



end
