(* ===== verification/Provider_Props.thy ===== *)
theory Provider_Props
  imports Providers Samples
begin

text \<open>
  Properties of the provider layer: what the conversion of an engine's response keeps, and which
  tools a request and the injected text advertise.
\<close>

section \<open>The response\<close>

lemma allocate_string_cases: "fst (allocate_string s a) = s \<or> fst (allocate_string s a) = []"
  by (simp add: allocate_string_def split: prod.split option.split)

definition same_or_empty :: "string \<Rightarrow> string \<Rightarrow> bool" where
  "same_or_empty s t \<longleftrightarrow> t = s \<or> t = []"

definition call_copied :: "tool_call \<Rightarrow> tool_call \<Rightarrow> bool" where
  "call_copied c c' \<longleftrightarrow> same_or_empty (tc_id c) (tc_id c') \<and> same_or_empty (tc_name c) (tc_name c') \<and>
     same_or_empty (tc_arguments c) (tc_arguments c')"

lemma copy_calls_copied: "list_all2 call_copied cs (fst (copy_calls cs a))"
proof (induction cs arbitrary: a)
  case (Cons c cs)
  obtain i a1 n a2 g a3 where steps: "allocate_string (tc_id c) a = (i, a1)" "allocate_string (tc_name c) a1 = (n, a2)"
      "allocate_string (tc_arguments c) a2 = (g, a3)" by (meson surj_pair)
  obtain cs' a4 where rest: "copy_calls cs a3 = (cs', a4)" by fastforce
  have "same_or_empty (tc_id c) i" "same_or_empty (tc_name c) n" "same_or_empty (tc_arguments c) g"
    using allocate_string_cases [of "tc_id c" a] allocate_string_cases [of "tc_name c" a1]
      allocate_string_cases [of "tc_arguments c" a2] steps by (simp_all add: same_or_empty_def)
  with Cons [of a3] steps rest show ?case by (simp add: call_copied_def)
qed simp

definition part_text :: "agent_part \<Rightarrow> string" where
  "part_text pt = (case pt of Part_Text t \<Rightarrow> t | _ \<Rightarrow> [])"

lemma copy_parts_text: "copy_parts ps a = (Some (c, ms, ts), a') \<Longrightarrow> c = concat (map part_text ps)"
proof (induction ps a arbitrary: c ms ts a' rule: copy_parts.induct)
  case (2 t ps a)
  then show ?case by (auto simp: part_text_def split: prod.splits option.splits)
next
  case (3 path mime ps a)
  then show ?case by (auto simp: part_text_def split: prod.splits option.splits)
next
  case (4 name dt shape data ps a)
  then show ?case by (auto simp: part_text_def split: prod.splits option.splits if_splits)
qed (auto simp: part_text_def)


definition sample_response :: agent_response where
  "sample_response =
     \<lparr>ap_message = \<lparr>am_role = ''assistant'', am_parts = [Part_Text ''x''], am_tool_calls = [sample_call], am_tool_call_id = []\<rparr>,
      ap_prompt_tokens = 1, ap_completion_tokens = 1\<rparr>"


text \<open>
  The missing check: with 64 bytes left, a response with one tool call is accepted although
  the arena has no room for its strings, and the turn sees a call whose id, name and arguments
  are empty instead of the error the other allocations report.
\<close>

theorem response_strings_lost:
  "\<exists>out a'. to_infer_response sample_response (arena_new 65536 64) = (ok out, a') \<and>
     mv_tool_calls (resp_message out) = [\<lparr>tc_id = [], tc_name = [], tc_arguments = []\<rparr>]"
proof -
  have "case to_infer_response sample_response (arena_new 65536 64) of
      (Inl _, _) \<Rightarrow> False | (Inr out, _) \<Rightarrow> mv_tool_calls (resp_message out) = [\<lparr>tc_id = [], tc_name = [], tc_arguments = []\<rparr>]"
    by code_simp
  then show ?thesis by (auto split: prod.splits sum.splits)
qed

section \<open>Advertised tools\<close>

lemma tools_json_items_allowed:
  "tools_json_items allowed ts = tools_json_items [] (filter (\<lambda>t. tool_allowed allowed (tool_name t)) ts)"
  by (induction ts) (auto simp: tool_allowed_def)

lemma tool_lines_allowed:
  "tool_lines allowed ts any out = tool_lines [] (filter (\<lambda>t. tool_allowed allowed (tool_name t)) ts) any out"
  by (induction ts arbitrary: any out) (auto simp: tool_allowed_def)

text \<open>
  Inside an agent node with \<open>allowed_tools\<close>, the tool list put in front of the conversation
  and the tool definitions of a request are those of a session that has only the allowed tools:
  the model is never told about a tool the node would refuse to run.
\<close>

theorem advertised_tools_are_allowed:
  "append_tool_list ts allowed out = append_tool_list (filter (\<lambda>t. tool_allowed allowed (tool_name t)) ts) [] out \<and>
   tools_json_items allowed ts = tools_json_items [] (filter (\<lambda>t. tool_allowed allowed (tool_name t)) ts)"
  using tool_lines_allowed [of allowed ts False out] tools_json_items_allowed [of allowed ts]
  by (simp add: append_tool_list_def)

end
