(* ===== verification/Chunker.thy ===== *)
theory Chunker
  imports Utf8
begin

text \<open>
  \<open>chunk_text\<close>, \<^verbatim>\<open>src/core/rag/chunker.cpp\<close>: a document is cut into chunks of at most \<open>size\<close> bytes,
  preferably at a paragraph, line, sentence or word boundary. A chunk is a \<open>std::string_view\<close>, here
  its offset in the document and its length. Positions never exceed the length of the document by more
  than \<open>size\<close>, and \<open>pos + options.size\<close> is only computed when it is below it, so that they are natural
  numbers. The theorems: the loop ends, the chunks respect the bounds, leave out nothing but white
  space, and are UTF-8 text when the document is.
\<close>

section \<open>The source's functions\<close>

record chunk_options =
  co_size :: nat
  co_overlap :: nat

type_synonym view = "nat \<times> nat"

definition view_text :: "string \<Rightarrow> view \<Rightarrow> string" where
  "view_text t v = take (snd v) (drop (fst v) t)"

definition is_space :: "char \<Rightarrow> bool" where
  "is_space c \<longleftrightarrow> c \<in> {CHR '' '', CHR 0x09, CHR 0x0A, CHR 0x0D, CHR 0x0C, CHR 0x0B}"

function skip_space :: "string \<Rightarrow> nat \<Rightarrow> nat" where
  "skip_space t i = (if i < length t \<and> is_space (t ! i) then skip_space t (i + 1) else i)"
  by auto
termination by (relation "measure (\<lambda>(t, i). length t - i)") auto

declare skip_space.simps [simp del]

text \<open>The loop of \<open>paragraph_break\<close>: back from \<open>j\<close> over blanks, not before \<open>start\<close>.\<close>

fun skip_blanks :: "string \<Rightarrow> nat \<Rightarrow> nat \<Rightarrow> nat" where
  "skip_blanks t start j =
     (if start < j \<and> t ! j \<in> {CHR '' '', CHR 0x09, CHR 0x0D} then skip_blanks t start (j - 1) else j)"

declare skip_blanks.simps [simp del]

definition paragraph_break :: "string \<Rightarrow> nat \<Rightarrow> nat \<Rightarrow> bool" where
  "paragraph_break t start b \<longleftrightarrow>
     (if t ! (b - 1) \<noteq> CHR 0x0A \<or> b < start + 2 then False else t ! skip_blanks t start (b - 2) = CHR 0x0A)"

definition line_break :: "string \<Rightarrow> nat \<Rightarrow> nat \<Rightarrow> bool" where
  "line_break t start b \<longleftrightarrow> t ! (b - 1) = CHR 0x0A"

definition sentence_break :: "string \<Rightarrow> nat \<Rightarrow> nat \<Rightarrow> bool" where
  "sentence_break t start b \<longleftrightarrow>
     b \<ge> start + 2 \<and> is_space (t ! (b - 1)) \<and> t ! (b - 2) \<in> {CHR ''.'', CHR ''!'', CHR ''?''}"

definition word_break :: "string \<Rightarrow> nat \<Rightarrow> nat \<Rightarrow> bool" where
  "word_break t start b \<longleftrightarrow> is_space (t ! (b - 1)) \<or> is_space (t ! b)"

definition kBreaks :: "(string \<Rightarrow> nat \<Rightarrow> nat \<Rightarrow> bool) list" where
  "kBreaks = [paragraph_break, line_break, sentence_break, word_break]"

text \<open>The inner loop of \<open>find_break\<close>: the greatest boundary above \<open>lo\<close> and up to \<open>b\<close>.\<close>

fun last_break :: "(nat \<Rightarrow> bool) \<Rightarrow> nat \<Rightarrow> nat \<Rightarrow> nat option" where
  "last_break is_break lo b =
     (if b > lo then if is_break b then Some b else last_break is_break lo (b - 1) else None)"

declare last_break.simps [simp del]

fun first_break :: "(string \<Rightarrow> nat \<Rightarrow> nat \<Rightarrow> bool) list \<Rightarrow> string \<Rightarrow> nat \<Rightarrow> nat \<Rightarrow> nat \<Rightarrow> nat option" where
  "first_break [] t start lo hi = None"
| "first_break (is_break # bs) t start lo hi =
     (case last_break (is_break t start) lo hi of
        Some b \<Rightarrow> Some b
      | None \<Rightarrow> first_break bs t start lo hi)"

text \<open>The last loop of \<open>find_break\<close>, which leaves a UTF-8 sequence; \<open>lo\<close> is \<open>start + 1\<close>.\<close>

fun hard_cut :: "string \<Rightarrow> nat \<Rightarrow> nat \<Rightarrow> nat" where
  "hard_cut t lo b = (if b > lo \<and> is_continuation (t ! b) then hard_cut t lo (b - 1) else b)"

declare hard_cut.simps [simp del]

definition find_break :: "string \<Rightarrow> nat \<Rightarrow> nat \<Rightarrow> nat" where
  "find_break t start hi =
     (let lo = start + (hi - start) div 2 in
      case first_break kBreaks t start lo hi of
        Some b \<Rightarrow> b
      | None \<Rightarrow> hard_cut t (start + 1) hi)"

text \<open>The loops of \<open>trimmed\<close>: the first from the front, the second from the back.\<close>

function trim_front :: "string \<Rightarrow> nat \<Rightarrow> nat \<Rightarrow> nat" where
  "trim_front t b e = (if b < e \<and> is_space (t ! b) then trim_front t (b + 1) e else b)"
  by auto
termination by (relation "measure (\<lambda>(t, b, e). e - b)") auto

fun trim_back :: "string \<Rightarrow> nat \<Rightarrow> nat \<Rightarrow> nat" where
  "trim_back t b e = (if e > b \<and> is_space (t ! (e - 1)) then trim_back t b (e - 1) else e)"

declare trim_front.simps [simp del] trim_back.simps [simp del]

definition trimmed :: "string \<Rightarrow> nat \<Rightarrow> nat \<Rightarrow> view" where
  "trimmed t b e = (let b' = trim_front t b e in (b', trim_back t b' e - b'))"

definition push_trimmed :: "string \<Rightarrow> nat \<Rightarrow> nat \<Rightarrow> view list" where
  "push_trimmed t b e = (let c = trimmed t b e in if snd c = 0 then [] else [c])"

text \<open>The loop that moves \<open>back\<close> forward to the start of a word, and the position after a chunk.\<close>

function to_word :: "string \<Rightarrow> nat \<Rightarrow> nat \<Rightarrow> nat" where
  "to_word t back e = (if back < e \<and> \<not> is_space (t ! (back - 1)) then to_word t (back + 1) e else back)"
  by auto
termination by (relation "measure (\<lambda>(t, b, e). e - b)") auto

declare to_word.simps [simp del]

definition next_start :: "string \<Rightarrow> nat \<Rightarrow> nat \<Rightarrow> nat \<Rightarrow> nat" where
  "next_start t overlap pos e =
     (if overlap > 0 then
        let back = (if e > overlap then e - overlap else 0);
            back = (if back \<le> pos then pos + 1 else back)
        in to_word t back e
      else e)"

section \<open>Positions\<close>

lemma skip_space_step:
  "i < length t \<Longrightarrow> is_space (t ! i) \<Longrightarrow> skip_space t i = skip_space t (i + 1)"
  "\<not> (i < length t \<and> is_space (t ! i)) \<Longrightarrow> skip_space t i = i"
  by (auto simp: skip_space.simps [of t i])

lemma skip_space_ge: "i \<le> skip_space t i"
proof (induction t i rule: skip_space.induct)
  case (1 t i)
  then show ?case by (cases "i < length t \<and> is_space (t ! i)") (auto simp: skip_space_step)
qed

lemma skip_space_stop: "skip_space t i < length t \<Longrightarrow> \<not> is_space (t ! skip_space t i)"
proof (induction t i rule: skip_space.induct)
  case (1 t i)
  then show ?case by (cases "i < length t \<and> is_space (t ! i)") (auto simp: skip_space_step)
qed

lemma skip_space_skipped: "i \<le> k \<Longrightarrow> k < skip_space t i \<Longrightarrow> is_space (t ! k)"
proof (induction t i rule: skip_space.induct)
  case (1 t i)
  show ?case
  proof (cases "i < length t \<and> is_space (t ! i)")
    case True
    then show ?thesis using 1 by (cases "i = k") (auto simp: skip_space_step)
  qed (use 1 in \<open>simp add: skip_space_step\<close>)
qed

lemma last_break_Some: "last_break p lo b = Some c \<Longrightarrow> lo < c \<and> c \<le> b \<and> p c"
proof (induction p lo b rule: last_break.induct)
  case (1 p lo b)
  then show ?case
    by (subst (asm) last_break.simps) (force split: if_splits)
qed

lemma first_break_Some:
  "first_break bs t start lo hi = Some c \<Longrightarrow> lo < c \<and> c \<le> hi \<and> (\<exists>p\<in>set bs. p t start c)"
  by (induction bs t start lo hi rule: first_break.induct)
    (auto split: option.splits dest: last_break_Some)

lemma hard_cut_step:
  "b > lo \<Longrightarrow> is_continuation (t ! b) \<Longrightarrow> hard_cut t lo b = hard_cut t lo (b - 1)"
  "\<not> (b > lo \<and> is_continuation (t ! b)) \<Longrightarrow> hard_cut t lo b = b"
  by (auto simp: hard_cut.simps [of t lo b])

lemma hard_cut_bounds: "lo \<le> b \<Longrightarrow> lo \<le> hard_cut t lo b \<and> hard_cut t lo b \<le> b"
proof (induction t lo b rule: hard_cut.induct)
  case (1 t lo b)
  show ?case
  proof (cases "b > lo \<and> is_continuation (t ! b)")
    case True
    then have "lo \<le> b - 1" by linarith
    with True 1 have "lo \<le> hard_cut t lo (b - 1) \<and> hard_cut t lo (b - 1) \<le> b - 1" by blast
    with True show ?thesis unfolding hard_cut_step(1) [OF conjunct1 [OF True] conjunct2 [OF True]] by linarith
  qed (use 1 in \<open>simp add: hard_cut_step [of lo b t]\<close>)
qed

lemma hard_cut_lead:
  "lo \<le> m \<Longrightarrow> m \<le> b \<Longrightarrow> \<not> is_continuation (t ! m) \<Longrightarrow> \<not> is_continuation (t ! hard_cut t lo b)"
proof (induction t lo b rule: hard_cut.induct)
  case (1 t lo b)
  show ?case
  proof (cases "b > lo \<and> is_continuation (t ! b)")
    case True
    with 1 have "m \<noteq> b" by auto
    with True 1 show ?thesis by (simp add: hard_cut_step [of lo b t])
  next
    case False
    with 1 show ?thesis by (cases "m = b") (auto simp: hard_cut_step [of lo b t])
  qed
qed

lemma find_break_bounds:
  assumes "start < hi"
  shows "start < find_break t start hi \<and> find_break t start hi \<le> hi"
proof (cases "first_break kBreaks t start (start + (hi - start) div 2) hi")
  case None
  with assms hard_cut_bounds [of "start + 1" hi t] show ?thesis by (simp add: find_break_def)
next
  case (Some b)
  with first_break_Some [OF Some] show ?thesis by (simp add: find_break_def)
qed

lemma to_word_step:
  "b < e \<Longrightarrow> \<not> is_space (t ! (b - 1)) \<Longrightarrow> to_word t b e = to_word t (b + 1) e"
  "\<not> (b < e \<and> \<not> is_space (t ! (b - 1))) \<Longrightarrow> to_word t b e = b"
  by (auto simp: to_word.simps [of t b e])

lemma to_word_bounds: "b \<le> e \<Longrightarrow> b \<le> to_word t b e \<and> to_word t b e \<le> e"
proof (induction t b e rule: to_word.induct)
  case (1 t b e)
  then show ?case
    by (cases "b < e \<and> \<not> is_space (t ! (b - 1))") (auto simp: to_word_step [of b e t])
qed

lemma next_start_bounds:
  assumes "pos < e"
  shows "pos < next_start t overlap pos e" "next_start t overlap pos e \<le> e"
    "e \<le> next_start t overlap pos e + overlap"
proof -
  let ?b = "if (if e > overlap then e - overlap else 0) \<le> pos then pos + 1
    else if e > overlap then e - overlap else 0"
  have "pos < ?b" "?b \<le> e" "e \<le> ?b + overlap \<or> overlap = 0" using assms by auto
  moreover have "?b \<le> to_word t ?b e \<and> to_word t ?b e \<le> e"
    using to_word_bounds [of ?b e t] \<open>?b \<le> e\<close> by simp
  ultimately show "pos < next_start t overlap pos e" "next_start t overlap pos e \<le> e"
    "e \<le> next_start t overlap pos e + overlap"
    using assms unfolding next_start_def Let_def by (auto simp del: if_split) 
qed

section \<open>The loop over the document\<close>

function chunk_loop :: "string \<Rightarrow> nat \<Rightarrow> nat \<Rightarrow> nat \<Rightarrow> view list" where
  "chunk_loop t limit overlap pos =
     (if limit = 0 \<or> length t \<le> pos then []
      else if length t - pos \<le> limit then push_trimmed t pos (length t)
      else
        let e = find_break t pos (pos + limit)
        in push_trimmed t pos e @ chunk_loop t limit overlap (skip_space t (next_start t overlap pos e)))"
  by auto
termination
proof (relation "measure (\<lambda>(t, limit, overlap, pos). length t - pos)")
  fix t :: string and limit overlap pos e
  assume *: "\<not> (limit = 0 \<or> length t \<le> pos)" "\<not> length t - pos \<le> limit" "e = find_break t pos (pos + limit)"
  then have "pos < e" using find_break_bounds [of pos "pos + limit" t] by simp
  then have "pos < skip_space t (next_start t overlap pos e)"
    using next_start_bounds(1) [of pos e t overlap] skip_space_ge [of "next_start t overlap pos e" t] by simp
  with * show "((t, limit, overlap, skip_space t (next_start t overlap pos e)), (t, limit, overlap, pos))
    \<in> measure (\<lambda>(t, limit, overlap, pos). length t - pos)" by auto
qed simp

declare chunk_loop.simps [simp del]

definition chunk_text :: "string \<Rightarrow> chunk_options \<Rightarrow> view list result" where
  "chunk_text t options =
     (if co_size options = 0 then fail InvalidConfig ''chunk_text: size must be > 0.''
      else if co_overlap options \<ge> co_size options then
        fail InvalidConfig ''chunk_text: overlap must be smaller than size.''
      else ok (chunk_loop t (co_size options) (co_overlap options) (skip_space t 0)))"

section \<open>What a chunk is\<close>

lemma trim_back_step:
  "e > b \<Longrightarrow> is_space (t ! (e - 1)) \<Longrightarrow> trim_back t b e = trim_back t b (e - 1)"
  "\<not> (e > b \<and> is_space (t ! (e - 1))) \<Longrightarrow> trim_back t b e = e"
  by (auto simp: trim_back.simps [of t b e])

lemma trim_back_spec:
  "b < e \<Longrightarrow> \<not> is_space (t ! b) \<Longrightarrow>
   b < trim_back t b e \<and> trim_back t b e \<le> e \<and> \<not> is_space (t ! (trim_back t b e - 1)) \<and>
   (\<forall>k. trim_back t b e \<le> k \<and> k < e \<longrightarrow> is_space (t ! k))"
proof (induction t b e rule: trim_back.induct)
  case (1 t b e)
  show ?case
  proof (cases "e > b \<and> is_space (t ! (e - 1))")
    case True
    then have "e - 1 \<noteq> b" using 1 by auto
    with True have "b < e - 1" by linarith
    with True 1 have *: "b < trim_back t b (e - 1) \<and> trim_back t b (e - 1) \<le> e - 1 \<and>
        \<not> is_space (t ! (trim_back t b (e - 1) - 1)) \<and>
        (\<forall>k. trim_back t b (e - 1) \<le> k \<and> k < e - 1 \<longrightarrow> is_space (t ! k))" by blast
    have "is_space (t ! k)" if k: "trim_back t b (e - 1) \<le> k" "k < e" for k
    proof (cases "k = e - 1")
      case False
      with k have "k < e - 1" by linarith
      with k * show ?thesis by blast
    qed (use True in simp)
    moreover have "trim_back t b (e - 1) \<le> e" using * by linarith
    ultimately show ?thesis
      using * unfolding trim_back_step(1) [OF conjunct1 [OF True] conjunct2 [OF True]] by blast
  qed (use 1 in \<open>auto simp: trim_back_step [of b e t]\<close>)
qed

text \<open>
  The chunk cut from a window that starts with a character: it starts with the window, ends with a
  character, and leaves out only white space at the end.
\<close>

definition cut_from :: "string \<Rightarrow> nat \<Rightarrow> nat \<Rightarrow> nat \<Rightarrow> bool" where
  "cut_from t pos e m \<longleftrightarrow>
     pos < m \<and> m \<le> e \<and> \<not> is_space (t ! (m - 1)) \<and> (\<forall>k. m \<le> k \<and> k < e \<longrightarrow> is_space (t ! k))"

lemma push_trimmed_cut:
  assumes "pos < e" "\<not> is_space (t ! pos)"
  obtains m where "push_trimmed t pos e = [(pos, m - pos)]" "cut_from t pos e m"
proof
  have "trim_front t pos e = pos" using assms by (simp add: trim_front.simps [of t pos e])
  moreover have "pos < trim_back t pos e" using trim_back_spec [OF assms] by blast
  ultimately show "push_trimmed t pos e = [(pos, trim_back t pos e - pos)]"
    by (simp add: push_trimmed_def trimmed_def)
  show "cut_from t pos e (trim_back t pos e)"
    using trim_back_spec [OF assms] unfolding cut_from_def by blast
qed

text \<open>
  The loop on a window that starts with a character: either the last chunk, or a chunk and the loop at a
  later position, at most \<open>overlap\<close> bytes before the end of the window.
\<close>

lemma chunk_loop_unfold:
  assumes "0 < limit" "pos < length t" "\<not> is_space (t ! pos)"
  obtains (last) m where "chunk_loop t limit overlap pos = [(pos, m - pos)]" "cut_from t pos (length t) m"
      "length t - pos \<le> limit"
  | (more) m e q where "chunk_loop t limit overlap pos = (pos, m - pos) # chunk_loop t limit overlap (skip_space t q)"
      "cut_from t pos e m" "e = find_break t pos (pos + limit)" "pos < e" "e \<le> pos + limit" "pos + limit < length t"
      "q = next_start t overlap pos e" "pos < q" "q \<le> e" "e \<le> q + overlap"
proof (cases "length t - pos \<le> limit")
  case True
  obtain m where "push_trimmed t pos (length t) = [(pos, m - pos)]" "cut_from t pos (length t) m"
    using push_trimmed_cut assms by blast
  with True assms show ?thesis by (intro last) (simp_all add: chunk_loop.simps [of t limit overlap pos])
next
  case False
  let ?e = "find_break t pos (pos + limit)"
  have e: "pos < ?e" "?e \<le> pos + limit" using find_break_bounds [of pos "pos + limit" t] assms(1) by simp_all
  obtain m where "push_trimmed t pos ?e = [(pos, m - pos)]" "cut_from t pos ?e m"
    using push_trimmed_cut e(1) assms(3) by blast
  with False assms e next_start_bounds [OF e(1), of t overlap] show ?thesis
    by (intro more [of m "next_start t overlap pos ?e" ?e])
      (simp_all add: chunk_loop.simps [of t limit overlap pos])
qed

text \<open>
  The positions at which the loop arrives: the end of the document or a character. Induction over them.
\<close>

lemma chunk_loop_induct [consumes 1, case_names finished last more]:
  assumes "0 < limit"
    and "\<And>pos. length t \<le> pos \<Longrightarrow> P pos []"
    and "\<And>pos m. \<lbrakk>pos < length t; \<not> is_space (t ! pos); cut_from t pos (length t) m; length t - pos \<le> limit\<rbrakk>
      \<Longrightarrow> P pos [(pos, m - pos)]"
    and "\<And>pos m e q cs. \<lbrakk>pos + limit < length t; \<not> is_space (t ! pos); cut_from t pos e m;
      e = find_break t pos (pos + limit); pos < e; e \<le> pos + limit; q = next_start t overlap pos e; pos < q; q \<le> e;
      e \<le> q + overlap; P (skip_space t q) cs\<rbrakk> \<Longrightarrow> P pos ((pos, m - pos) # cs)"
  shows "P (skip_space t i) (chunk_loop t limit overlap (skip_space t i))"
proof (induction "length t - skip_space t i" arbitrary: i rule: less_induct)
  case less
  let ?pos = "skip_space t i"
  show ?case
  proof (cases "?pos < length t")
    case False
    with assms(2) show ?thesis by (simp add: chunk_loop.simps [of t limit overlap ?pos])
  next
    case True
    note stop = skip_space_stop [OF True]
    from assms(1) True stop show ?thesis
    proof (cases rule: chunk_loop_unfold [where overlap = overlap])
      case (last m)
      with assms(3) True stop show ?thesis by simp
    next
      case (more m e q)
      have "q \<le> skip_space t q" by (rule skip_space_ge)
      with more True have "P (skip_space t q) (chunk_loop t limit overlap (skip_space t q))"
        by (intro less.hyps) linarith
      with assms(4) more stop show ?thesis by simp
    qed
  qed
qed

section \<open>Bounds and coverage\<close>

definition chunk_ok :: "string \<Rightarrow> nat \<Rightarrow> view \<Rightarrow> bool" where
  "chunk_ok t limit v \<longleftrightarrow>
     0 < snd v \<and> snd v \<le> limit \<and> fst v + snd v \<le> length t \<and>
     \<not> is_space (t ! fst v) \<and> \<not> is_space (t ! (fst v + snd v - 1))"

definition follows :: "nat \<Rightarrow> view \<Rightarrow> view \<Rightarrow> bool" where
  "follows overlap v w \<longleftrightarrow> fst v < fst w \<and> fst v + snd v \<le> fst w + overlap"

definition covers :: "string \<Rightarrow> nat \<Rightarrow> view list \<Rightarrow> bool" where
  "covers t pos cs \<longleftrightarrow>
     (\<forall>k. pos \<le> k \<and> k < length t \<and> \<not> is_space (t ! k) \<longrightarrow> (\<exists>v\<in>set cs. fst v \<le> k \<and> k < fst v + snd v))"

lemma cut_from_covered:
  "cut_from t pos e m \<Longrightarrow> pos \<le> k \<Longrightarrow> k < e \<Longrightarrow> \<not> is_space (t ! k) \<Longrightarrow> pos \<le> k \<and> k < pos + (m - pos)"
  unfolding cut_from_def by (metis le_add_diff_inverse less_imp_le not_le)

lemma cut_from_ok:
  assumes "cut_from t pos e m" "e \<le> length t" "e \<le> pos + limit" "\<not> is_space (t ! pos)"
  shows "chunk_ok t limit (pos, m - pos)"
  using assms by (auto simp: cut_from_def chunk_ok_def)

lemma covers_cut:
  assumes "cut_from t pos e m" "q \<le> e" "covers t (skip_space t q) cs"
  shows "covers t pos ((pos, m - pos) # cs)"
  unfolding covers_def
proof (intro allI impI)
  fix k assume k: "pos \<le> k \<and> k < length t \<and> \<not> is_space (t ! k)"
  show "\<exists>v\<in>set ((pos, m - pos) # cs). fst v \<le> k \<and> k < fst v + snd v"
  proof (cases "k < e")
    case True
    with cut_from_covered [OF assms(1)] k show ?thesis by simp
  next
    case False
    then have "skip_space t q \<le> k" using skip_space_skipped [of q k t] k assms(2) by (meson le_trans not_le)
    with k assms(3) show ?thesis unfolding covers_def by force
  qed
qed

definition chunks_from :: "string \<Rightarrow> nat \<Rightarrow> nat \<Rightarrow> nat \<Rightarrow> view list \<Rightarrow> bool" where
  "chunks_from t limit overlap pos cs \<longleftrightarrow>
     list_all (chunk_ok t limit) cs \<and> (\<forall>v\<in>set cs. pos \<le> fst v) \<and> successively (follows overlap) cs \<and> covers t pos cs"

lemma chunk_loop_chunks:
  "0 < limit \<Longrightarrow> chunks_from t limit overlap (skip_space t i) (chunk_loop t limit overlap (skip_space t i))"
proof (induction rule: chunk_loop_induct)
  case (finished pos)
  then show ?case by (auto simp: chunks_from_def covers_def)
next
  case (last pos m)
  have "covers t pos [(pos, m - pos)]"
    using cut_from_covered [OF last(3)] unfolding covers_def by simp
  with cut_from_ok [OF last(3), of limit] last show ?case by (auto simp: chunks_from_def)
next
  case (more pos m e q cs)
  have "chunk_ok t limit (pos, m - pos)" using cut_from_ok [OF more(3)] more by simp
  moreover have ge: "q \<le> fst v" if "v \<in> set cs" for v
    using more that skip_space_ge [of q t] unfolding chunks_from_def by (meson le_trans)
  then have "\<forall>v\<in>set cs. pos \<le> fst v" using more(8) by force
  moreover have "follows overlap (pos, m - pos) (hd cs)" if "cs \<noteq> []"
  proof -
    have "q \<le> fst (hd cs)" "pos + (m - pos) \<le> e" using ge that more(3) by (auto simp: cut_from_def)
    with more(8,10) show ?thesis unfolding follows_def fst_conv snd_conv by linarith
  qed
  moreover have "covers t pos ((pos, m - pos) # cs)" using covers_cut more unfolding chunks_from_def by blast
  ultimately show ?case using more(11) unfolding chunks_from_def by (auto simp: successively_Cons)
qed

text \<open>
  C26. \<open>chunk_text\<close> with \<open>overlap < size\<close> returns, for every document: each chunk is a non-empty piece of the
  document of at most \<open>size\<close> bytes without white space at its ends; each starts after the start of the one
  before it and shares at most \<open>overlap\<close> bytes with it; and every byte that is not white space is in a chunk.
\<close>

theorem chunk_text_covers:
  assumes "co_overlap options < co_size options"
  shows "\<exists>cs. chunk_text t options = Inr cs \<and> list_all (chunk_ok t (co_size options)) cs \<and>
    successively (follows (co_overlap options)) cs \<and> covers t 0 cs"
proof -
  let ?cs = "chunk_loop t (co_size options) (co_overlap options) (skip_space t 0)"
  from assms chunk_loop_chunks [of "co_size options" t "co_overlap options" 0]
  have cs: "list_all (chunk_ok t (co_size options)) ?cs" "successively (follows (co_overlap options)) ?cs"
    "covers t (skip_space t 0) ?cs" by (auto simp: chunks_from_def)
  have "skip_space t 0 \<le> k" if "\<not> is_space (t ! k)" for k
    using that skip_space_skipped [of 0 k t] by (meson le0 not_le)
  with cs(3) have "covers t 0 ?cs" unfolding covers_def by blast
  with cs assms show ?thesis by (simp add: chunk_text_def)
qed

theorem chunk_text_covers_witness:
  "chunk_text ''One two. Three four five'' \<lparr>co_size = 10, co_overlap = 5\<rparr> = Inr [(0, 8), (4, 10), (9, 10), (15, 9)] \<and>
   successively (follows 5) [(0, 8), (4, 10), (9, 10), (15, 9)] \<and>
   covers ''One two. Three four five'' 0 [(0, 8), (4, 10), (9, 10), (15, 9)]"
proof -
  let ?o = "\<lparr>co_size = 10, co_overlap = 5\<rparr>" and ?t = "''One two. Three four five''"
  have "chunk_text ?t ?o = Inr [(0, 8), (4, 10), (9, 10), (15, 9)]" by code_simp
  moreover have "co_overlap ?o < co_size ?o" by simp
  note chunk_text_covers [OF this, of ?t]
  ultimately show ?thesis by auto
qed

section \<open>UTF-8 text stays UTF-8 text\<close>

lemma space_ascii: "is_space c \<Longrightarrow> (of_char c :: nat) < 128"
  by (auto simp: is_space_def)

lemma space_not_continuation: "is_space c \<Longrightarrow> \<not> is_continuation c"
  using space_ascii [of c] by (auto simp: is_continuation_def)

lemma boundary_iff:
  assumes "utf8_text t" "b < length t"
  shows "utf8_text (take b t) \<longleftrightarrow> \<not> is_continuation (t ! b)"
proof
  assume "utf8_text (take b t)"
  then have "utf8_text (drop b t)" using utf8_text_cancel [of "take b t" "drop b t"] assms by simp
  with assms show "\<not> is_continuation (t ! b)" using utf8_text_start [of "drop b t"] by simp
next
  assume lead: "\<not> is_continuation (t ! b)"
  obtain p cp q where t: "t = p @ encode_scalar cp @ q" "utf8_text p" "scalar cp"
    "length p \<le> b" "b < length p + length (encode_scalar cp)"
    using utf8_text_around [OF assms] by blast
  then have less: "b - length p < length (encode_scalar cp)" by linarith
  with t have "t ! b = encode_scalar cp ! (b - length p)" by (simp add: nth_append)
  with lead t less encode_scalar_continuation [of cp "b - length p"] have "b = length p" by simp
  with t show "utf8_text (take b t)" by simp
qed

lemma boundary_after_ascii:
  assumes "utf8_text t" "b < length t" "(of_char (t ! b) :: nat) < 128"
  shows "utf8_text (take (b + 1) t)"
proof -
  have "\<not> is_continuation (t ! b)" using assms(3) by (auto simp: is_continuation_def)
  then have b: "utf8_text (take b t)" using boundary_iff assms by blast
  have "utf8_text [t ! b]" using utf8_text_scalar [of "of_char (t ! b)"] encode_1 [of "of_char (t ! b)"] assms(3) by simp
  with b assms(2) show ?thesis using utf8_text_append by (simp add: take_Suc_conv_app_nth)
qed

lemma boundary_after_space:
  assumes "utf8_text t" "0 < b" "b \<le> length t" "is_space (t ! (b - 1))"
  shows "utf8_text (take b t)"
proof -
  have "b - 1 < length t" "b = b - 1 + 1" using assms(2,3) by linarith+
  with boundary_after_ascii [of t "b - 1"] space_ascii assms(1,4) show ?thesis by metis
qed

lemma boundary_between:
  assumes "utf8_text (take b t)" "utf8_text (take e t)" "b \<le> e"
  shows "utf8_text (take (e - b) (drop b t))"
  using utf8_text_cancel [of "take b t" "take (e - b) (drop b t)"] assms
  by (metis le_add_diff_inverse take_add)

lemma break_at_boundary:
  assumes "utf8_text t" "0 < b" "b < length t" "p \<in> set kBreaks" "p t start b"
  shows "utf8_text (take b t)"
proof -
  have "is_space (t ! (b - 1)) \<or> is_space (t ! b)"
    using assms(4,5) by (auto simp: kBreaks_def paragraph_break_def line_break_def sentence_break_def word_break_def
        is_space_def split: if_splits)
  then show ?thesis
    using boundary_after_space [of t b] boundary_iff [of t b] space_not_continuation [of "t ! b"] assms(1-3) by auto
qed

lemma find_break_boundary:
  assumes "utf8_text t" "start + 4 \<le> hi" "hi < length t"
  shows "utf8_text (take (find_break t start hi) t)"
proof (cases "first_break kBreaks t start (start + (hi - start) div 2) hi")
  case (Some b)
  with first_break_Some [OF Some] assms show ?thesis
    using break_at_boundary [OF assms(1), of b] by (auto simp: find_break_def)
next
  case None
  obtain p cp q where t: "t = p @ encode_scalar cp @ q" "utf8_text p" "scalar cp"
    "length p \<le> hi" "hi < length p + length (encode_scalar cp)"
    using utf8_text_around [OF assms(1,3)] by blast
  have "utf8_text (take (length p) t)" using t by simp
  with t assms have "\<not> is_continuation (t ! length p)" using boundary_iff [OF assms(1), of "length p"] by simp
  moreover have "start + 1 \<le> length p" using t(5) encode_scalar_length(2) [of cp] assms(2) by linarith
  ultimately have "\<not> is_continuation (t ! hard_cut t (start + 1) hi)" using hard_cut_lead t(4) by blast
  moreover have "hard_cut t (start + 1) hi < length t"
    using hard_cut_bounds [of "start + 1" hi t] assms by simp
  ultimately show ?thesis using None boundary_iff assms(1) by (simp add: find_break_def)
qed

lemma to_word_stop: "b \<le> e \<Longrightarrow> to_word t b e = e \<or> is_space (t ! (to_word t b e - 1))"
proof (induction t b e rule: to_word.induct)
  case (1 t b e)
  then show ?case
    by (cases "b < e \<and> \<not> is_space (t ! (b - 1))") (auto simp: to_word_step [of b e t])
qed

lemma next_start_stop: "pos < e \<Longrightarrow> next_start t overlap pos e = e \<or> is_space (t ! (next_start t overlap pos e - 1))"
  using to_word_stop [of "Suc pos" e t] to_word_stop [of "e - overlap" e t] unfolding next_start_def Let_def by auto

lemma boundary_next:
  assumes "utf8_text t" "utf8_text (take e t)" "e < length t" "pos < e" "q = next_start t overlap pos e" "skip_space t q < length t"
  shows "utf8_text (take (skip_space t q) t)"
proof (cases "skip_space t q = e")
  case False
  have "pos < q" "q \<le> skip_space t q" "q = e \<or> is_space (t ! (q - 1))"
    using next_start_bounds(1) [OF assms(4)] skip_space_ge next_start_stop [OF assms(4)] assms(5) by auto
  then have "is_space (t ! (skip_space t q - 1))"
    using skip_space_skipped [of q "skip_space t q - 1" t] False by (cases "skip_space t q = q") auto
  then show ?thesis
    using boundary_after_space assms(1,6) \<open>pos < q\<close> \<open>q \<le> skip_space t q\<close> by simp
qed (use assms in simp)

lemma boundary_cut:
  assumes "utf8_text t" "utf8_text (take e t)" "e \<le> length t" "cut_from t pos e m"
  shows "utf8_text (take m t)"
proof (cases "m = e")
  case False
  with assms(3,4) have "is_space (t ! m)" "m < length t" by (auto simp: cut_from_def)
  with assms(1) show ?thesis using boundary_iff space_not_continuation by blast
qed (use assms in simp)

lemma chunk_loop_text:
  assumes "utf8_text t" "4 \<le> limit"
  shows "(skip_space t i < length t \<longrightarrow> utf8_text (take (skip_space t i) t)) \<longrightarrow>
    (\<forall>v\<in>set (chunk_loop t limit overlap (skip_space t i)). utf8_text (view_text t v))"
proof -
  have "0 < limit" using assms(2) by simp
  then show ?thesis
  proof (induction rule: chunk_loop_induct [where P = "\<lambda>pos cs. (pos < length t \<longrightarrow> utf8_text (take pos t)) \<longrightarrow>
      (\<forall>v\<in>set cs. utf8_text (view_text t v))"])
    case (last pos m)
    with assms(1) boundary_cut [OF assms(1) _ _ last(3)] show ?case
      using boundary_between [of pos t m] by (auto simp: view_text_def cut_from_def)
  next
    case (more pos m e q cs)
    have e: "utf8_text (take e t)" "e < length t" using find_break_boundary [OF assms(1)] assms(2) more by auto
    then have m: "utf8_text (take m t)" using boundary_cut [OF assms(1) _ _ more(3)] by simp
    have "\<forall>v\<in>set cs. utf8_text (view_text t v)"
      using boundary_next [OF assms(1) e, of pos q overlap] more by blast
    moreover have "pos < length t" "pos \<le> m" using more by (simp_all add: cut_from_def)
    ultimately show ?case using boundary_between [of pos t m] m by (simp add: view_text_def)
  qed (use assms in auto)
qed

text \<open>
  C35. Chunks of UTF-8 text are UTF-8 text, when \<open>size\<close> has room for a character (four bytes): no chunk starts
  or ends inside a sequence.
\<close>

theorem chunk_text_keeps_utf8:
  assumes "utf8_text t" "4 \<le> co_size options" "chunk_text t options = Inr cs" "v \<in> set cs"
  shows "utf8_text (view_text t v)"
proof -
  have "utf8_text (take (skip_space t 0) t)" if "skip_space t 0 < length t"
  proof (cases "skip_space t 0 = 0")
    case False
    with that skip_space_skipped [of 0 "skip_space t 0 - 1" t] show ?thesis
      using boundary_after_space [OF assms(1)] by simp
  qed (simp add: utf8_text.empty)
  with chunk_loop_text [OF assms(1,2), of 0 "co_overlap options"] assms(3,4) show ?thesis
    by (auto simp: chunk_text_def split: if_splits)
qed

theorem chunk_text_keeps_utf8_witness:
  "chunk_text [CHR ''a'', CHR 0xC3, CHR 0xA9, CHR 0xC3, CHR 0xA9, CHR 0xC3, CHR 0xA9] \<lparr>co_size = 4, co_overlap = 0\<rparr> =
     Inr [(0, 3), (3, 4)] \<and>
   utf8_text (view_text [CHR ''a'', CHR 0xC3, CHR 0xA9, CHR 0xC3, CHR 0xA9, CHR 0xC3, CHR 0xA9] (3, 4))"
proof -
  let ?t = "[CHR ''a'', CHR 0xC3, CHR 0xA9, CHR 0xC3, CHR 0xA9, CHR 0xC3, CHR 0xA9]"
  have t: "?t = encode_scalar 0x61 @ encode_scalar 0xE9 @ encode_scalar 0xE9 @ encode_scalar 0xE9" by code_simp
  have utf8: "utf8_text ?t"
    unfolding t by (intro utf8_text_append utf8_text_scalar) (simp_all add: scalar_def)
  have chunks: "chunk_text ?t \<lparr>co_size = 4, co_overlap = 0\<rparr> = Inr [(0, 3), (3, 4)]" by code_simp
  have "utf8_text (view_text ?t (3, 4))" by (rule chunk_text_keeps_utf8 [OF utf8 _ chunks]) simp_all
  with chunks show ?thesis by blast
qed

text \<open>
  With less room the loop of \<open>find_break\<close> stops at \<open>start + 1\<close> and a character is cut in two, where the
  declaration of \<open>chunk_text\<close> says that this never happens.
\<close>

lemma chunk_text_small_size_splits:
  "chunk_text (encode_scalar 0xE9) \<lparr>co_size = 1, co_overlap = 0\<rparr> = Inr [(0, 1), (1, 1)]"
  by code_simp

end
