(* ===== verification/Float_Arith.thy ===== *)
theory Float_Arith
  imports Agent_Prelude Complex_Main
begin

text \<open>
  The floating-point arithmetic the sources use: \<open>float\<close> and \<open>double\<close> of IEEE 754 with rounding to nearest,
  ties to even, each operation rounded by itself (no contraction to fused operations). A value is not a
  number, an infinity, or a sign with a magnitude \<open>m * 2 ^ e\<close>, \<open>0 \<le> m\<close>; \<open>Fin True 0 e\<close> is negative zero. Also
  \<open>std::sort\<close> with a comparator, as an insertion sort: where the comparator is a strict weak order, every
  stable sort gives this result.
\<close>

section \<open>Values and formats\<close>

datatype fp = NaN | Inf bool | Fin bool int int

text \<open>Digits of the significand, least exponent of its last digit, and the exponent at which overflow begins.\<close>

record fp_format =
  fmt_digits :: int
  fmt_least :: int
  fmt_top :: int

definition binary32 :: fp_format where
  "binary32 = \<lparr>fmt_digits = 24, fmt_least = -149, fmt_top = 128\<rparr>"

definition binary64 :: fp_format where
  "binary64 = \<lparr>fmt_digits = 53, fmt_least = -1074, fmt_top = 1024\<rparr>"

function bit_length :: "int \<Rightarrow> int" where
  "bit_length n = (if n \<le> 0 then 0 else 1 + bit_length (n div 2))"
  by auto
termination by (relation "measure nat") auto

declare bit_length.simps [simp del]

text \<open>
  Rounding \<open>m * 2 ^ e\<close>, to which \<open>inexact\<close> adds a positive amount below \<open>2 ^ e\<close>: drop \<open>k\<close> digits, round the
  quotient by \<open>d = 2 ^ k\<close> to nearest, and test for overflow.
\<close>

definition round_quotient :: "int \<Rightarrow> int \<Rightarrow> int \<Rightarrow> bool \<Rightarrow> int" where
  "round_quotient q r d inexact = (if 2 * r > d \<or> 2 * r = d \<and> (inexact \<or> odd q) then q + 1 else q)"

definition make_fp :: "fp_format \<Rightarrow> bool \<Rightarrow> int \<Rightarrow> int \<Rightarrow> fp" where
  "make_fp f s q e = (if bit_length q + e > fmt_top f then Inf s else Fin s q e)"

definition drop_digits :: "fp_format \<Rightarrow> bool \<Rightarrow> int \<Rightarrow> int \<Rightarrow> bool \<Rightarrow> int \<Rightarrow> int \<Rightarrow> fp" where
  "drop_digits f s m e inexact k d = make_fp f s (round_quotient (m div d) (m mod d) d inexact) (e + k)"

definition dropped :: "fp_format \<Rightarrow> int \<Rightarrow> int \<Rightarrow> int" where
  "dropped f m e = max 0 (max (bit_length m - fmt_digits f) (fmt_least f - e))"

definition round_fp :: "fp_format \<Rightarrow> bool \<Rightarrow> int \<Rightarrow> int \<Rightarrow> bool \<Rightarrow> fp" where
  "round_fp f s m e inexact = drop_digits f s m e inexact (dropped f m e) (2 ^ nat (dropped f m e))"

section \<open>Operations\<close>

definition is_finite :: "fp \<Rightarrow> bool" where
  "is_finite x \<longleftrightarrow> (case x of Fin _ _ _ \<Rightarrow> True | _ \<Rightarrow> False)"

text \<open>A finite value as an integer multiple of \<open>2 ^ e\<close>, for \<open>e\<close> up to its exponent.\<close>

definition aligned :: "bool \<Rightarrow> int \<Rightarrow> int \<Rightarrow> int \<Rightarrow> int" where
  "aligned s m e' e = (if s then - 1 else 1) * m * 2 ^ nat (e' - e)"

fun fp_mul :: "fp_format \<Rightarrow> fp \<Rightarrow> fp \<Rightarrow> fp" where
  "fp_mul f (Fin s m e) (Fin s' m' e') = round_fp f (s \<noteq> s') (m * m') (e + e') False"
| "fp_mul f (Inf s) (Inf s') = Inf (s \<noteq> s')"
| "fp_mul f (Inf s) (Fin s' m e) = (if m = 0 then NaN else Inf (s \<noteq> s'))"
| "fp_mul f (Fin s m e) (Inf s') = (if m = 0 then NaN else Inf (s \<noteq> s'))"
| "fp_mul f _ _ = NaN"

text \<open>The rounded sum \<open>v * 2 ^ d\<close>; \<open>s\<close> is the sign of a sum that is zero.\<close>

definition round_sum :: "fp_format \<Rightarrow> bool \<Rightarrow> int \<Rightarrow> int \<Rightarrow> fp" where
  "round_sum f s v d = (if v = 0 then Fin s 0 d else round_fp f (v < 0) \<bar>v\<bar> d False)"

fun fp_add :: "fp_format \<Rightarrow> fp \<Rightarrow> fp \<Rightarrow> fp" where
  "fp_add f (Fin s m e) (Fin s' m' e') =
     round_sum f (s \<and> s') (aligned s m e (min e e') + aligned s' m' e' (min e e')) (min e e')"
| "fp_add f (Inf s) (Inf s') = (if s = s' then Inf s else NaN)"
| "fp_add f (Inf s) (Fin _ _ _) = Inf s"
| "fp_add f (Fin _ _ _) (Inf s) = Inf s"
| "fp_add f _ _ = NaN"

fun fp_greater :: "fp \<Rightarrow> fp \<Rightarrow> bool" where
  "fp_greater (Fin s m e) (Fin s' m' e') = (aligned s m e (min e e') > aligned s' m' e' (min e e'))"
| "fp_greater (Inf s) (Inf s') = (\<not> s \<and> s')"
| "fp_greater (Inf s) (Fin _ _ _) = (\<not> s)"
| "fp_greater (Fin _ _ _) (Inf s) = s"
| "fp_greater _ _ = False"

text \<open>\<open>==\<close>, true for the two zeros.\<close>

definition fp_equal :: "fp \<Rightarrow> fp \<Rightarrow> bool" where
  "fp_equal x y \<longleftrightarrow> x \<noteq> NaN \<and> y \<noteq> NaN \<and> \<not> fp_greater x y \<and> \<not> fp_greater y x"

definition fp_zero :: fp where
  "fp_zero = Fin False 0 0"

definition fp_one :: fp where
  "fp_one = Fin False 1 0"

text \<open>Conversion to another format, exact to a wider one.\<close>

fun fp_cast :: "fp_format \<Rightarrow> fp \<Rightarrow> fp" where
  "fp_cast f (Fin s m e) = round_fp f s m e False"
| "fp_cast f x = x"

text \<open>
  \<open>1.0 / x\<close> and \<open>std::sqrt(x)\<close> in double precision, for values that are not negative: enough digits of the
  result, and whether a rest is left.
\<close>

definition div_digits :: "fp_format \<Rightarrow> int \<Rightarrow> int \<Rightarrow> int \<Rightarrow> fp" where
  "div_digits f n m e = round_fp f False (n div m) e (n mod m \<noteq> 0)"

fun fp_inverse :: "fp \<Rightarrow> fp" where
  "fp_inverse (Fin s m e) =
     (if m = 0 then Inf s
      else div_digits binary64 (2 ^ nat (55 + bit_length m)) m (- e - 55 - bit_length m))"
| "fp_inverse (Inf s) = Fin s 0 0"
| "fp_inverse NaN = NaN"

definition isqrt_digit :: "int \<Rightarrow> int \<Rightarrow> int" where
  "isqrt_digit n r = (if (r + 1) * (r + 1) \<le> n then r + 1 else r)"

function isqrt :: "int \<Rightarrow> int" where
  "isqrt n = (if n \<le> 0 then 0 else isqrt_digit n (2 * isqrt (n div 4)))"
  by auto
termination by (relation "measure nat") auto

declare isqrt.simps [simp del]

definition sqrt_digits :: "fp_format \<Rightarrow> int \<Rightarrow> int \<Rightarrow> int \<Rightarrow> fp" where
  "sqrt_digits f n r e = round_fp f False r e (r * r \<noteq> n)"

definition sqrt_scaled :: "fp_format \<Rightarrow> int \<Rightarrow> int \<Rightarrow> fp" where
  "sqrt_scaled f n e = sqrt_digits f n (isqrt n) (e div 2)"

fun fp_sqrt :: "fp \<Rightarrow> fp" where
  "fp_sqrt (Fin s m e) =
     (if even e then sqrt_scaled binary64 (m * 2 ^ 110) (e - 110) else sqrt_scaled binary64 (m * 2 ^ 111) (e - 111))"
| "fp_sqrt x = x"

text \<open>The bytes of a \<open>float\<close>, in the little-endian order of the targets.\<close>

definition float_of_bits :: "int \<Rightarrow> fp" where
  "float_of_bits n =
     (let s = n \<ge> 2 ^ 31;
          ex = n div 2 ^ 23 mod 256;
          fr = n mod 2 ^ 23
      in if ex = 255 then (if fr = 0 then Inf s else NaN)
         else if ex = 0 then Fin s fr (-149)
         else Fin s (2 ^ 23 + fr) (ex - 150))"

fun as_floats :: "u8 list \<Rightarrow> fp list" where
  "as_floats (a # b # c # d # bs) =
     float_of_bits (uint a + 256 * uint b + 65536 * uint c + 16777216 * uint d) # as_floats bs"
| "as_floats _ = []"

section \<open>Order\<close>

definition fp_value :: "bool \<Rightarrow> int \<Rightarrow> int \<Rightarrow> real" where
  "fp_value s m e = (if s then - 1 else 1) * real_of_int m * 2 powi e"

lemma aligned_value:
  assumes "d \<le> e"
  shows "real_of_int (aligned s m e d) * 2 powi d = fp_value s m e"
proof -
  have "(2::real) ^ nat (e - d) * 2 powi d = 2 powi (e - d) * 2 powi d"
    using assms by (simp add: power_int_def)
  also have "\<dots> = 2 powi e" by (simp flip: power_int_add)
  finally show ?thesis by (simp add: aligned_def fp_value_def)
qed

lemma fp_greater_value: "fp_greater (Fin s m e) (Fin s' m' e') \<longleftrightarrow> fp_value s m e > fp_value s' m' e'"
proof -
  let ?d = "min e e'"
  have pos: "(0::real) < 2 powi ?d" by simp
  have "fp_value s m e > fp_value s' m' e' \<longleftrightarrow>
    real_of_int (aligned s m e ?d) * 2 powi ?d > real_of_int (aligned s' m' e' ?d) * 2 powi ?d"
    by (simp add: aligned_value)
  also have "\<dots> \<longleftrightarrow> aligned s m e ?d > aligned s' m' e' ?d" by (simp only: mult_less_cancel_right_pos [OF pos] of_int_less_iff)
  finally show ?thesis by simp
qed

lemma fp_greater_irrefl [simp]: "\<not> fp_greater x x"
  by (cases x) (auto simp: fp_greater_value simp del: fp_greater.simps(1))

lemma fp_greater_trans: "fp_greater x y \<Longrightarrow> fp_greater y z \<Longrightarrow> fp_greater x z"
  by (cases x; cases y; cases z) (auto simp: fp_greater_value simp del: fp_greater.simps(1))

text \<open>Without NaN it is a strict weak order: being above a value extends to every value.\<close>

lemma fp_greater_weak: "x \<noteq> NaN \<Longrightarrow> y \<noteq> NaN \<Longrightarrow> z \<noteq> NaN \<Longrightarrow> fp_greater x y \<Longrightarrow> fp_greater x z \<or> fp_greater z y"
  by (cases x; cases y; cases z) (auto simp: fp_greater_value simp del: fp_greater.simps(1))

lemma fp_greater_not_NaN: "fp_greater x y \<Longrightarrow> x \<noteq> NaN \<and> y \<noteq> NaN"
  by (cases x; cases y) auto

section \<open>Sorting with a comparator\<close>

fun insert_by :: "('a \<Rightarrow> 'a \<Rightarrow> bool) \<Rightarrow> 'a \<Rightarrow> 'a list \<Rightarrow> 'a list" where
  "insert_by lt x [] = [x]"
| "insert_by lt x (y # ys) = (if lt y x then y # insert_by lt x ys else x # y # ys)"

definition sort_by :: "('a \<Rightarrow> 'a \<Rightarrow> bool) \<Rightarrow> 'a list \<Rightarrow> 'a list" where
  "sort_by lt xs = foldr (insert_by lt) xs []"

lemma insert_by_set [simp]: "set (insert_by lt x ys) = insert x (set ys)"
  by (induction ys) auto

lemma insert_by_length [simp]: "length (insert_by lt x ys) = Suc (length ys)"
  by (induction ys) auto

lemma insert_by_distinct [simp]: "distinct (insert_by lt x ys) \<longleftrightarrow> x \<notin> set ys \<and> distinct ys"
  by (induction ys) auto

lemma sort_by_set [simp]: "set (sort_by lt xs) = set xs"
  unfolding sort_by_def by (induction xs) auto

lemma sort_by_length [simp]: "length (sort_by lt xs) = length xs"
  unfolding sort_by_def by (induction xs) auto

lemma sort_by_distinct [simp]: "distinct (sort_by lt xs) \<longleftrightarrow> distinct xs"
proof (induction xs)
  case (Cons x xs)
  then show ?case using sort_by_set [of lt xs] by (simp add: sort_by_def)
qed (simp add: sort_by_def)

text \<open>Strict weak orders on a set, as \<open>std::sort\<close> requires them of a comparator.\<close>

definition weak_order :: "('a \<Rightarrow> 'a \<Rightarrow> bool) \<Rightarrow> 'a set \<Rightarrow> bool" where
  "weak_order lt A \<longleftrightarrow>
     (\<forall>x\<in>A. \<forall>y\<in>A. lt x y \<longrightarrow> \<not> lt y x) \<and> (\<forall>x\<in>A. \<forall>y\<in>A. \<forall>z\<in>A. lt x y \<longrightarrow> lt x z \<or> lt z y)"

lemma insert_by_sorted:
  assumes "weak_order lt (insert x (set ys))" "sorted_wrt (\<lambda>a b. \<not> lt b a) ys"
  shows "sorted_wrt (\<lambda>a b. \<not> lt b a) (insert_by lt x ys)"
  using assms
proof (induction ys)
  case (Cons y ys)
  have wo: "weak_order lt (insert x (set ys))" using Cons.prems(1) unfolding weak_order_def by simp
  have IH: "sorted_wrt (\<lambda>a b. \<not> lt b a) (insert_by lt x ys)" using Cons.IH [OF wo] Cons.prems(2) by simp
  show ?case
  proof (cases "lt y x")
    case True
    then have "\<not> lt x y" using Cons.prems(1) unfolding weak_order_def by simp
    with IH True Cons.prems(2) show ?thesis by simp
  next
    case False
    have "\<not> lt b x" if "b \<in> set ys" for b
    proof
      assume "lt b x"
      then have "lt b y \<or> lt y x" using Cons.prems(1) that unfolding weak_order_def by (meson insertCI list.set_intros)
      with False that Cons.prems(2) show False by auto
    qed
    with False Cons.prems(2) show ?thesis by auto
  qed
qed simp

lemma sort_by_sorted: "weak_order lt (set xs) \<Longrightarrow> sorted_wrt (\<lambda>a b. \<not> lt b a) (sort_by lt xs)"
proof (induction xs)
  case (Cons x xs)
  then have "sorted_wrt (\<lambda>a b. \<not> lt b a) (sort_by lt xs)" by (auto simp: weak_order_def)
  with Cons.prems insert_by_sorted [of lt x "sort_by lt xs"] show ?case by (simp add: sort_by_def [of lt "x # xs"] flip: sort_by_def)
qed (simp add: sort_by_def)

end
