(* ===== verification/Vector_Store.thy ===== *)
theory Vector_Store
  imports Float_Arith
begin

text \<open>
  Vector stores, \<^verbatim>\<open>src/core/rag/in_memory_vector_store.cpp\<close>: the built-in store keeps the entries in a
  vector, their unit vectors in one flat vector of numbers and a hash map from ids to rows; erasing moves the
  last row into the hole. The contract of a store, \<open>vector_store\<close>, sees a map from ids to entries. Each
  operation holds the mutex of the store throughout, so it is one step on the state.
\<close>

section \<open>The source's functions\<close>

record vector_store_config =
  vc_path :: string
  vc_name :: string
  vc_dimensions :: int

record vector_hit =
  vh_id :: string
  vh_text :: string
  vh_metadata_json :: string
  vh_score :: fp

record 'v vector_store_ops =
  vo_open :: "(vector_store_config \<Rightarrow> 'v result) option"
  vo_upsert :: "(string \<Rightarrow> string \<Rightarrow> fp list \<Rightarrow> string \<Rightarrow> 'v \<Rightarrow> unit result \<times> 'v) option"
  vo_query_topk :: "(fp list \<Rightarrow> int \<Rightarrow> 'v \<Rightarrow> vector_hit list result) option"
  vo_erase :: "(string \<Rightarrow> 'v \<Rightarrow> bool result \<times> 'v) option"
  vo_clear :: "('v \<Rightarrow> unit result \<times> 'v) option"

record vector_entry =
  ve_id :: string
  ve_text :: string
  ve_metadata_json :: string

record in_memory_vectors =
  vs_dims :: nat
  vs_entries :: "vector_entry list"
  vs_vectors :: "fp list"
  vs_by_id :: "string \<rightharpoonup> nat"

text \<open>\<open>rag::l2_normalize\<close>: the sum of squares and its inverse root in double precision.\<close>

definition squares_sum :: "fp list \<Rightarrow> fp" where
  "squares_sum v = fold (\<lambda>x sum. fp_add binary64 sum (fp_mul binary64 x x)) v fp_zero"

definition scale :: "fp list \<Rightarrow> fp \<Rightarrow> fp list" where
  "scale v factor = map (\<lambda>x. fp_mul binary32 x factor) v"

definition normalize_by :: "fp list \<Rightarrow> fp \<Rightarrow> fp list" where
  "normalize_by v ssum =
     (if ssum \<noteq> NaN \<and> \<not> fp_greater ssum fp_zero then v
      else scale v (fp_cast binary32 (fp_inverse (fp_sqrt ssum))))"

definition l2_normalize :: "fp list \<Rightarrow> fp list" where
  "l2_normalize v = normalize_by v (squares_sum v)"

definition mem_open :: "vector_store_config \<Rightarrow> in_memory_vectors result" where
  "mem_open c =
     (if vc_dimensions c \<le> 0 then fail InvalidConfig ''vector store: dimensions must be > 0.''
      else ok \<lparr>vs_dims = nat (vc_dimensions c), vs_entries = [], vs_vectors = [], vs_by_id = Map.empty\<rparr>)"

definition check_dims :: "in_memory_vectors \<Rightarrow> fp list \<Rightarrow> unit result" where
  "check_dims s v =
     (if length v \<noteq> vs_dims s then
        fail InvalidConfig (''vector store: embedding has '' @ to_string (length v) @ '' dimensions, the store '' @
          to_string (vs_dims s) @ ''.'')
      else if list_ex (\<lambda>x. \<not> is_finite x) v then
        fail InvalidConfig ''vector store: embedding contains a non-finite value.''
      else ok ())"

text \<open>Row \<open>r\<close> of the flat vector, and writing it.\<close>

definition row_of :: "in_memory_vectors \<Rightarrow> nat \<Rightarrow> fp list" where
  "row_of s r = take (vs_dims s) (drop (r * vs_dims s) (vs_vectors s))"

definition write_at :: "fp list \<Rightarrow> nat \<Rightarrow> fp list \<Rightarrow> fp list" where
  "write_at vs i v = take i vs @ v @ drop (i + length v) vs"

definition mem_upsert ::
    "string \<Rightarrow> string \<Rightarrow> fp list \<Rightarrow> string \<Rightarrow> in_memory_vectors \<Rightarrow> unit result \<times> in_memory_vectors" where
  "mem_upsert key txt embedding meta s =
     (case check_dims s embedding of
        Inl e \<Rightarrow> (Inl e, s)
      | Inr _ \<Rightarrow>
          if key = [] then (fail InvalidConfig ''vector store: id must not be empty.'', s)
          else
            let (row, s1) =
              (case vs_by_id s key of
                 Some row \<Rightarrow>
                   (row, s\<lparr>vs_entries := (vs_entries s)[row := (vs_entries s ! row)\<lparr>ve_text := txt, ve_metadata_json := meta\<rparr>]\<rparr>)
               | None \<Rightarrow>
                   (length (vs_entries s),
                    s\<lparr>vs_entries := vs_entries s @ [\<lparr>ve_id = key, ve_text = txt, ve_metadata_json = meta\<rparr>],
                      vs_vectors := vs_vectors s @ replicate (vs_dims s) fp_zero,
                      vs_by_id := (vs_by_id s)(key \<mapsto> length (vs_entries s))\<rparr>))
            in (ok (), s1\<lparr>vs_vectors := write_at (vs_vectors s1) (row * vs_dims s1) (l2_normalize embedding)\<rparr>))"

text \<open>The score of a row, the comparator of \<open>partial_sort\<close>, and the query.\<close>

definition dot_product :: "fp list \<Rightarrow> fp list \<Rightarrow> fp" where
  "dot_product v q = fold (\<lambda>(x, y) dot. fp_add binary32 dot (fp_mul binary32 x y)) (zip v q) fp_zero"

definition scored_before :: "fp \<times> nat \<Rightarrow> fp \<times> nat \<Rightarrow> bool" where
  "scored_before a b \<longleftrightarrow> fp_greater (fst a) (fst b) \<or> fp_equal (fst a) (fst b) \<and> snd a < snd b"

definition hit_of :: "in_memory_vectors \<Rightarrow> fp \<times> nat \<Rightarrow> vector_hit" where
  "hit_of s p =
     (let e = vs_entries s ! snd p in
      \<lparr>vh_id = ve_id e, vh_text = ve_text e, vh_metadata_json = ve_metadata_json e, vh_score = fst p\<rparr>)"

definition scored_rows :: "fp list \<Rightarrow> in_memory_vectors \<Rightarrow> (fp \<times> nat) list" where
  "scored_rows q s = map (\<lambda>row. (dot_product (row_of s row) q, row)) [0..<length (vs_entries s)]"

definition mem_query :: "fp list \<Rightarrow> int \<Rightarrow> in_memory_vectors \<Rightarrow> vector_hit list result" where
  "mem_query embedding k s =
     (case check_dims s embedding of
        Inl e \<Rightarrow> Inl e
      | Inr _ \<Rightarrow>
          if k \<le> 0 then ok []
          else
            let scored = scored_rows (l2_normalize embedding) s;
                n = min (length scored) (nat k)
            in ok (map (hit_of s) (take n (sort_by scored_before scored))))"

definition mem_erase :: "string \<Rightarrow> in_memory_vectors \<Rightarrow> bool result \<times> in_memory_vectors" where
  "mem_erase key s =
     (case vs_by_id s key of
        None \<Rightarrow> (ok False, s)
      | Some row \<Rightarrow>
          let last = length (vs_entries s) - 1;
              s1 = s\<lparr>vs_by_id := (vs_by_id s)(key := None)\<rparr>;
              s2 = (if row \<noteq> last then
                      s1\<lparr>vs_entries := (vs_entries s1)[row := vs_entries s1 ! last],
                         vs_vectors := write_at (vs_vectors s1) (row * vs_dims s1) (row_of s1 last),
                         vs_by_id := (vs_by_id s1)(ve_id (vs_entries s1 ! last) \<mapsto> row)\<rparr>
                    else s1);
              entries = butlast (vs_entries s2)
          in (ok True, s2\<lparr>vs_entries := entries, vs_vectors := take (length entries * vs_dims s2) (vs_vectors s2)\<rparr>))"

definition mem_clear :: "in_memory_vectors \<Rightarrow> unit result \<times> in_memory_vectors" where
  "mem_clear s = (ok (), s\<lparr>vs_entries := [], vs_vectors := [], vs_by_id := Map.empty\<rparr>)"

definition in_memory_vector_store :: "in_memory_vectors vector_store_ops" where
  "in_memory_vector_store =
     \<lparr>vo_open = Some mem_open, vo_upsert = Some mem_upsert, vo_query_topk = Some mem_query, vo_erase = Some mem_erase,
      vo_clear = Some mem_clear\<rparr>"

section \<open>Rows\<close>

lemma length_l2_normalize [simp]: "length (l2_normalize v) = length v"
  by (simp add: l2_normalize_def normalize_by_def scale_def)

lemma length_write_at [simp]: "i + length v \<le> length vs \<Longrightarrow> length (write_at vs i v) = length vs"
  by (simp add: write_at_def)

lemma row_of_by_id [simp]: "row_of (s\<lparr>vs_by_id := m\<rparr>) r = row_of s r"
  by (simp add: row_of_def)

text \<open>Writing one row leaves the others: blocks of \<open>d\<close> numbers do not overlap.\<close>

lemma write_at_before: "a + n \<le> i \<Longrightarrow> i \<le> length vs \<Longrightarrow> take n (drop a (write_at vs i v)) = take n (drop a vs)"
  by (simp add: write_at_def take_drop min_absorb1)

lemma write_at_after: "i + length v \<le> a \<Longrightarrow> i \<le> length vs \<Longrightarrow> drop a (write_at vs i v) = drop a vs"
  by (simp add: write_at_def)

lemma block_less: "i < j \<Longrightarrow> i * d + d \<le> j * (d :: nat)"
  by (metis Suc_leI add.commute mult_Suc mult_le_mono1)

lemma block_write_same:
  "i * d + d \<le> length vs \<Longrightarrow> length v = d \<Longrightarrow> take d (drop (i * d) (write_at vs (i * d) v)) = v"
  by (simp add: write_at_def)

lemma block_write_other:
  assumes "i * d + d \<le> length vs" "length v = d" "j \<noteq> i"
  shows "take d (drop (j * d) (write_at vs (i * d) v)) = take d (drop (j * d) vs)"
proof (cases "j < i")
  case True
  with assms show ?thesis using write_at_before [OF block_less [OF True]] by simp
next
  case False
  with assms have "i < j" by simp
  with assms show ?thesis using write_at_after [of "i * d" v "j * d" vs] block_less [of i j d] by simp
qed

lemma block_take: "j < n \<Longrightarrow> take d (drop (j * d) (take (n * d) vs)) = take d (drop (j * d) vs)"
  using block_less [of j n d] by (simp add: take_drop min_def add.commute)

section \<open>Well-formed stores\<close>

text \<open>
  The rows and the ids are in step: one row of \<open>dims\<close> numbers per entry, and the hash map leads from an id to
  the row of the one entry with that id.
\<close>

definition vectors_ok :: "in_memory_vectors \<Rightarrow> bool" where
  "vectors_ok s \<longleftrightarrow>
     0 < vs_dims s \<and> length (vs_vectors s) = length (vs_entries s) * vs_dims s \<and>
     (\<forall>key row. vs_by_id s key = Some row \<longleftrightarrow> row < length (vs_entries s) \<and> ve_id (vs_entries s ! row) = key)"

text \<open>What the store holds under an id: text, metadata and unit vector.\<close>

definition stored :: "in_memory_vectors \<Rightarrow> string \<rightharpoonup> string \<times> string \<times> fp list" where
  "stored s key = map_option (\<lambda>row. (ve_text (vs_entries s ! row), ve_metadata_json (vs_entries s ! row), row_of s row)) (vs_by_id s key)"

lemma row_end: "vectors_ok s \<Longrightarrow> row < length (vs_entries s) \<Longrightarrow> row * vs_dims s + vs_dims s \<le> length (vs_vectors s)"
  using block_less [of row "length (vs_entries s)" "vs_dims s"] by (simp add: vectors_ok_def)

lemma by_id_row: "vectors_ok s \<Longrightarrow> vs_by_id s key = Some row \<longleftrightarrow> row < length (vs_entries s) \<and> ve_id (vs_entries s ! row) = key"
  by (simp add: vectors_ok_def)

lemma length_row_of: "vectors_ok s \<Longrightarrow> row < length (vs_entries s) \<Longrightarrow> length (row_of s row) = vs_dims s"
  using row_end [of s row] by (simp add: row_of_def)

lemma mem_open_ok: "mem_open c = Inr s \<Longrightarrow> vectors_ok s \<and> stored s = Map.empty \<and> vs_dims s = nat (vc_dimensions c)"
  by (auto simp: mem_open_def vectors_ok_def stored_def split: if_splits)

lemma mem_clear_ok: "vectors_ok s \<Longrightarrow> vectors_ok (snd (mem_clear s)) \<and> stored (snd (mem_clear s)) = Map.empty"
  by (auto simp: mem_clear_def vectors_ok_def stored_def)

subsection \<open>Inserting\<close>

lemma upsert_new:
  assumes ok: "vectors_ok s" and new: "vs_by_id s key = None" and len: "length v = vs_dims s"
    and s': "s' = s\<lparr>vs_entries := vs_entries s @ [e], vs_by_id := (vs_by_id s)(key \<mapsto> length (vs_entries s)),
      vs_vectors := write_at (vs_vectors s @ replicate (vs_dims s) fp_zero) (length (vs_entries s) * vs_dims s) v\<rparr>"
    and e: "ve_id e = key"
  shows "vectors_ok s' \<and> stored s' = (stored s)(key \<mapsto> (ve_text e, ve_metadata_json e, v))"
proof
  let ?n = "length (vs_entries s)" and ?d = "vs_dims s"
  have total: "length (vs_vectors s) = ?n * ?d" using ok by (simp add: vectors_ok_def)
  have flat: "write_at (vs_vectors s @ replicate ?d fp_zero) (?n * ?d) v = vs_vectors s @ v"
    using total len by (simp add: write_at_def)
  have fresh: "ve_id (vs_entries s ! row) \<noteq> key" if "row < ?n" for row
    using new that by_id_row [OF ok, of key row] by auto
  show "vectors_ok s'"
    using ok total len e fresh unfolding vectors_ok_def s' flat
    by (auto simp: nth_append less_Suc_eq split: if_splits)
  have rows: "row_of s' row = row_of s row" if "row < ?n" for row
    using that row_end [OF ok that] unfolding row_of_def s' flat by simp
  have "stored s' k = ((stored s)(key \<mapsto> (ve_text e, ve_metadata_json e, v))) k" for k
  proof (cases "k = key")
    case True
    have "row_of s' ?n = v" using total len unfolding row_of_def s' flat by simp
    with True show ?thesis by (simp add: stored_def s')
  next
    case False
    show ?thesis
    proof (cases "vs_by_id s k")
      case (Some row)
      then have "row < ?n" using by_id_row [OF ok] by simp
      with False Some rows show ?thesis by (simp add: stored_def s' nth_append)
    qed (use False in \<open>simp add: stored_def s'\<close>)
  qed
  then show "stored s' = (stored s)(key \<mapsto> (ve_text e, ve_metadata_json e, v))" by (rule ext)
qed

lemma upsert_old:
  assumes ok: "vectors_ok s" and old: "vs_by_id s key = Some row" and len: "length v = vs_dims s"
    and s': "s' = s\<lparr>vs_entries := (vs_entries s)[row := e], vs_vectors := write_at (vs_vectors s) (row * vs_dims s) v\<rparr>"
    and e: "ve_id e = key"
  shows "vectors_ok s' \<and> stored s' = (stored s)(key \<mapsto> (ve_text e, ve_metadata_json e, v))"
proof
  have row: "row < length (vs_entries s)" "ve_id (vs_entries s ! row) = key" using old by_id_row [OF ok] by simp_all
  note fits = row_end [OF ok row(1)]
  show "vectors_ok s'"
    using ok row fits len e unfolding vectors_ok_def s' by (auto simp: nth_list_update)
  have same: "row_of s' row = v" using block_write_same [OF fits len] by (simp add: row_of_def s')
  have other: "row_of s' r = row_of s r" if "r \<noteq> row" for r
    using block_write_other [OF fits len that] by (simp add: row_of_def s')
  have "stored s' k = ((stored s)(key \<mapsto> (ve_text e, ve_metadata_json e, v))) k" for k
  proof (cases "vs_by_id s k")
    case (Some r)
    then have "r = row \<longleftrightarrow> k = key" using old by_id_row [OF ok, of k r] row by (metis option.inject)
    with Some same other row show ?thesis by (auto simp: stored_def s' nth_list_update)
  qed (use old in \<open>auto simp: stored_def s'\<close>)
  then show "stored s' = (stored s)(key \<mapsto> (ve_text e, ve_metadata_json e, v))" by (rule ext)
qed

lemma mem_upsert_cases:
  obtains (refused) e where "mem_upsert key txt v meta s = (Inl e, s)" "\<not> (key \<noteq> [] \<and> check_dims s v = Inr ())"
  | (stored) "fst (mem_upsert key txt v meta s) = Inr ()" "key \<noteq> []" "check_dims s v = Inr ()"
  by (cases "check_dims s v"; cases "key = []") (auto simp: mem_upsert_def Let_def split: option.split)

lemma check_dims_ok: "check_dims s v = Inr () \<longleftrightarrow> length v = vs_dims s \<and> list_all is_finite v"
  by (auto simp: check_dims_def list_ex_iff list_all_iff)

lemma mem_upsert_ok:
  assumes "vectors_ok s" "key \<noteq> []" "check_dims s v = Inr ()"
  shows "vectors_ok (snd (mem_upsert key txt v meta s)) \<and>
    stored (snd (mem_upsert key txt v meta s)) = (stored s)(key \<mapsto> (txt, meta, l2_normalize v))"
proof -
  have len: "length (l2_normalize v) = vs_dims s" using assms(3) check_dims_ok by simp
  show ?thesis
  proof (cases "vs_by_id s key")
    case None
    let ?e = "\<lparr>ve_id = key, ve_text = txt, ve_metadata_json = meta\<rparr>"
    from assms None show ?thesis
      using upsert_new [OF assms(1) None len, of _ ?e] by (simp add: mem_upsert_def Let_def)
  next
    case (Some row)
    let ?e = "(vs_entries s ! row)\<lparr>ve_text := txt, ve_metadata_json := meta\<rparr>"
    have "ve_id (vs_entries s ! row) = key" using Some by_id_row [OF assms(1)] by simp
    with assms Some show ?thesis
      using upsert_old [OF assms(1) Some len, of _ ?e] by (simp add: mem_upsert_def Let_def)
  qed
qed

lemma mem_upsert_dims [simp]: "vs_dims (snd (mem_upsert key txt v meta s)) = vs_dims s"
  by (auto simp: mem_upsert_def split: sum.split option.split)

subsection \<open>Erasing\<close>

lemma mem_erase_dims [simp]: "vs_dims (snd (mem_erase key s)) = vs_dims s"
  by (auto simp: mem_erase_def Let_def split: option.split)

lemma mem_erase_absent: "vs_by_id s key = None \<Longrightarrow> mem_erase key s = (Inr False, s)"
  by (simp add: mem_erase_def)

text \<open>Where the erased row is not the last one, the last entry takes its place.\<close>

lemma mem_erase_entries:
  assumes ok: "vectors_ok s" and row: "vs_by_id s key = Some row" and s': "s' = snd (mem_erase key s)"
    and n: "n = length (vs_entries s) - 1"
  shows "length (vs_entries s') = n"
    and "r < n \<Longrightarrow> vs_entries s' ! r = vs_entries s ! (if r = row then n else r)"
    and "r < n \<Longrightarrow> row_of s' r = row_of s (if r = row then n else r)"
    and "length (vs_vectors s') = n * vs_dims s"
    and "vs_by_id s' = (if row = n then (vs_by_id s)(key := None)
      else (vs_by_id s)(key := None, ve_id (vs_entries s ! n) \<mapsto> row))"
proof -
  have bound: "row < length (vs_entries s)" using row by_id_row [OF ok] by simp
  then have "n < length (vs_entries s)" using n by simp
  note fits = row_end [OF ok bound] and len = length_row_of [OF ok this]
  have total: "length (vs_vectors s) = length (vs_entries s) * vs_dims s" using ok by (simp add: vectors_ok_def)
  show "length (vs_entries s') = n" by (simp add: s' n mem_erase_def Let_def row)
  show "vs_entries s' ! r = vs_entries s ! (if r = row then n else r)" if "r < n"
    using that bound by (simp add: s' n mem_erase_def Let_def row nth_butlast nth_list_update)
  show "row_of s' r = row_of s (if r = row then n else r)" if "r < n"
  proof (cases "row = n")
    case True
    with that show ?thesis by (simp add: s' n mem_erase_def Let_def row row_of_def block_take)
  next
    case False
    have "row_of s' r = take (vs_dims s) (drop (r * vs_dims s) (write_at (vs_vectors s) (row * vs_dims s) (row_of s n)))"
      using that False block_take [OF that] by (simp add: s' n mem_erase_def Let_def row row_of_def)
    with block_write_same [OF fits len] block_write_other [OF fits len, of r] show ?thesis
      by (simp add: row_of_def)
  qed
  have "length (vs_vectors s') = min (length (vs_vectors s)) (n * vs_dims s)"
    using fits len by (auto simp: s' n mem_erase_def Let_def row)
  moreover have "n * vs_dims s \<le> length (vs_vectors s)" unfolding total n by (rule mult_le_mono1) simp
  ultimately show "length (vs_vectors s') = n * vs_dims s" by simp
  show "vs_by_id s' = (if row = n then (vs_by_id s)(key := None)
      else (vs_by_id s)(key := None, ve_id (vs_entries s ! n) \<mapsto> row))"
    by (simp add: s' n mem_erase_def Let_def row)
qed

lemma mem_erase_ok:
  assumes ok: "vectors_ok s" and row: "vs_by_id s key = Some row"
  shows "vectors_ok (snd (mem_erase key s)) \<and> stored (snd (mem_erase key s)) = (stored s)(key := None)"
proof
  define s' where "s' = snd (mem_erase key s)"
  define n where "n = length (vs_entries s) - 1"
  note erased = mem_erase_entries [OF ok row s'_def n_def]
  have bound: "row < length (vs_entries s)" "ve_id (vs_entries s ! row) = key" using row by_id_row [OF ok] by simp_all
  then have less: "r < length (vs_entries s) \<longleftrightarrow> r < n \<or> r = n" for r using n_def by auto
  have inj: "r = r'" if "ve_id (vs_entries s ! r) = ve_id (vs_entries s ! r')" "r \<le> n" "r' \<le> n" for r r'
  proof -
    have "vs_by_id s (ve_id (vs_entries s ! r)) = Some r" "vs_by_id s (ve_id (vs_entries s ! r)) = Some r'"
      using by_id_row [OF ok] that less le_less by auto
    then show ?thesis by simp
  qed
  have by_id: "vs_by_id s' k = Some r \<longleftrightarrow> r < n \<and> ve_id (vs_entries s' ! r) = k" for k r
  proof -
    have "vs_by_id s' k = Some r \<longleftrightarrow> r < n \<and> ve_id (vs_entries s ! (if r = row then n else r)) = k"
      using by_id_row [OF ok] row bound less inj [of r row] inj [of n row] inj [of r n] unfolding erased(5)
      by (auto split: if_splits)
    then show ?thesis using erased(2) [of r] by (cases "r < n") simp_all
  qed
  show "vectors_ok (snd (mem_erase key s))"
    using ok by_id erased(1,4) unfolding vectors_ok_def s'_def [symmetric] by (simp add: s'_def)
  have "stored s' k = ((stored s)(key := None)) k" for k
  proof (cases "vs_by_id s' k")
    case (Some r)
    then have r: "r < n" "ve_id (vs_entries s ! (if r = row then n else r)) = k" using by_id [of k r] erased(2) [of r] by simp_all
    moreover from r have "vs_by_id s k = Some (if r = row then n else r)" using by_id_row [OF ok] less by auto
    moreover from this r row have "k \<noteq> key" by (auto split: if_splits)
    ultimately show ?thesis using Some erased(2,3) [of r] by (simp add: stored_def)
  next
    case None
    have "vs_by_id s k = None" if "k \<noteq> key" using None that unfolding erased(5) by (auto split: if_splits)
    with None show ?thesis by (auto simp: stored_def)
  qed
  then show "stored (snd (mem_erase key s)) = (stored s)(key := None)" unfolding s'_def by (rule ext)
qed

section \<open>Queries\<close>

lemma scored_before_weak:
  assumes "\<forall>p\<in>A. fst p \<noteq> NaN"
  shows "weak_order scored_before A"
  unfolding weak_order_def
proof (intro conjI ballI impI)
  fix a b assume "a \<in> A" "b \<in> A" "scored_before a b"
  then show "\<not> scored_before b a"
    using fp_greater_trans fp_greater_irrefl by (fastforce simp: scored_before_def fp_equal_def)
next
  fix a b c assume in_A: "a \<in> A" "b \<in> A" "c \<in> A" and ab: "scored_before a b"
  have weak: "fp_greater (fst x) (fst z) \<or> fp_greater (fst z) (fst y)"
    if "fp_greater (fst x) (fst y)" "x \<in> A" "y \<in> A" "z \<in> A" for x y z
    using fp_greater_weak assms that by blast
  show "scored_before a c \<or> scored_before c b"
  proof (cases "fp_greater (fst a) (fst b) \<or> fp_greater (fst a) (fst c) \<or> fp_greater (fst c) (fst b)")
    case True
    then show ?thesis using weak in_A unfolding scored_before_def by blast
  next
    case False
    then have eq: "fp_equal (fst a) (fst b)" "snd a < snd b" using ab by (auto simp: scored_before_def)
    then have "\<not> fp_greater (fst c) (fst a)" "\<not> fp_greater (fst b) (fst c)"
      using False weak in_A unfolding fp_equal_def by blast+
    with False have "fp_equal (fst a) (fst c)" "fp_equal (fst c) (fst b)" using assms in_A by (auto simp: fp_equal_def)
    with eq(2) show ?thesis unfolding scored_before_def by (meson le_less_trans not_le)
  qed
qed

text \<open>The similarity of the entry under an id to a query vector.\<close>

definition similarity :: "in_memory_vectors \<Rightarrow> fp list \<Rightarrow> string \<Rightarrow> fp" where
  "similarity s q key = (case stored s key of Some (_, _, v) \<Rightarrow> dot_product v (l2_normalize q) | None \<Rightarrow> NaN)"

lemma row_id:
  assumes "vectors_ok s" "row < length (vs_entries s)"
  shows "stored s (ve_id (vs_entries s ! row)) = Some (ve_text (vs_entries s ! row), ve_metadata_json (vs_entries s ! row), row_of s row)"
  using by_id_row [OF assms(1), of "ve_id (vs_entries s ! row)" row] assms(2) by (simp add: stored_def)

lemma row_inj:
  assumes "vectors_ok s"
  shows "inj_on (\<lambda>row. ve_id (vs_entries s ! row)) {0..<length (vs_entries s)}"
proof (rule inj_onI)
  fix r r' assume "r \<in> {0..<length (vs_entries s)}" "r' \<in> {0..<length (vs_entries s)}"
    "ve_id (vs_entries s ! r) = ve_id (vs_entries s ! r')"
  then have "vs_by_id s (ve_id (vs_entries s ! r)) = Some r" "vs_by_id s (ve_id (vs_entries s ! r)) = Some r'"
    using by_id_row [OF assms] by auto
  then show "r = r'" by simp
qed

lemma dom_stored: "vectors_ok s \<Longrightarrow> dom (stored s) = (\<lambda>row. ve_id (vs_entries s ! row)) ` {0..<length (vs_entries s)}"
  using by_id_row by (fastforce simp: stored_def dom_def)

lemma finite_stored: "vectors_ok s \<Longrightarrow> finite (dom (stored s))"
  by (simp add: dom_stored)

lemma card_stored: "vectors_ok s \<Longrightarrow> card (dom (stored s)) = length (vs_entries s)"
  using card_image [OF row_inj] by (simp add: dom_stored)

lemma scored_rows_set:
  assumes "vectors_ok s" "p \<in> set (scored_rows (l2_normalize q) s)"
  shows "snd p < length (vs_entries s)" "fst p = similarity s q (ve_id (vs_entries s ! snd p))"
  using assms row_id [OF assms(1)] by (auto simp: scored_rows_def similarity_def)

lemma scored_rows_mem:
  assumes "vectors_ok s" "row < length (vs_entries s)"
  shows "(similarity s q (ve_id (vs_entries s ! row)), row) \<in> set (scored_rows (l2_normalize q) s)"
  using assms row_id [OF assms] by (auto simp: scored_rows_def similarity_def)

lemma scored_rows_numbers:
  assumes "vectors_ok s" "\<forall>key\<in>dom (stored s). similarity s q key \<noteq> NaN"
  shows "sorted_wrt (\<lambda>a b. \<not> fp_greater (fst b) (fst a)) (sort_by scored_before (scored_rows (l2_normalize q) s))"
proof -
  have "ve_id (vs_entries s ! snd p) \<in> dom (stored s)" if "p \<in> set (scored_rows (l2_normalize q) s)" for p
    using row_id [OF assms(1) scored_rows_set(1) [OF assms(1) that]] by blast
  then have "\<forall>p\<in>set (scored_rows (l2_normalize q) s). fst p \<noteq> NaN"
    using scored_rows_set(2) [OF assms(1)] assms(2) by metis
  then have "sorted_wrt (\<lambda>a b. \<not> scored_before b a) (sort_by scored_before (scored_rows (l2_normalize q) s))"
    by (intro sort_by_sorted scored_before_weak)
  then show ?thesis by (rule sorted_wrt_mono_rel [rotated]) (simp add: scored_before_def)
qed

lemma mem_query_hits:
  assumes ok: "vectors_ok s" and hits: "mem_query q k s = Inr hits"
  shows "distinct (map vh_id hits)" "length hits \<le> nat k"
    "h \<in> set hits \<Longrightarrow> \<exists>v. stored s (vh_id h) = Some (vh_text h, vh_metadata_json h, v)"
proof -
  let ?xs = "sort_by scored_before (scored_rows (l2_normalize q) s)"
  have dist: "distinct (map snd ?xs)"
  proof -
    have "inj_on snd (set (scored_rows (l2_normalize q) s))" by (auto simp: scored_rows_def inj_on_def)
    moreover have "distinct (scored_rows (l2_normalize q) s)" by (auto simp: scored_rows_def distinct_map inj_on_def)
    ultimately show ?thesis by (simp add: distinct_map)
  qed
  obtain n where n: "hits = map (hit_of s) (take n ?xs)" "n \<le> nat k"
    using hits by (auto simp: mem_query_def Let_def split: sum.splits if_splits)
  then show "length hits \<le> nat k" by simp
  have rows: "snd p < length (vs_entries s)" if "p \<in> set (take n ?xs)" for p
    using scored_rows_set(1) [OF ok, of p q] set_take_subset that by fastforce
  have "inj_on (\<lambda>p. ve_id (vs_entries s ! snd p)) (set (take n ?xs))"
  proof (rule inj_onI)
    fix p p' assume p: "p \<in> set (take n ?xs)" "p' \<in> set (take n ?xs)" "ve_id (vs_entries s ! snd p) = ve_id (vs_entries s ! snd p')"
    then have "snd p = snd p'" using inj_onD [OF row_inj [OF ok], of "snd p" "snd p'"] rows by simp
    with p(1,2) dist show "p = p'"
      by (metis distinct_map inj_onD in_set_takeD)
  qed
  moreover have "distinct (take n ?xs)" using dist by (simp add: distinct_map)
  ultimately show "distinct (map vh_id hits)" by (simp add: n distinct_map hit_of_def Let_def inj_on_def)
  show "\<exists>v. stored s (vh_id h) = Some (vh_text h, vh_metadata_json h, v)" if "h \<in> set hits"
    using that row_id [OF ok] rows by (auto simp: n hit_of_def Let_def)
qed

text \<open>
  C24. A query for \<open>k > 0\<close> returns \<open>k\<close> entries, or all if there are fewer: different entries of the store with
  their text and metadata, most similar first, and no entry left out is more similar than one returned.
\<close>

theorem mem_query_topk:
  assumes ok: "vectors_ok s" and dims: "check_dims s q = Inr ()" and k: "0 < k"
    and numbers: "\<forall>key\<in>dom (stored s). similarity s q key \<noteq> NaN"
  shows "\<exists>hits. mem_query q k s = Inr hits \<and> length hits = min (card (dom (stored s))) (nat k) \<and>
    distinct (map vh_id hits) \<and>
    (\<forall>h\<in>set hits. \<exists>v. stored s (vh_id h) = Some (vh_text h, vh_metadata_json h, v) \<and> vh_score h = similarity s q (vh_id h)) \<and>
    sorted_wrt (\<lambda>a b. \<not> fp_greater (vh_score b) (vh_score a)) hits \<and>
    (\<forall>h\<in>set hits. \<forall>key\<in>dom (stored s) - vh_id ` set hits. \<not> fp_greater (similarity s q key) (vh_score h))"
proof -
  let ?rows = "scored_rows (l2_normalize q) s"
  define xs where "xs = sort_by scored_before ?rows"
  define n where "n = min (length ?rows) (nat k)"
  define hits where "hits = map (hit_of s) (take n xs)"
  have query: "mem_query q k s = Inr hits" using dims k by (simp add: mem_query_def hits_def xs_def n_def Let_def)
  note found = mem_query_hits [OF ok query]
  have in_rows: "p \<in> set ?rows" if "p \<in> set xs" for p using that by (simp add: xs_def)
  have split: "sorted_wrt (\<lambda>a b. \<not> fp_greater (fst b) (fst a)) (take n xs @ drop n xs)"
    using scored_rows_numbers [OF ok numbers] by (simp add: xs_def)
  have "length hits = min (card (dom (stored s))) (nat k)"
    by (simp add: hits_def n_def xs_def card_stored [OF ok] scored_rows_def)
  moreover have score: "vh_score h = similarity s q (vh_id h)" if "h \<in> set hits" for h
    using that scored_rows_set(2) [OF ok] in_rows by (auto simp: hits_def hit_of_def Let_def dest: in_set_takeD)
  moreover have "sorted_wrt (\<lambda>a b. \<not> fp_greater (vh_score b) (vh_score a)) hits"
    using split unfolding sorted_wrt_append hits_def sorted_wrt_map by (simp add: hit_of_def Let_def)
  moreover have "\<not> fp_greater (similarity s q key) (vh_score h)"
    if h: "h \<in> set hits" and key: "key \<in> dom (stored s)" "key \<notin> vh_id ` set hits" for h key
  proof -
    obtain row where row: "row < length (vs_entries s)" "key = ve_id (vs_entries s ! row)"
      using key(1) dom_stored [OF ok] by auto
    then have "(similarity s q key, row) \<in> set (take n xs @ drop n xs)"
      using scored_rows_mem [OF ok] by (simp add: xs_def)
    moreover have "(similarity s q key, row) \<notin> set (take n xs)"
      using key(2) row by (force simp: hits_def hit_of_def Let_def)
    ultimately have "(similarity s q key, row) \<in> set (drop n xs)" by (metis Un_iff set_append)
    moreover obtain p where "p \<in> set (take n xs)" "vh_score h = fst p" using h by (auto simp: hits_def hit_of_def Let_def)
    ultimately show ?thesis using split unfolding sorted_wrt_append by fastforce
  qed
  ultimately show ?thesis using query found by (intro exI [of _ hits]) blast
qed

text \<open>A store of two dimensions with two entries, and a query nearer to the second.\<close>

definition sample_vectors :: in_memory_vectors where
  "sample_vectors =
     \<lparr>vs_dims = 2,
      vs_entries = [\<lparr>ve_id = ''a'', ve_text = ''first'', ve_metadata_json = ''{}''\<rparr>,
        \<lparr>ve_id = ''b'', ve_text = ''second'', ve_metadata_json = ''{}''\<rparr>],
      vs_vectors = [fp_one, fp_zero, fp_zero, fp_one],
      vs_by_id = [''a'' \<mapsto> 0, ''b'' \<mapsto> 1]\<rparr>"

definition sample_query :: "fp list" where
  "sample_query = [fp_zero, Fin False 2 0]"

lemma sample_vectors_ok: "vectors_ok sample_vectors"
  by (auto simp: vectors_ok_def sample_vectors_def nth_Cons' less_2_cases_iff split: if_splits)

lemma sample_similarity:
  "similarity sample_vectors sample_query ''a'' = Fin False 0 (-24)"
  "similarity sample_vectors sample_query ''b'' = Fin False 8388608 (-23)"
  by code_simp+

theorem mem_query_topk_witness:
  "\<exists>hits. mem_query sample_query 1 sample_vectors = Inr hits \<and> length hits = 1 \<and>
     sorted_wrt (\<lambda>a b. \<not> fp_greater (vh_score b) (vh_score a)) hits"
proof -
  have dom: "dom (stored sample_vectors) = {''a'', ''b''}"
    by (auto simp: stored_def sample_vectors_def dom_def split: if_splits)
  have dims: "check_dims sample_vectors sample_query = Inr ()"
    by (simp add: check_dims_ok sample_vectors_def sample_query_def is_finite_def fp_zero_def)
  have numbers: "\<forall>key\<in>dom (stored sample_vectors). similarity sample_vectors sample_query key \<noteq> NaN"
    unfolding dom by (simp add: sample_similarity)
  from mem_query_topk [OF sample_vectors_ok dims _ numbers, of 1] show ?thesis by (auto simp: dom)
qed

section \<open>The contract of a vector store\<close>

text \<open>
  What the pipeline relies on: the contents are a finite map from ids to text, metadata and vector; a failed
  operation changes nothing; hits are entries of the store.
\<close>

locale vector_store =
  fixes upsert :: "string \<Rightarrow> string \<Rightarrow> fp list \<Rightarrow> string \<Rightarrow> 'v \<Rightarrow> unit result \<times> 'v"
    and query_topk :: "fp list \<Rightarrow> int \<Rightarrow> 'v \<Rightarrow> vector_hit list result"
    and erase :: "string \<Rightarrow> 'v \<Rightarrow> bool result \<times> 'v"
    and contents :: "'v \<Rightarrow> string \<rightharpoonup> string \<times> string \<times> fp list"
    and inv :: "'v \<Rightarrow> bool"
  assumes upsert_inv: "inv s \<Longrightarrow> inv (snd (upsert key t v m s))"
    and upsert_contents: "inv s \<Longrightarrow> contents (snd (upsert key t v m s)) =
      (if is_ok (fst (upsert key t v m s)) then (contents s)(key \<mapsto> (t, m, l2_normalize v)) else contents s)"
    and erase_inv: "inv s \<Longrightarrow> inv (snd (erase key s))"
    and erase_contents: "inv s \<Longrightarrow> contents (snd (erase key s)) =
      (if is_ok (fst (erase key s)) then (contents s)(key := None) else contents s)"
    and erase_result: "inv s \<Longrightarrow> fst (erase key s) = Inr b \<Longrightarrow> b \<longleftrightarrow> key \<in> dom (contents s)"
    and query_hits: "inv s \<Longrightarrow> query_topk v k s = Inr hits \<Longrightarrow>
      distinct (map vh_id hits) \<and> length hits \<le> nat k \<and>
      (\<forall>h\<in>set hits. \<exists>u. contents s (vh_id h) = Some (vh_text h, vh_metadata_json h, u))"
    and finite_contents: "inv s \<Longrightarrow> finite (dom (contents s))"

lemma mem_upsert_result:
  "fst (mem_upsert key t v m s) = Inr () \<longleftrightarrow> key \<noteq> [] \<and> check_dims s v = Inr ()"
  "\<not> (key \<noteq> [] \<and> check_dims s v = Inr ()) \<Longrightarrow> snd (mem_upsert key t v m s) = s"
  by (cases rule: mem_upsert_cases [of key t v m s]; simp)+

lemma mem_upsert_contract:
  assumes "vectors_ok s"
  shows "vectors_ok (snd (mem_upsert key t v m s))"
    "stored (snd (mem_upsert key t v m s)) =
      (if is_ok (fst (mem_upsert key t v m s)) then (stored s)(key \<mapsto> (t, m, l2_normalize v)) else stored s)"
proof -
  have "is_ok (fst (mem_upsert key t v m s)) \<longleftrightarrow> key \<noteq> [] \<and> check_dims s v = Inr ()"
    using mem_upsert_result(1) [of key t v m s] by (auto simp: is_ok_iff)
  then show "vectors_ok (snd (mem_upsert key t v m s))"
    "stored (snd (mem_upsert key t v m s)) =
      (if is_ok (fst (mem_upsert key t v m s)) then (stored s)(key \<mapsto> (t, m, l2_normalize v)) else stored s)"
    using mem_upsert_ok [OF assms, of key v t m] mem_upsert_result(2) [of key s v t m] assms
    by (cases "key \<noteq> [] \<and> check_dims s v = Inr ()"; simp)+
qed

lemma mem_erase_contract:
  assumes "vectors_ok s"
  shows "vectors_ok (snd (mem_erase key s))" "fst (mem_erase key s) = Inr (key \<in> dom (stored s))"
    "stored (snd (mem_erase key s)) = (stored s)(key := None)"
proof -
  have "key \<in> dom (stored s) \<longleftrightarrow> vs_by_id s key \<noteq> None" by (auto simp: stored_def)
  moreover have "fst (mem_erase key s) = Inr (vs_by_id s key \<noteq> None)"
    by (auto simp: mem_erase_def Let_def split: option.split)
  ultimately show "fst (mem_erase key s) = Inr (key \<in> dom (stored s))" by simp
  show "vectors_ok (snd (mem_erase key s))" "stored (snd (mem_erase key s)) = (stored s)(key := None)"
    using assms mem_erase_ok [OF assms, of key] mem_erase_absent [of s key]
    by (cases "vs_by_id s key"; auto simp: stored_def fun_upd_idem)+
qed

interpretation mem_store: vector_store mem_upsert mem_query mem_erase stored vectors_ok
proof
qed (use mem_query_hits in \<open>auto simp: mem_upsert_contract mem_erase_contract finite_stored simp del: fun_upd_apply\<close>)

section \<open>Refinement of a map\<close>

text \<open>
  Sequences of calls on the store and on its specification, a map from ids to entries. An answer is \<open>None\<close> for a
  call that fails.
\<close>

datatype vector_call = Upsert string string "fp list" string | Erase string | Clear

definition answer :: "bool result \<times> 'v \<Rightarrow> bool option \<times> 'v" where
  "answer p = (case fst p of Inl _ \<Rightarrow> None | Inr b \<Rightarrow> Some b, snd p)"

fun vector_step :: "vector_call \<Rightarrow> in_memory_vectors \<Rightarrow> bool option \<times> in_memory_vectors" where
  "vector_step (Upsert key t v m) s = answer (map_prod (map_sum id (\<lambda>_. True)) id (mem_upsert key t v m s))"
| "vector_step (Erase key) s = answer (mem_erase key s)"
| "vector_step Clear s = answer (map_prod (map_sum id (\<lambda>_. True)) id (mem_clear s))"

fun spec_step :: "nat \<Rightarrow> vector_call \<Rightarrow> (string \<rightharpoonup> string \<times> string \<times> fp list) \<Rightarrow>
    bool option \<times> (string \<rightharpoonup> string \<times> string \<times> fp list)" where
  "spec_step d (Upsert key t v m) c =
     (if key \<noteq> [] \<and> length v = d \<and> list_all is_finite v then (Some True, c(key \<mapsto> (t, m, l2_normalize v))) else (None, c))"
| "spec_step d (Erase key) c = (Some (key \<in> dom c), c(key := None))"
| "spec_step d Clear c = (Some True, Map.empty)"

fun run_calls :: "('c \<Rightarrow> 's \<Rightarrow> 'r \<times> 's) \<Rightarrow> 'c list \<Rightarrow> 's \<Rightarrow> 'r list \<times> 's" where
  "run_calls step [] s = ([], s)"
| "run_calls step (c # cs) s =
     (case step c s of (r, s1) \<Rightarrow> case run_calls step cs s1 of (rs, s2) \<Rightarrow> (r # rs, s2))"

lemma vector_step_refines:
  assumes "vectors_ok s"
  shows "vectors_ok (snd (vector_step c s)) \<and> vs_dims (snd (vector_step c s)) = vs_dims s \<and>
    spec_step (vs_dims s) c (stored s) = (fst (vector_step c s), stored (snd (vector_step c s)))"
proof (cases c)
  case (Upsert key t v m)
  have "is_ok (fst (mem_upsert key t v m s)) \<longleftrightarrow> key \<noteq> [] \<and> length v = vs_dims s \<and> list_all is_finite v"
    using mem_upsert_result(1) [of key t v m s] by (auto simp: is_ok_iff check_dims_ok)
  with Upsert mem_upsert_contract [OF assms, of key t v m] show ?thesis
    by (cases "fst (mem_upsert key t v m s)") (auto simp: answer_def map_prod_def split_beta)
next
  case (Erase key)
  with mem_erase_contract [OF assms, of key] show ?thesis by (simp add: answer_def)
next
  case Clear
  with mem_clear_ok [OF assms] show ?thesis by (simp add: answer_def mem_clear_def)
qed

text \<open>
  C23. The in-memory store is a map from ids to entries: any sequence of calls on a freshly opened store gives the
  answers of the map, leaves the contents of the map, and keeps rows, ids and vectors in step.
\<close>

theorem in_memory_vectors_refine:
  assumes "mem_open c = Inr s" "run_calls vector_step calls s = (answers, s')"
  shows "run_calls (spec_step (nat (vc_dimensions c))) calls Map.empty = (answers, stored s') \<and> vectors_ok s'"
proof -
  have "run_calls (spec_step d) calls (stored s) = (answers, stored s') \<and> vectors_ok s'"
    if "vectors_ok s" "d = vs_dims s" "run_calls vector_step calls s = (answers, s')" for d s
    using that
  proof (induction calls arbitrary: s answers)
    case (Cons call calls)
    obtain r s1 where step: "vector_step call s = (r, s1)" by fastforce
    obtain rs where rest: "run_calls vector_step calls s1 = (rs, s')" "answers = r # rs"
      using Cons.prems(3) step by (auto split: prod.splits)
    with step vector_step_refines [OF Cons.prems(1), of call] Cons.IH [of s1 rs] Cons.prems(2) show ?case by simp
  qed simp
  with assms mem_open_ok [OF assms(1)] show ?thesis by metis
qed

theorem in_memory_vectors_refine_witness:
  "\<exists>s s'. mem_open \<lparr>vc_path = [], vc_name = ''rag'', vc_dimensions = 1\<rparr> = Inr s \<and>
     run_calls vector_step [Upsert ''a'' ''x'' [fp_one] ''{}'', Upsert [] ''y'' [fp_one] ''{}'', Erase ''a'', Erase ''a''] s =
       ([Some True, None, Some True, Some False], s') \<and> stored s' = Map.empty"
proof -
  let ?calls = "[Upsert ''a'' ''x'' [fp_one] ''{}'', Upsert [] ''y'' [fp_one] ''{}'', Erase ''a'', Erase ''a'']"
  obtain s where opened: "mem_open \<lparr>vc_path = [], vc_name = ''rag'', vc_dimensions = 1\<rparr> = Inr s" by (simp add: mem_open_def)
  obtain answers s' where run: "run_calls vector_step ?calls s = (answers, s')" by fastforce
  have "run_calls (spec_step 1) ?calls Map.empty = ([Some True, None, Some True, Some False], Map.empty)"
    by (simp add: is_finite_def fp_one_def)
  with in_memory_vectors_refine [OF opened run] have "answers = [Some True, None, Some True, Some False]" "stored s' = Map.empty"
    by simp_all
  with opened run show ?thesis by blast
qed

text \<open>
  Normalizing a vector of a tiny norm: the inverse of the norm exceeds the range of \<open>float\<close>, so that a finite embedding
  is stored as infinities and NaN, against the invariant the comment on \<open>vectors\<close> states.
\<close>

lemma tiny_embedding_stored_as_nan:
  "list_all is_finite [Fin False 1 (-149), fp_zero] \<and> l2_normalize [Fin False 1 (-149), fp_zero] = [Inf False, NaN]"
  by code_simp

end
