(* ===== verification/Engine_Tasks.thy ===== *)
theory Engine_Tasks
  imports Compress Vector_Store
begin

text \<open>
  Tasks that run on an engine outside of a turn: \<open>embed\<close> and \<open>rerank\<close> of \<^verbatim>\<open>src/core/rag/engine_tasks.cpp\<close>,
  \<open>decide\<close>, \<open>decide_score\<close> and \<open>decide_yes_no\<close> of \<^verbatim>\<open>src/core/tasks/decide.cpp\<close> and \<open>ocr\<close> of
  \<^verbatim>\<open>src/core/tasks/ocr.cpp\<close>. Each takes its buffers from a per-thread arena, here an argument and a result,
  and calls the engine through \<open>infer_task\<close>. The cancel flag of the session is \<open>env_cancel\<close>.
\<close>

section \<open>Requests\<close>

definition cap_ocr :: u32 where "cap_ocr = 0x20"
definition cap_embed :: u32 where "cap_embed = 0x4000"
definition cap_rerank :: u32 where "cap_rerank = 0x8000"
definition cap_decide :: u32 where "cap_decide = 0x10000"

definition kBatch :: nat where "kBatch = 16"
definition kArenaPerText :: nat where "kArenaPerText = 64 * 1024"
definition kArenaBase :: nat where "kArenaBase = 64 * 1024"

text \<open>A per-thread arena of at least \<open>need\<close> bytes, grown on demand and reset.\<close>

definition grown_arena :: "nat \<Rightarrow> arena \<Rightarrow> arena" where
  "grown_arena need a = reset (if capacity a < of_nat need then arena_new heap_block (of_nat need) else a)"

definition task_arena :: "nat \<Rightarrow> arena \<Rightarrow> arena" where
  "task_arena n_texts a = grown_arena (kArenaBase + n_texts * kArenaPerText) a"

definition text_view :: "string \<Rightarrow> string \<Rightarrow> message_view" where
  "text_view role content = \<lparr>mv_role = role, mv_content = content, mv_tool_calls = [], mv_tool_call_id = [],
     mv_tensors = [], mv_media = []\<rparr>"

definition task_request :: "message_view list \<Rightarrow> 'w infer_request" where
  "task_request messages = \<lparr>req_messages = messages, req_max_tokens = 0, req_stream = False, req_on_token = None,
     req_task = 0, req_params_json = []\<rparr>"

section \<open>Embedding\<close>

text \<open>The loop over the tensors of one response: the embeddings so far and how many this batch got.\<close>

fun take_embeddings :: "tensor_data list \<Rightarrow> fp list list \<Rightarrow> nat \<Rightarrow> (fp list list \<times> nat) result" where
  "take_embeddings [] out got = ok (out, got)"
| "take_embeddings (t # ts) out got =
     (if td_name t \<noteq> ''embedding'' then take_embeddings ts out got
      else if td_dtype t \<noteq> Float32 \<or> length (td_data t) mod 4 \<noteq> 0 \<or> td_data t = [] then
        fail DecodeFailed ''embed: engine returned a malformed embedding tensor.''
      else if out \<noteq> [] \<and> length (as_floats (td_data t)) \<noteq> length (hd out) then
        fail DecodeFailed ''embed: engine returned embeddings of different sizes.''
      else take_embeddings ts (out @ [l2_normalize (as_floats (td_data t))]) (got + 1))"

function embed_loop ::
    "('w, 'm) session \<Rightarrow> ('w, 'm) ambient \<Rightarrow> string list \<Rightarrow> fp list list \<Rightarrow> arena \<Rightarrow> 'w env \<Rightarrow>
     fp list list result \<times> arena \<times> 'w env" where
  "embed_loop S amb texts out a w =
     (if texts = [] then (ok out, a, w)
      else if env_cancel w then (fail CancelledCode ''embed: cancelled.'', a, w)
      else
        let batch = take kBatch texts;
            n = length batch
        in case infer_task S amb cap_embed (task_request (map (text_view ''user'') batch)) (task_arena n a) w of
             (Inl e, a1, w1) \<Rightarrow> (Inl e, a1, w1)
           | (Inr res, a1, w1) \<Rightarrow>
               (case take_embeddings (resp_output_tensors res) out 0 of
                  Inl e \<Rightarrow> (Inl e, a1, w1)
                | Inr (out1, got) \<Rightarrow>
                    if got \<noteq> n then
                      (fail DecodeFailed (''embed: engine returned '' @ to_string got @ '' embeddings for '' @
                         to_string n @ '' texts.''), a1, w1)
                    else embed_loop S amb (drop kBatch texts) out1 a1 w1))"
  by auto
termination by (relation "measure (\<lambda>(S, amb, texts, out, a, w). length texts)") (auto simp: kBatch_def)

declare embed_loop.simps [simp del]

definition embed ::
    "('w, 'm) session \<Rightarrow> ('w, 'm) ambient \<Rightarrow> string list \<Rightarrow> arena \<Rightarrow> 'w env \<Rightarrow> fp list list result \<times> arena \<times> 'w env" where
  "embed S amb texts a w =
     (if list_ex (\<lambda>t. t = []) texts then (fail InvalidConfig ''embed: texts must not be empty.'', a, w)
      else embed_loop S amb texts [] a w)"

section \<open>Reranking\<close>

text \<open>The loop over the tensors: the first one named \<open>scores\<close>.\<close>

definition take_scores :: "nat \<Rightarrow> tensor_data list \<Rightarrow> fp list result" where
  "take_scores n ts =
     (case find (\<lambda>t. td_name t = ''scores'') ts of
        None \<Rightarrow> fail DecodeFailed (''rerank: engine returned no '' @ quoted ''scores'' @ '' tensor.'')
      | Some t \<Rightarrow>
          if td_dtype t \<noteq> Float32 \<or> length (as_floats (td_data t)) \<noteq> n then
            fail DecodeFailed (''rerank: engine returned '' @ to_string (length (as_floats (td_data t))) @ '' scores for '' @
              to_string n @ '' documents.'')
          else ok (as_floats (td_data t)))"

function rerank_loop ::
    "('w, 'm) session \<Rightarrow> ('w, 'm) ambient \<Rightarrow> string \<Rightarrow> string list \<Rightarrow> fp list \<Rightarrow> arena \<Rightarrow> 'w env \<Rightarrow>
     fp list result \<times> arena \<times> 'w env" where
  "rerank_loop S amb query docs out a w =
     (if docs = [] then (ok out, a, w)
      else if env_cancel w then (fail CancelledCode ''rerank: cancelled.'', a, w)
      else
        let batch = take kBatch docs;
            msgs = text_view ''user'' query # map (\<lambda>d. text_view ''user'' (if d = [] then '' '' else d)) batch
        in case infer_task S amb cap_rerank (task_request msgs) (task_arena (length batch) a) w of
             (Inl e, a1, w1) \<Rightarrow> (Inl e, a1, w1)
           | (Inr res, a1, w1) \<Rightarrow>
               (case take_scores (length batch) (resp_output_tensors res) of
                  Inl e \<Rightarrow> (Inl e, a1, w1)
                | Inr scores \<Rightarrow> rerank_loop S amb query (drop kBatch docs) (out @ scores) a1 w1))"
  by auto
termination by (relation "measure (\<lambda>(S, amb, query, docs, out, a, w). length docs)") (auto simp: kBatch_def)

declare rerank_loop.simps [simp del]

definition rerank ::
    "('w, 'm) session \<Rightarrow> ('w, 'm) ambient \<Rightarrow> string \<Rightarrow> string list \<Rightarrow> arena \<Rightarrow> 'w env \<Rightarrow> fp list result \<times> arena \<times> 'w env" where
  "rerank S amb query docs a w =
     (if query = [] then (fail InvalidConfig ''rerank: query must not be empty.'', a, w)
      else rerank_loop S amb query docs [] a w)"

section \<open>Decisions\<close>

record decide_options =
  do_media :: "media list"
  do_system :: string
  do_instructions :: bool

record decision =
  dn_options :: "string list"
  dn_probs :: "fp list"
  dn_choice :: nat
  dn_confidence :: fp
  dn_score :: fp

text \<open>The loop that looks for the most likely option.\<close>

definition best_choice :: "fp list \<Rightarrow> nat" where
  "best_choice probs = fold (\<lambda>i choice. if fp_greater (probs ! i) (probs ! choice) then i else choice) [1..<length probs] 0"

definition read_decision :: "tensor_data list \<Rightarrow> decision result" where
  "read_decision ts =
     (case find (\<lambda>t. td_name t = ''probs'') ts of
        None \<Rightarrow> fail DecodeFailed (''decide: engine returned no '' @ quoted ''probs'' @ '' tensor.'')
      | Some t \<Rightarrow>
          if td_dtype t \<noteq> Float32 \<or> length (td_data t) mod 4 \<noteq> 0 \<or> td_data t = [] then
            fail DecodeFailed (''decide: engine returned a malformed '' @ quoted ''probs'' @ '' tensor.'')
          else
            let probs = as_floats (td_data t);
                choice = best_choice probs
            in ok \<lparr>dn_options = [], dn_probs = probs, dn_choice = choice, dn_confidence = probs ! choice,
                   dn_score = probs ! choice\<rparr>)"

text \<open>\<open>run_decide\<close>; the views of the attached files take an array of the arena.\<close>

definition run_decide ::
    "('w, 'm) session \<Rightarrow> ('w, 'm) ambient \<Rightarrow> string \<Rightarrow> string \<Rightarrow> decide_options \<Rightarrow> arena \<Rightarrow> 'w env \<Rightarrow>
     decision result \<times> arena \<times> 'w env" where
  "run_decide S amb question params opts a w =
     (if question = [] then (fail InvalidConfig ''decide: question must not be empty.'', a, w)
      else if env_cancel w then (fail CancelledCode ''decide: cancelled.'', a, w)
      else
        let a0 = grown_arena (kArenaBase + length params + length question + length (do_system opts)) a
        in case take_span sizeof_media_view (length (do_media opts)) a0 of
             (False, a1) \<Rightarrow> (fail OutOfMemory ''decide: arena full.'', a1, w)
           | (True, a1) \<Rightarrow>
               (let msgs = (if do_system opts = [] then [] else [text_view ''system'' (do_system opts)]) @
                      [(text_view ''user'' question)\<lparr>mv_media := do_media opts\<rparr>]
                in case infer_task S amb cap_decide ((task_request msgs)\<lparr>req_params_json := params\<rparr>) a1 w of
                     (Inl e, a2, w2) \<Rightarrow> (Inl e, a2, w2)
                   | (Inr res, a2, w2) \<Rightarrow> (read_decision (resp_output_tensors res), a2, w2)))"

definition common_params :: "decide_options \<Rightarrow> string" where
  "common_params opts = (if do_instructions opts then [] else '','' @ quoted ''instructions'' @ '':false'')"

definition decide ::
    "('w, 'm) session \<Rightarrow> ('w, 'm) ambient \<Rightarrow> string \<Rightarrow> string list \<Rightarrow> decide_options \<Rightarrow> arena \<Rightarrow> 'w env \<Rightarrow>
     decision result \<times> arena \<times> 'w env" where
  "decide S amb question options opts a w =
     (if length options < 2 then (fail InvalidConfig ''decide: needs at least two options.'', a, w)
      else if list_ex (\<lambda>opt. opt = []) options then (fail InvalidConfig ''decide: options must not be empty.'', a, w)
      else
        let params = ''{'' @ quoted ''mode'' @ '':'' @ quoted ''choice'' @ '','' @ quoted ''options'' @ '':['' @
              sep_by '','' (map quoted options) @ '']'' @ common_params opts @ ''}''
        in case run_decide S amb question params opts a w of
             (Inl e, a1, w1) \<Rightarrow> (Inl e, a1, w1)
           | (Inr d, a1, w1) \<Rightarrow>
               if length (dn_probs d) \<noteq> length options then
                 (fail DecodeFailed (''decide: engine returned '' @ to_string (length (dn_probs d)) @
                    '' probabilities for '' @ to_string (length options) @ '' options.''), a1, w1)
               else (ok (d\<lparr>dn_options := options\<rparr>), a1, w1))"

text \<open>A whole number as a value of type \<open>double\<close>, and the expected value of \<open>decide_score\<close>.\<close>

definition fp_of_int :: "int \<Rightarrow> fp" where
  "fp_of_int i = Fin (i < 0) \<bar>i\<bar> 0"

definition expected_score :: "int \<Rightarrow> fp list \<Rightarrow> fp" where
  "expected_score mn probs =
     fp_cast binary32 (fold (\<lambda>(i, p) expected. fp_add binary64 expected (fp_mul binary64 p (fp_of_int (mn + int i))))
       (enumerate 0 probs) fp_zero)"

definition decide_score ::
    "('w, 'm) session \<Rightarrow> ('w, 'm) ambient \<Rightarrow> string \<Rightarrow> int \<Rightarrow> int \<Rightarrow> decide_options \<Rightarrow> arena \<Rightarrow> 'w env \<Rightarrow>
     decision result \<times> arena \<times> 'w env" where
  "decide_score S amb question mn mx opts a w =
     (if mn \<ge> mx \<or> mx - mn > 100 then
        (fail InvalidConfig ''decide_score: needs min < max and at most 101 levels.'', a, w)
      else
        let params = ''{'' @ quoted ''mode'' @ '':'' @ quoted ''score'' @ '','' @ quoted ''scale'' @ '':['' @
              to_string_int mn @ '','' @ to_string_int mx @ '']'' @ common_params opts @ ''}''
        in case run_decide S amb question params opts a w of
             (Inl e, a1, w1) \<Rightarrow> (Inl e, a1, w1)
           | (Inr d, a1, w1) \<Rightarrow>
               (let levels = nat (mx - mn) + 1 in
                if length (dn_probs d) \<noteq> levels then
                  (fail DecodeFailed (''decide_score: engine returned '' @ to_string (length (dn_probs d)) @
                     '' probabilities for '' @ to_string levels @ '' levels.''), a1, w1)
                else
                  (ok (d\<lparr>dn_options := dn_options d @ map (\<lambda>i. to_string_int (mn + int i)) [0..<levels],
                         dn_score := expected_score mn (dn_probs d)\<rparr>), a1, w1)))"

definition decide_yes_no ::
    "('w, 'm) session \<Rightarrow> ('w, 'm) ambient \<Rightarrow> string \<Rightarrow> decide_options \<Rightarrow> arena \<Rightarrow> 'w env \<Rightarrow> fp result \<times> arena \<times> 'w env" where
  "decide_yes_no S amb question opts a w =
     (case run_decide S amb question (''{'' @ quoted ''mode'' @ '':'' @ quoted ''yesno'' @ common_params opts @ ''}'') opts a w of
        (Inl e, a1, w1) \<Rightarrow> (Inl e, a1, w1)
      | (Inr d, a1, w1) \<Rightarrow>
          if length (dn_probs d) \<noteq> 2 then
            (fail DecodeFailed (''decide_yes_no: engine returned '' @ to_string (length (dn_probs d)) @
               '' probabilities instead of 2.''), a1, w1)
          else (ok (dn_probs d ! 0), a1, w1))"

section \<open>Text recognition\<close>

definition ocr ::
    "('w, 'm) session \<Rightarrow> ('w, 'm) ambient \<Rightarrow> media \<Rightarrow> string \<Rightarrow> arena \<Rightarrow> 'w env \<Rightarrow> string result \<times> arena \<times> 'w env" where
  "ocr S amb img prompt a w =
     (if media_path img = [] then (fail InvalidConfig ''ocr: image path must not be empty.'', a, w)
      else if env_cancel w then (fail CancelledCode ''ocr: cancelled.'', a, w)
      else
        let params = (if prompt = [] then [] else ''{'' @ quoted ''prompt'' @ '':'' @ quoted prompt @ ''}'');
            a0 = grown_arena (64 * 1024 + (length params + length (media_path img) + 256 * 1024)) a
        in case infer_task S amb cap_ocr ((task_request [(text_view ''user'' [])\<lparr>mv_media := [img]\<rparr>])\<lparr>req_params_json := params\<rparr>) a0 w of
             (Inl e, a1, w1) \<Rightarrow> (Inl e, a1, w1)
           | (Inr res, a1, w1) \<Rightarrow> (ok (mv_content (resp_message res)), a1, w1))"

section \<open>Shapes of the results\<close>

lemma as_floats_length: "length (as_floats bs) = length bs div 4"
  by (induction bs rule: as_floats.induct) auto

text \<open>All vectors have the size of the first one, which is not empty.\<close>

definition same_size :: "fp list list \<Rightarrow> bool" where
  "same_size vs \<longleftrightarrow> (\<forall>v\<in>set vs. v \<noteq> [] \<and> length v = length (hd vs))"

lemma same_size_snoc:
  "same_size vs \<Longrightarrow> v \<noteq> [] \<Longrightarrow> (vs \<noteq> [] \<Longrightarrow> length v = length (hd vs)) \<Longrightarrow> same_size (vs @ [v])"
  by (cases vs) (auto simp: same_size_def)

lemma take_embeddings_shape:
  "take_embeddings ts out got = Inr (out', got') \<Longrightarrow> same_size out \<Longrightarrow>
   same_size out' \<and> got \<le> got' \<and> length out' = length out + (got' - got)"
proof (induction ts out got rule: take_embeddings.induct)
  case (2 t ts out got)
  show ?case
  proof (cases "td_name t = ''embedding''")
    case True
    let ?v = "l2_normalize (as_floats (td_data t))"
    have size: "\<not> (td_dtype t \<noteq> Float32 \<or> length (td_data t) mod 4 \<noteq> 0 \<or> td_data t = [])"
      "\<not> (out \<noteq> [] \<and> length (as_floats (td_data t)) \<noteq> length (hd out))"
      and rest: "take_embeddings ts (out @ [?v]) (got + 1) = Inr (out', got')"
      using 2(3) True by (simp_all split: if_splits)
    have "length ?v = length (td_data t) div 4" by (simp add: as_floats_length)
    moreover have "length (td_data t) mod 4 = 0" "length (td_data t) \<noteq> 0" using size(1) by auto
    ultimately have "length ?v \<noteq> 0" by presburger
    then have "?v \<noteq> []" by fastforce
    with size(2) 2(4) have "same_size (out @ [?v])" by (intro same_size_snoc) auto
    with 2(2) True size rest show ?thesis by fastforce
  qed (use 2 in simp)
qed simp

lemma embed_loop_shape:
  "embed_loop S amb texts out a w = (Inr vs, a', w') \<Longrightarrow> same_size out \<Longrightarrow>
   same_size vs \<and> length vs = length out + length texts"
proof (induction S amb texts out a w rule: embed_loop.induct)
  case (1 S amb texts out a w)
  show ?case
  proof (cases "texts = []")
    case False
    let ?batch = "take kBatch texts"
    have "\<not> env_cancel w" using 1(2) False by (auto simp: embed_loop.simps [of S amb texts])
    moreover obtain res a1 w1 where res: "infer_task S amb cap_embed (task_request (map (text_view ''user'') ?batch))
        (task_arena (length ?batch) a) w = (Inr res, a1, w1)"
      using 1(2) False calculation by (auto simp: embed_loop.simps [of S amb texts] Let_def split: prod.splits sum.splits)
    moreover obtain out1 where got: "take_embeddings (resp_output_tensors res) out 0 = Inr (out1, length ?batch)"
      using 1(2) False calculation
      by (auto simp: embed_loop.simps [of S amb texts] Let_def split: prod.splits sum.splits if_splits)
    ultimately have loop: "embed_loop S amb (drop kBatch texts) out1 a1 w1 = (Inr vs, a', w')"
      using 1(2) False by (simp add: embed_loop.simps [of S amb texts] Let_def)
    have "same_size out1 \<and> length out1 = length out + length ?batch"
      using take_embeddings_shape [OF got 1(3)] by simp
    with 1(1) [OF False \<open>\<not> env_cancel w\<close> refl refl res [symmetric] refl refl got refl _ loop] show ?thesis by simp
  qed (use 1 in \<open>simp add: embed_loop.simps [of S amb "[]"]\<close>)
qed

lemma embed_shape: "embed S amb texts a w = (Inr vs, a', w') \<Longrightarrow> length vs = length texts \<and> same_size vs"
  using embed_loop_shape [of S amb texts "[]" a w vs a' w'] by (auto simp: embed_def same_size_def split: if_splits)

text \<open>
  C33. When \<open>embed\<close> succeeds it returns one vector per text, in order, all of one size and none empty, whatever tensors
  the engine returned and however the texts were split into batches.
\<close>

theorem embed_one_vector_per_text:
  assumes "embed S amb texts a w = (Inr vs, a', w')"
  shows "length vs = length texts \<and> same_size vs"
  using assms by (rule embed_shape)

text \<open>A session on an engine that performs all tasks and answers with fixed tensors of one dimension.\<close>

definition sample_task_engine :: "(string \<times> u8 list) list \<Rightarrow> unit engine_state" where
  "sample_task_engine tensors =
     \<lparr>es_name = ''sample'', es_caps = 0x1C020, es_flags = 0, es_ready = True,
      es_impl = In_Process
        (\<lambda>req w. (Inr \<lparr>ap_message = \<lparr>am_role = ''assistant'',
              am_parts = map (\<lambda>(name, data). Part_Tensor name 0 [int (length data div 4)] data) tensors,
              am_tool_calls = [], am_tool_call_id = []\<rparr>,
            ap_prompt_tokens = 1, ap_completion_tokens = 0\<rparr>, w)) None None\<rparr>"

definition sample_task_session :: "(string \<times> u8 list) list \<Rightarrow> (unit, in_memory_state) session" where
  "sample_task_session tensors =
     sample_session\<lparr>config := sample_config\<lparr>cfg_provider := Engine\<rparr>, provider_state := Some (sample_task_engine tensors)\<rparr>"

definition sample_env :: "unit env" where
  "sample_env = \<lparr>env_user = (), env_cancel = False\<rparr>"

theorem embed_one_vector_per_text_witness:
  "\<exists>vs a w. embed (sample_task_session [(''embedding'', [0, 0, 0x80, 0x3F]), (''embedding'', [0, 0, 0, 0x40])]) ambient_default
      [''one'', ''two''] (arena_new 0 0) sample_env = (Inr vs, a, w) \<and> length vs = 2 \<and> same_size vs"
proof -
  let ?S = "sample_task_session [(''embedding'', [0, 0, 0x80, 0x3F]), (''embedding'', [0, 0, 0, 0x40])]"
  let ?run = "infer_task ?S ambient_default cap_embed (task_request [text_view ''user'' ''one'', text_view ''user'' ''two''])
    (arena_new 65536 196608) sample_env"
  have arena: "task_arena 2 (arena_new 0 0) = arena_new 65536 196608"
    by (simp add: task_arena_def grown_arena_def arena_new_def reset_def kArenaBase_def kArenaPerText_def heap_block_def)
  have "case ?run of (Inl _, _) \<Rightarrow> False
    | (Inr res, _) \<Rightarrow> map (\<lambda>t. (td_name t, td_dtype t, length (td_data t))) (resp_output_tensors res) =
        [(''embedding'', Float32, 4), (''embedding'', Float32, 4)]" by code_simp
  then obtain res t1 t2 a w where inf: "?run = (Inr res, a, w)" and ts: "resp_output_tensors res = [t1, t2]"
    "td_name t1 = ''embedding''" "td_name t2 = ''embedding''" "td_dtype t1 = Float32" "td_dtype t2 = Float32"
    "length (td_data t1) = 4" "length (td_data t2) = 4"
    by (auto split: prod.splits sum.splits)
  have "take_embeddings (resp_output_tensors res) [] 0 = Inr ([l2_normalize (as_floats (td_data t1)), l2_normalize (as_floats (td_data t2))], 2)"
    using ts by (auto simp: as_floats_length)
  with inf arena have "embed_loop ?S ambient_default [''one'', ''two''] [] (arena_new 0 0) sample_env =
      (Inr [l2_normalize (as_floats (td_data t1)), l2_normalize (as_floats (td_data t2))], a, w)"
    by (simp add: embed_loop.simps [of ?S ambient_default "[''one'', ''two'']"] embed_loop.simps [of ?S ambient_default "[]"]
        kBatch_def sample_env_def numeral_2_eq_2)
  then have run: "embed ?S ambient_default [''one'', ''two''] (arena_new 0 0) sample_env =
      (Inr [l2_normalize (as_floats (td_data t1)), l2_normalize (as_floats (td_data t2))], a, w)" by (simp add: embed_def)
  from embed_one_vector_per_text [OF run] run show ?thesis by auto
qed

lemma take_scores_length: "take_scores n ts = Inr scores \<Longrightarrow> length scores = n"
  by (auto simp: take_scores_def split: option.splits if_splits)

lemma rerank_loop_length:
  "rerank_loop S amb query docs out a w = (Inr scores, a', w') \<Longrightarrow> length scores = length out + length docs"
proof (induction S amb query docs out a w rule: rerank_loop.induct)
  case (1 S amb query docs out a w)
  show ?case
  proof (cases "docs = []")
    case False
    let ?batch = "take kBatch docs"
    let ?msgs = "text_view ''user'' query # map (\<lambda>d. text_view ''user'' (if d = [] then '' '' else d)) ?batch"
    have "\<not> env_cancel w" using 1(2) False by (auto simp: rerank_loop.simps [of S amb query docs])
    moreover obtain res a1 w1 where res: "infer_task S amb cap_rerank (task_request ?msgs) (task_arena (length ?batch) a) w =
        (Inr res, a1, w1)"
      using 1(2) False calculation by (auto simp: rerank_loop.simps [of S amb query docs] Let_def split: prod.splits sum.splits)
    moreover obtain sc where sc: "take_scores (length ?batch) (resp_output_tensors res) = Inr sc"
      using 1(2) False calculation
      by (auto simp: rerank_loop.simps [of S amb query docs] Let_def split: prod.splits sum.splits)
    ultimately have loop: "rerank_loop S amb query (drop kBatch docs) (out @ sc) a1 w1 = (Inr scores, a', w')"
      using 1(2) False by (simp add: rerank_loop.simps [of S amb query docs] Let_def)
    from 1(1) [OF False \<open>\<not> env_cancel w\<close> refl refl res [symmetric] refl refl sc loop] take_scores_length [OF sc]
    show ?thesis by simp
  qed (use 1 in \<open>simp add: rerank_loop.simps [of S amb query "[]"]\<close>)
qed

lemma rerank_length: "rerank S amb query docs a w = (Inr scores, a', w') \<Longrightarrow> length scores = length docs"
  using rerank_loop_length [of S amb query docs "[]"] by (auto simp: rerank_def split: if_splits)

section \<open>The choice of a decision\<close>

text \<open>The loop keeps the first of the greatest values seen so far.\<close>

definition first_best :: "fp list \<Rightarrow> nat \<Rightarrow> nat \<Rightarrow> bool" where
  "first_best probs n c \<longleftrightarrow> c < n \<and> (\<forall>i<n. \<not> fp_greater (probs ! i) (probs ! c)) \<and> (\<forall>i<c. fp_greater (probs ! c) (probs ! i))"

lemma first_best_step:
  assumes best: "first_best probs n c" and numbers: "\<forall>i\<le>n. probs ! i \<noteq> NaN"
  shows "first_best probs (Suc n) (if fp_greater (probs ! n) (probs ! c) then n else c)"
proof (cases "fp_greater (probs ! n) (probs ! c)")
  case True
  have "fp_greater (probs ! n) (probs ! i)" if "i < n" for i
  proof -
    have c: "c < n" "\<not> fp_greater (probs ! i) (probs ! c)" using best that by (auto simp: first_best_def)
    then have "probs ! n \<noteq> NaN" "probs ! c \<noteq> NaN" "probs ! i \<noteq> NaN" using numbers that by auto
    then show ?thesis using fp_greater_weak True c(2) by blast
  qed
  then have "\<forall>i<n. fp_greater (probs ! n) (probs ! i)" "\<forall>i<n. \<not> fp_greater (probs ! i) (probs ! n)"
    using fp_greater_trans [of "probs ! n" _ "probs ! n"] by auto
  with True show ?thesis unfolding first_best_def by (auto simp: less_Suc_eq)
next
  case False
  with best show ?thesis by (auto simp: first_best_def less_Suc_eq)
qed

lemma best_choice_first:
  assumes "probs \<noteq> []" "\<forall>p\<in>set probs. p \<noteq> NaN"
  shows "first_best probs (length probs) (best_choice probs)"
proof -
  let ?f = "\<lambda>i choice. if fp_greater (probs ! i) (probs ! choice) then i else choice"
  have "first_best probs (Suc n) (fold ?f [1..<Suc n] 0)" if "n < length probs" for n
    using that
  proof (induction n)
    case (Suc n)
    have numbers: "\<forall>i\<le>Suc n. probs ! i \<noteq> NaN" using assms(2) Suc.prems by auto
    have IH: "first_best probs (Suc n) (fold ?f [1..<Suc n] 0)" using Suc.IH Suc.prems by simp
    have "fold ?f [1..<Suc (Suc n)] 0 = ?f (Suc n) (fold ?f [1..<Suc n] 0)"
      by (subst upt_Suc_append) simp_all
    then show ?case using first_best_step [OF IH numbers] by (simp only:)
  qed (simp add: first_best_def)
  from this [of "length probs - 1"] assms(1) show ?thesis by (simp add: best_choice_def)
qed

lemma read_decision_probs:
  assumes "read_decision ts = Inr d"
  shows "dn_probs d \<noteq> [] \<and> dn_choice d = best_choice (dn_probs d) \<and> dn_confidence d = dn_probs d ! dn_choice d \<and> dn_options d = []"
proof (cases "find (\<lambda>t. td_name t = ''probs'') ts")
  case (Some t)
  with assms have t: "td_data t \<noteq> []" "length (td_data t) mod 4 = 0" and d: "dn_probs d = as_floats (td_data t)"
    "dn_choice d = best_choice (dn_probs d)" "dn_confidence d = dn_probs d ! dn_choice d" "dn_options d = []"
    by (auto simp: read_decision_def Let_def split: if_splits)
  have "length (td_data t) \<noteq> 0" using t(1) by simp
  then have "length (dn_probs d) \<noteq> 0" using t(2) d(1) as_floats_length [of "td_data t"] by presburger
  with d show ?thesis by auto
qed (use assms in \<open>simp add: read_decision_def\<close>)

text \<open>
  C34. A decision has one probability per option and names the first option with the greatest probability: no option
  is more likely, and every earlier one is less likely.
\<close>

theorem decide_picks_best:
  assumes "decide S amb question options opts a w = (Inr d, a', w')" "\<forall>p\<in>set (dn_probs d). p \<noteq> NaN"
  shows "dn_options d = options \<and> length (dn_probs d) = length options \<and> dn_choice d < length options \<and>
    dn_confidence d = dn_probs d ! dn_choice d \<and>
    (\<forall>i<length options. \<not> fp_greater (dn_probs d ! i) (dn_confidence d)) \<and>
    (\<forall>i<dn_choice d. fp_greater (dn_confidence d) (dn_probs d ! i))"
proof -
  obtain ts d0 where d0: "read_decision ts = Inr d0" "d = d0\<lparr>dn_options := options\<rparr>" "length (dn_probs d0) = length options"
    using assms(1) by (auto simp: decide_def run_decide_def Let_def split: if_splits prod.splits sum.splits bool.splits)
  with read_decision_probs [OF d0(1)] best_choice_first [of "dn_probs d0"] assms(2) show ?thesis
    by (auto simp: first_best_def)
qed

theorem decide_picks_best_witness:
  "\<exists>d a w. decide (sample_task_session [(''probs'', [0, 0, 0x80, 0x3E, 0, 0, 0x40, 0x3F])]) ambient_default ''Which?''
      [''left'', ''right''] \<lparr>do_media = [], do_system = [], do_instructions = True\<rparr> (arena_new 0 0) sample_env = (Inr d, a, w) \<and>
     dn_choice d = 1 \<and> dn_options d = [''left'', ''right'']"
proof -
  let ?S = "sample_task_session [(''probs'', [0, 0, 0x80, 0x3E, 0, 0, 0x40, 0x3F])]"
  let ?opts = "\<lparr>do_media = [], do_system = [], do_instructions = True\<rparr>"
  let ?params = "''{'' @ quoted ''mode'' @ '':'' @ quoted ''choice'' @ '','' @ quoted ''options'' @ '':['' @
    sep_by '','' (map quoted [''left'', ''right'']) @ '']'' @ common_params ?opts @ ''}''"
  let ?run = "infer_task ?S ambient_default cap_decide
    ((task_request [(text_view ''user'' ''Which?'')\<lparr>mv_media := []\<rparr>])\<lparr>req_params_json := ?params\<rparr>) (arena_new 65536 65586) sample_env"
  have len: "length ?params = 44" by code_simp
  then have arena: "grown_arena (kArenaBase + length ?params + length ''Which?'' + length (do_system ?opts)) (arena_new 0 0) =
      arena_new 65536 65586"
    unfolding len by (simp add: grown_arena_def arena_new_def reset_def kArenaBase_def heap_block_def)
  have "case ?run of (Inl _, _) \<Rightarrow> False
    | (Inr res, _) \<Rightarrow> (case read_decision (resp_output_tensors res) of Inl _ \<Rightarrow> False
        | Inr d \<Rightarrow> dn_choice d = 1 \<and> dn_probs d = [Fin False 8388608 (-25), Fin False 12582912 (-24)])" by code_simp
  then obtain res a w d where inf: "?run = (Inr res, a, w)" and d: "read_decision (resp_output_tensors res) = Inr d"
    "dn_choice d = 1" "dn_probs d = [Fin False 8388608 (-25), Fin False 12582912 (-24)]"
    by (auto split: prod.splits sum.splits)
  have "take_span sizeof_media_view 0 (arena_new 65536 65586) = (True, arena_new 65536 65586)" by (simp add: take_span_def allocate_span_def span_size_def)
  then have "run_decide ?S ambient_default ''Which?'' ?params ?opts (arena_new 0 0) sample_env = (Inr d, a, w)"
    using inf d(1) unfolding run_decide_def arena Let_def by (simp add: sample_env_def)
  then have run: "decide ?S ambient_default ''Which?'' [''left'', ''right''] ?opts (arena_new 0 0) sample_env =
      (Inr (d\<lparr>dn_options := [''left'', ''right'']\<rparr>), a, w)"
    unfolding decide_def Let_def by (simp add: d(3))
  have "\<forall>p\<in>set (dn_probs (d\<lparr>dn_options := [''left'', ''right'']\<rparr>)). p \<noteq> NaN" by (simp add: d(3))
  from decide_picks_best [OF run this] run d(2) show ?thesis by auto
qed

end
