(* ===== verification/Rag.thy ===== *)
theory Rag
  imports Chunker Engine_Tasks
begin

text \<open>
  The retrieval pipeline, \<^verbatim>\<open>src/core/rag/rag_pipeline.cpp\<close>: a document is cut into chunks, the chunks are embedded
  and stored under the ids \<open><doc_id>#<n>\<close>; a query is embedded, the store is searched and the hits are
  optionally reordered by a second engine. \<open>ri_store\<close> is the table \<open>ops_of\<close> returns (the caller's or the
  in-memory store), \<open>ri_state\<close> the state behind \<open>RagIndex::state\<close>.

  The loop that erases the chunks of a document ends when an id is missing, which a store need not ever
  report: it is a partial function, and returns on every store that keeps the contract of \<^verbatim>\<open>Vector_Store\<close>.
\<close>

section \<open>The source's functions\<close>

record 'v rag_index_data =
  ri_store :: "'v vector_store_ops"
  ri_config :: vector_store_config
  ri_state :: "'v option"

record rag_hit =
  rh_id :: string
  rh_doc_id :: string
  rh_text :: string
  rh_metadata_json :: string
  rh_similarity :: fp
  rh_score :: fp

text \<open>The arena of the thread and the environments of the two engines.\<close>

record ('w, 'x) rag_world =
  rw_arena :: arena
  rw_env :: "'w env"
  rw_rerank_env :: "'x env"

definition kMaxToolHits :: int where "kMaxToolHits = 50"

definition open_rag_index :: "'v rag_index_data \<Rightarrow> int \<Rightarrow> unit result \<times> 'v rag_index_data" where
  "open_rag_index idx dimensions =
     (let ops = ri_store idx in
      case vo_open ops of
        None \<Rightarrow> (fail InvalidConfig ''RagIndex::store is missing one of open/upsert/query_topk/erase/clear.'', idx)
      | Some do_open \<Rightarrow>
          if vo_upsert ops = None \<or> vo_query_topk ops = None \<or> vo_erase ops = None \<or> vo_clear ops = None then
            (fail InvalidConfig ''RagIndex::store is missing one of open/upsert/query_topk/erase/clear.'', idx)
          else if dimensions > 0 \<and> vc_dimensions (ri_config idx) > 0 \<and> vc_dimensions (ri_config idx) \<noteq> dimensions then
            (fail InvalidConfig (''RagIndex: embeddings have '' @ to_string_int dimensions @
               '' dimensions but config.dimensions is '' @ to_string_int (vc_dimensions (ri_config idx)) @ ''.''), idx)
          else
            let c = (if dimensions > 0 then (ri_config idx)\<lparr>vc_dimensions := dimensions\<rparr> else ri_config idx) in
            if vc_dimensions c \<le> 0 then (fail InvalidConfig ''RagIndex: dimensions must be > 0.'', idx)
            else case do_open c of
                   Inl e \<Rightarrow> (Inl e, idx)
                 | Inr s \<Rightarrow>
                     (ok (), idx\<lparr>ri_config := (ri_config idx)\<lparr>vc_dimensions := vc_dimensions c\<rparr>, ri_state := Some s\<rparr>))"

definition ensure_open :: "'v rag_index_data \<Rightarrow> nat \<Rightarrow> unit result \<times> 'v rag_index_data" where
  "ensure_open idx dimensions = (if ri_state idx \<noteq> None then (ok (), idx) else open_rag_index idx (int dimensions))"

definition chunk_id :: "string \<Rightarrow> nat \<Rightarrow> string" where
  "chunk_id doc_id n = doc_id @ CHR ''#'' # to_string n"

partial_function (option) erase_loop ::
    "(string \<Rightarrow> 'v \<Rightarrow> bool result \<times> 'v) \<Rightarrow> string \<Rightarrow> nat \<Rightarrow> 'v \<Rightarrow> (unit result \<times> 'v) option" where
  "erase_loop erase doc_id n s =
     (case erase (chunk_id doc_id n) s of
        (Inl e, s1) \<Rightarrow> Some (Inl e, s1)
      | (Inr removed, s1) \<Rightarrow> if removed then erase_loop erase doc_id (n + 1) s1 else Some (ok (), s1))"

definition erase_chunks_from :: "'v rag_index_data \<Rightarrow> string \<Rightarrow> nat \<Rightarrow> (unit result \<times> 'v rag_index_data) option" where
  "erase_chunks_from idx doc_id start =
     (case ri_state idx of
        None \<Rightarrow> Some (ok (), idx)
      | Some s \<Rightarrow>
          map_option (\<lambda>(r, s'). (r, idx\<lparr>ri_state := Some s'\<rparr>)) (erase_loop (the (vo_erase (ri_store idx))) doc_id start s))"

definition chunk_metadata :: "string \<Rightarrow> nat \<Rightarrow> view \<Rightarrow> string" where
  "chunk_metadata doc_id n chunk =
     ''{'' @ quoted ''doc_id'' @ '':'' @ quoted doc_id @ '','' @ quoted ''chunk'' @ '':'' @ to_string n @ '','' @
     quoted ''offset'' @ '':'' @ to_string (fst chunk) @ ''}''"

text \<open>The loop of \<open>rag_index\<close> over the chunks, from chunk \<open>n\<close> on.\<close>

fun upsert_chunks ::
    "(string \<Rightarrow> string \<Rightarrow> fp list \<Rightarrow> string \<Rightarrow> 'v \<Rightarrow> unit result \<times> 'v) \<Rightarrow> string \<Rightarrow> string \<Rightarrow> fp list list \<Rightarrow> nat \<Rightarrow>
     view list \<Rightarrow> 'v \<Rightarrow> unit result \<times> 'v" where
  "upsert_chunks upsert doc_id txt vectors n [] s = (ok (), s)"
| "upsert_chunks upsert doc_id txt vectors n (chunk # chunks) s =
     (case upsert (chunk_id doc_id n) (view_text txt chunk) (vectors ! n) (chunk_metadata doc_id n chunk) s of
        (Inl e, s1) \<Rightarrow> (Inl e, s1)
      | (Inr _, s1) \<Rightarrow> upsert_chunks upsert doc_id txt vectors (n + 1) chunks s1)"

definition rag_index ::
    "('w, 'm) session \<Rightarrow> ('w, 'm) ambient \<Rightarrow> 'v rag_index_data \<Rightarrow> string \<Rightarrow> string \<Rightarrow> chunk_options \<Rightarrow> ('w, 'x) rag_world \<Rightarrow>
     (unit result \<times> 'v rag_index_data \<times> ('w, 'x) rag_world) option" where
  "rag_index S amb idx doc_id txt options world =
     (if doc_id = [] then Some (fail InvalidConfig ''rag_index: doc_id must not be empty.'', idx, world)
      else case chunk_text txt options of
        Inl e \<Rightarrow> Some (Inl e, idx, world)
      | Inr chunks \<Rightarrow>
          if chunks = [] then map_option (\<lambda>(r, idx'). (r, idx', world)) (erase_chunks_from idx doc_id 0)
          else case embed S amb (map (view_text txt) chunks) (rw_arena world) (rw_env world) of (vectors, a, w) \<Rightarrow>
            let world1 = world\<lparr>rw_arena := a, rw_env := w\<rparr> in
            case vectors of
              Inl e \<Rightarrow> Some (Inl e, idx, world1)
            | Inr vs \<Rightarrow>
                (case ensure_open idx (length (hd vs)) of
                   (Inl e, idx1) \<Rightarrow> Some (Inl e, idx1, world1)
                 | (Inr _, idx1) \<Rightarrow>
                     (case upsert_chunks (the (vo_upsert (ri_store idx1))) doc_id txt vs 0 chunks (the (ri_state idx1)) of
                        (Inl e, s) \<Rightarrow> Some (Inl e, idx1\<lparr>ri_state := Some s\<rparr>, world1)
                      | (Inr _, s) \<Rightarrow>
                          map_option (\<lambda>(r, idx'). (r, idx', world1))
                            (erase_chunks_from (idx1\<lparr>ri_state := Some s\<rparr>) doc_id (length chunks)))))"

definition rag_erase :: "'v rag_index_data \<Rightarrow> string \<Rightarrow> (unit result \<times> 'v rag_index_data) option" where
  "rag_erase idx doc_id = erase_chunks_from idx doc_id 0"

text \<open>The part of an id before its last \<open>#\<close>.\<close>

definition doc_of_id :: "string \<Rightarrow> string" where
  "doc_of_id i = (if CHR ''#'' \<in> set i then rev (tl (dropWhile (\<lambda>c. c \<noteq> CHR ''#'') (rev i))) else i)"

definition to_rag_hit :: "vector_hit \<Rightarrow> rag_hit" where
  "to_rag_hit h =
     \<lparr>rh_id = vh_id h, rh_doc_id = doc_of_id (vh_id h), rh_text = vh_text h, rh_metadata_json = vh_metadata_json h,
      rh_similarity = vh_score h, rh_score = vh_score h\<rparr>"

definition ranked_before :: "rag_hit \<Rightarrow> rag_hit \<Rightarrow> bool" where
  "ranked_before a b \<longleftrightarrow> fp_greater (rh_score a) (rh_score b)"

definition rank_hits :: "rag_hit list \<Rightarrow> fp list \<Rightarrow> rag_hit list" where
  "rank_hits hits scores = sort_by ranked_before (map (\<lambda>(h, sc). h\<lparr>rh_score := sc\<rparr>) (zip hits scores))"

definition rag_query ::
    "('w, 'm) session \<Rightarrow> ('w, 'm) ambient \<Rightarrow> 'v rag_index_data \<Rightarrow> string \<Rightarrow> int \<Rightarrow> ('x, 'n) session option \<Rightarrow>
     ('x, 'n) ambient \<Rightarrow> ('w, 'x) rag_world \<Rightarrow> rag_hit list result \<times> 'v rag_index_data \<times> ('w, 'x) rag_world" where
  "rag_query S amb idx query k reranker amb' world =
     (if query = [] then (fail InvalidConfig ''rag_query: query must not be empty.'', idx, world)
      else if k \<le> 0 then (ok [], idx, world)
      else case embed S amb [query] (rw_arena world) (rw_env world) of (vectors, a, w) \<Rightarrow>
        let world1 = world\<lparr>rw_arena := a, rw_env := w\<rparr> in
        case vectors of
          Inl e \<Rightarrow> (Inl e, idx, world1)
        | Inr vs \<Rightarrow>
            (case ensure_open idx (length (hd vs)) of
               (Inl e, idx1) \<Rightarrow> (Inl e, idx1, world1)
             | (Inr _, idx1) \<Rightarrow>
                 (let fetch = (if reranker = None then k else max (4 * k) 20) in
                  case the (vo_query_topk (ri_store idx1)) (hd vs) fetch (the (ri_state idx1)) of
                    Inl e \<Rightarrow> (Inl e, idx1, world1)
                  | Inr found \<Rightarrow>
                      (let hits = map to_rag_hit found in
                       case reranker of
                         None \<Rightarrow> (ok (take (nat k) hits), idx1, world1)
                       | Some R \<Rightarrow>
                           if hits = [] then (ok (take (nat k) hits), idx1, world1)
                           else case rerank R amb' query (map rh_text hits) (rw_arena world1) (rw_rerank_env world1) of (scores, a2, x2) \<Rightarrow>
                             let world2 = world1\<lparr>rw_arena := a2, rw_rerank_env := x2\<rparr> in
                             case scores of
                               Inl e \<Rightarrow> (Inl e, idx1, world2)
                             | Inr sc \<Rightarrow> (ok (take (nat k) (rank_hits hits sc)), idx1, world2)))))"

section \<open>The knowledge tool\<close>

fun rag_tool_fields :: "(string \<times> json) list \<Rightarrow> string \<Rightarrow> int \<Rightarrow> string \<times> int" where
  "rag_tool_fields [] query k = (query, k)"
| "rag_tool_fields ((key, v) # fs) query k =
     (if key = ''query'' \<and> get_string (Some v) \<noteq> None then rag_tool_fields fs (the (get_string (Some v))) k
      else if key = ''k'' \<and> get_int64 (Some v) \<noteq> None \<and> the (get_int64 (Some v)) > 0 then
        rag_tool_fields fs query (min (the (get_int64 (Some v))) kMaxToolHits)
      else rag_tool_fields fs query k)"

definition rag_tool_arguments :: "(string \<Rightarrow> json option) \<Rightarrow> string \<Rightarrow> int \<Rightarrow> string \<times> int" where
  "rag_tool_arguments parse arguments k =
     (case get_object (parse arguments) of Some fs \<Rightarrow> rag_tool_fields fs [] k | None \<Rightarrow> (arguments, k))"

text \<open>\<open>snprintf\<close> of a score with four decimals into 32 bytes.\<close>

definition pad_decimals :: "nat \<Rightarrow> string" where
  "pad_decimals n = replicate (4 - length (to_string n)) (CHR ''0'') @ to_string n"

definition print_scaled :: "bool \<Rightarrow> nat \<Rightarrow> string" where
  "print_scaled s n = (if s then ''-'' else []) @ to_string (n div 10000) @ ''.'' @ pad_decimals (n mod 10000)"

definition print_score :: "fp \<Rightarrow> string" where
  "print_score x =
     take 31 (case x of
        NaN \<Rightarrow> ''nan''
      | Inf s \<Rightarrow> if s then ''-inf'' else ''inf''
      | Fin s m e \<Rightarrow>
          print_scaled s (nat (if e \<ge> 0 then m * 10000 * 2 ^ nat e
            else round_quotient (m * 10000 div 2 ^ nat (- e)) (m * 10000 mod 2 ^ nat (- e)) (2 ^ nat (- e)) False)))"

definition rag_hit_json :: "rag_hit \<Rightarrow> string" where
  "rag_hit_json h =
     ''{'' @ quoted ''id'' @ '':'' @ quoted (rh_id h) @ '','' @ quoted ''score'' @ '':'' @ print_score (rh_score h) @ '','' @
     quoted ''text'' @ '':'' @ quoted (rh_text h) @ ''}''"

definition rag_tool_query ::
    "(string \<Rightarrow> json option) \<Rightarrow> ('w, 'm) session \<Rightarrow> ('w, 'm) ambient \<Rightarrow> 'v rag_index_data \<Rightarrow> ('x, 'n) session option \<Rightarrow>
     ('x, 'n) ambient \<Rightarrow> int \<Rightarrow> string \<Rightarrow> ('w, 'x) rag_world \<Rightarrow> string result \<times> 'v rag_index_data \<times> ('w, 'x) rag_world" where
  "rag_tool_query parse S amb idx reranker amb' default_k arguments world =
     (case rag_tool_arguments parse arguments default_k of (query, k) \<Rightarrow>
      if query = [] then (fail InvalidConfig (''search_knowledge: '' @ quoted ''query'' @ '' is required.''), idx, world)
      else case rag_query S amb idx query k reranker amb' world of
             (Inl e, idx1, world1) \<Rightarrow> (Inl e, idx1, world1)
           | (Inr hits, idx1, world1) \<Rightarrow> (ok (''['' @ sep_by '','' (map rag_hit_json hits) @ '']''), idx1, world1))"

section \<open>Ids of chunks\<close>

lemma hash_not_in_number [simp]: "CHR ''#'' \<notin> set (to_string n)"
  by (rule digit_not_in_to_string) (simp add: is_digit_def)

lemma chunk_id_inj [simp]: "chunk_id d n = chunk_id e m \<longleftrightarrow> d = e \<and> n = m"
proof
  assume "chunk_id d n = chunk_id e m"
  then have "d = e \<and> to_string n = to_string m"
    unfolding chunk_id_def
    by (intro append_sep_inject [of "CHR ''#''"]) simp_all
  then show "d = e \<and> n = m" by simp
qed simp

lemma doc_of_chunk_id [simp]: "doc_of_id (chunk_id d n) = d"
proof -
  have "x \<noteq> CHR ''#''" if "x \<in> set (to_string n)" for x using that by auto
  then have "dropWhile (\<lambda>c. c \<noteq> CHR ''#'') (rev (to_string n) @ CHR ''#'' # rev d) = CHR ''#'' # rev d"
    by (subst dropWhile_append2) simp_all
  then show ?thesis by (simp add: doc_of_id_def chunk_id_def)
qed

text \<open>
  A document is stored as the chunks \<open>0..<n\<close>, without a gap: then erasing from some chunk on removes all later
  ones.
\<close>

definition stored_as :: "(string \<rightharpoonup> 'e) \<Rightarrow> string \<Rightarrow> nat \<Rightarrow> bool" where
  "stored_as c doc_id n \<longleftrightarrow> (\<forall>k. chunk_id doc_id k \<in> dom c \<longleftrightarrow> k < n)"

definition without_chunks :: "(string \<rightharpoonup> 'e) \<Rightarrow> string \<Rightarrow> nat \<Rightarrow> nat \<Rightarrow> (string \<rightharpoonup> 'e)" where
  "without_chunks c doc_id lo hi = (\<lambda>key. if key \<in> chunk_id doc_id ` {lo..<hi} then None else c key)"

lemma without_chunks_step:
  "lo < hi \<Longrightarrow> without_chunks (c(chunk_id doc_id lo := None)) doc_id (Suc lo) hi = without_chunks c doc_id lo hi"
  by (rule ext) (auto simp: without_chunks_def image_iff Suc_le_eq le_less)

lemma without_chunks_id:
  "without_chunks c doc_id lo hi (chunk_id d k) = (if d = doc_id \<and> lo \<le> k \<and> k < hi then None else c (chunk_id d k))"
  by (auto simp: without_chunks_def)

lemma without_chunks_other: "key \<notin> range (chunk_id doc_id) \<Longrightarrow> without_chunks c doc_id lo hi key = c key"
  by (auto simp: without_chunks_def)

text \<open>
  The effect of erasing from chunk \<open>n\<close> on: a run of chunks is removed, and when it finished it ended at the first
  missing one.
\<close>

definition erased_from :: "(string \<rightharpoonup> 'e) \<Rightarrow> string \<Rightarrow> nat \<Rightarrow> bool \<Rightarrow> (string \<rightharpoonup> 'e) \<Rightarrow> bool" where
  "erased_from c doc_id n finished c' \<longleftrightarrow>
     (\<exists>m\<ge>n. (\<forall>k. n \<le> k \<and> k < m \<longrightarrow> chunk_id doc_id k \<in> dom c) \<and> c' = without_chunks c doc_id n m \<and>
       (finished \<longrightarrow> chunk_id doc_id m \<notin> dom c))"

lemma erased_none: "(finished \<longrightarrow> chunk_id doc_id n \<notin> dom c) \<Longrightarrow> erased_from c doc_id n finished c"
  unfolding erased_from_def by (intro exI [of _ n]) (auto simp: without_chunks_def)

lemma erased_step:
  assumes "chunk_id doc_id n \<in> dom c" "erased_from (c(chunk_id doc_id n := None)) doc_id (Suc n) finished c'"
  shows "erased_from c doc_id n finished c'"
proof -
  obtain m where m: "Suc n \<le> m" "\<forall>k. Suc n \<le> k \<and> k < m \<longrightarrow> chunk_id doc_id k \<in> dom (c(chunk_id doc_id n := None))"
    "c' = without_chunks (c(chunk_id doc_id n := None)) doc_id (Suc n) m"
    "finished \<longrightarrow> chunk_id doc_id m \<notin> dom (c(chunk_id doc_id n := None))"
    using assms(2) unfolding erased_from_def by blast
  have "chunk_id doc_id k \<in> dom c" if "n \<le> k" "k < m" for k using that m(2) assms(1) by (cases "k = n") auto
  then show ?thesis
    using m without_chunks_step [of n m c doc_id] unfolding erased_from_def by (intro exI [of _ m]) auto
qed

text \<open>The effect of storing chunks from chunk \<open>n\<close> on.\<close>

fun with_chunks :: "(string \<rightharpoonup> string \<times> string \<times> fp list) \<Rightarrow> string \<Rightarrow> string \<Rightarrow> fp list list \<Rightarrow> nat \<Rightarrow> view list \<Rightarrow>
    (string \<rightharpoonup> string \<times> string \<times> fp list)" where
  "with_chunks c doc_id txt vs n [] = c"
| "with_chunks c doc_id txt vs n (ch # chs) =
     with_chunks (c(chunk_id doc_id n \<mapsto> (view_text txt ch, chunk_metadata doc_id n ch, l2_normalize (vs ! n)))) doc_id txt vs (n + 1) chs"

lemma with_chunks_id:
  "with_chunks c doc_id txt vs n cs (chunk_id d k) =
     (if d = doc_id \<and> n \<le> k \<and> k < n + length cs
      then Some (view_text txt (cs ! (k - n)), chunk_metadata doc_id k (cs ! (k - n)), l2_normalize (vs ! k))
      else c (chunk_id d k))"
  by (induction cs arbitrary: c n) (auto simp: nth_Cons' Suc_le_eq)

lemma with_chunks_other: "key \<notin> range (chunk_id doc_id) \<Longrightarrow> with_chunks c doc_id txt vs n cs key = c key"
  by (induction cs arbitrary: c n) auto

section \<open>What a store that keeps its contract holds\<close>

context vector_store
begin

lemma erase_loop_spec:
  assumes "inv s"
  shows "\<exists>r s'. erase_loop erase doc_id n s = Some (r, s') \<and> inv s' \<and>
    erased_from (contents s) doc_id n (is_ok r) (contents s')"
  using assms
proof (induction "card (dom (contents s))" arbitrary: s n rule: less_induct)
  case less
  obtain r s1 where run: "erase (chunk_id doc_id n) s = (r, s1)" by fastforce
  have inv: "inv s1" using erase_inv [OF less.prems, of "chunk_id doc_id n"] run by simp
  have contents: "contents s1 = (if is_ok r then (contents s)(chunk_id doc_id n := None) else contents s)"
    using erase_contents [OF less.prems, of "chunk_id doc_id n"] run by simp
  show ?case
  proof (cases r)
    case (Inl e)
    with run inv contents show ?thesis by (auto simp: erase_loop.simps [of erase doc_id n s] intro: erased_none)
  next
    case (Inr removed)
    then have removed: "removed \<longleftrightarrow> chunk_id doc_id n \<in> dom (contents s)" using erase_result [OF less.prems] run by simp
    show ?thesis
    proof (cases removed)
      case False
      with removed have "(contents s)(chunk_id doc_id n := None) = contents s" by auto
      with False Inr removed run inv contents show ?thesis
        by (auto simp: erase_loop.simps [of erase doc_id n s] intro: erased_none)
    next
      case True
      have "card (dom (contents s1)) < card (dom (contents s))"
        using True removed Inr contents card_Diff1_less [OF finite_contents [OF less.prems], of "chunk_id doc_id n"] by simp
      from less.hyps [OF this inv, of "Suc n"] True removed Inr contents run show ?thesis
        by (auto simp: erase_loop.simps [of erase doc_id n s] intro: erased_step)
    qed
  qed
qed

lemma upsert_chunks_spec:
  assumes "inv s" "upsert_chunks upsert doc_id txt vs n cs s = (r, s')"
  shows "inv s' \<and> (\<exists>j\<le>length cs. contents s' = with_chunks (contents s) doc_id txt vs n (take j cs) \<and> (is_ok r \<longrightarrow> j = length cs))"
  using assms
proof (induction cs arbitrary: s n)
  case (Cons ch chs)
  let ?put = "upsert (chunk_id doc_id n) (view_text txt ch) (vs ! n) (chunk_metadata doc_id n ch) s"
  obtain r1 s1 where put: "?put = (r1, s1)" by fastforce
  have inv: "inv s1" using upsert_inv [OF Cons.prems(1)] put by (metis snd_conv)
  have contents: "contents s1 = (if is_ok r1 then (contents s)(chunk_id doc_id n \<mapsto>
      (view_text txt ch, chunk_metadata doc_id n ch, l2_normalize (vs ! n))) else contents s)"
    using upsert_contents [OF Cons.prems(1), of "chunk_id doc_id n" "view_text txt ch" "vs ! n" "chunk_metadata doc_id n ch"] put by simp
  show ?case
  proof (cases r1)
    case (Inl e)
    with Cons.prems(2) put inv contents show ?thesis by (intro conjI exI [of _ 0]) auto
  next
    case (Inr u)
    with Cons.prems(2) put have rest: "upsert_chunks upsert doc_id txt vs (n + 1) chs s1 = (r, s')" by simp
    from Cons.IH [OF inv rest] Inr obtain j where "inv s'" "j \<le> length chs"
      "contents s' = with_chunks (contents s1) doc_id txt vs (n + 1) (take j chs)" "is_ok r \<longrightarrow> j = length chs" by blast
    with Inr contents show ?thesis by (intro conjI exI [of _ "Suc j"]) simp_all
  qed
qed auto

end

lemma erase_loop_ok:
  assumes "\<And>key s. is_ok (fst (erase key s))" "erase_loop erase doc_id n s = Some (r, s')"
  shows "is_ok r"
proof -
  have "(\<forall>key s. is_ok (fst (erase key s))) \<longrightarrow> is_ok (fst (r, s'))"
    using assms(2)
  proof (rule erase_loop.raw_induct [where P = "\<lambda>erase doc_id n s p. (\<forall>key s. is_ok (fst (erase key s))) \<longrightarrow> is_ok (fst p)", rotated])
    fix loop and erase :: "string \<Rightarrow> 'a \<Rightarrow> bool result \<times> 'a" and doc_id n s p
    assume IH: "\<And>erase doc_id n (s :: 'a) p. loop erase doc_id n s = Some p \<Longrightarrow> (\<forall>key s. is_ok (fst (erase key s))) \<longrightarrow> is_ok (fst p)"
      and run: "(case erase (chunk_id doc_id n) s of (Inl e, s1) \<Rightarrow> Some (Inl e, s1)
        | (Inr removed, s1) \<Rightarrow> if removed then loop erase doc_id (n + 1) s1 else Some (ok (), s1)) = Some p"
    show "(\<forall>key s. is_ok (fst (erase key s))) \<longrightarrow> is_ok (fst p)"
    proof
      assume ok: "\<forall>key s. is_ok (fst (erase key s))"
      then obtain removed s1 where "erase (chunk_id doc_id n) s = (Inr removed, s1)"
        by (metis is_ok_iff prod.collapse)
      with IH [of erase doc_id "n + 1" s1 p] ok run show "is_ok (fst p)" by (cases removed) auto
    qed
  qed
  with assms(1) show ?thesis by simp
qed

section \<open>An index on the in-memory store\<close>

definition mem_index_ok :: "in_memory_vectors rag_index_data \<Rightarrow> bool" where
  "mem_index_ok idx \<longleftrightarrow> ri_store idx = in_memory_vector_store \<and> (\<forall>s. ri_state idx = Some s \<longrightarrow> vectors_ok s)"

definition held :: "in_memory_vectors rag_index_data \<Rightarrow> string \<rightharpoonup> string \<times> string \<times> fp list" where
  "held idx = (case ri_state idx of None \<Rightarrow> Map.empty | Some s \<Rightarrow> stored s)"

lemma ensure_open_mem:
  assumes "mem_index_ok idx" "ensure_open idx d = (r, idx')"
  shows "mem_index_ok idx' \<and> held idx' = held idx \<and> (is_ok r \<longrightarrow> ri_state idx' \<noteq> None)"
proof (cases "ri_state idx")
  case None
  show ?thesis
  proof (cases r)
    case (Inl e)
    with assms None have "idx' = idx"
      by (auto simp: ensure_open_def open_rag_index_def Let_def split: option.splits if_splits sum.splits)
    with Inl assms show ?thesis by simp
  next
    case (Inr u)
    with assms None obtain c s where "mem_open c = Inr s" "ri_state idx' = Some s" "ri_store idx' = ri_store idx"
      by (auto simp: ensure_open_def open_rag_index_def mem_index_ok_def in_memory_vector_store_def Let_def
          split: option.splits if_splits sum.splits)
    with mem_open_ok assms None show ?thesis by (auto simp: mem_index_ok_def held_def)
  qed
qed (use assms in \<open>auto simp: ensure_open_def\<close>)

lemma erase_chunks_mem:
  assumes "mem_index_ok idx"
  shows "\<exists>idx'. erase_chunks_from idx doc_id n = Some (ok (), idx') \<and> mem_index_ok idx' \<and> erased_from (held idx) doc_id n True (held idx')"
proof (cases "ri_state idx")
  case None
  with assms show ?thesis by (auto simp: erase_chunks_from_def held_def intro: erased_none)
next
  case (Some s)
  with assms have ok: "vectors_ok s" and erase: "the (vo_erase (ri_store idx)) = mem_erase"
    by (simp_all add: mem_index_ok_def in_memory_vector_store_def)
  obtain r s' where loop: "erase_loop mem_erase doc_id n s = Some (r, s')" "vectors_ok s'"
    "erased_from (stored s) doc_id n (is_ok r) (stored s')"
    using mem_store.erase_loop_spec [OF ok] by blast
  have "is_ok (fst (mem_erase key t))" for key t by (auto simp: mem_erase_def Let_def split: option.split)
  then have "r = ok ()" using erase_loop_ok [OF _ loop(1)] by (auto simp: is_ok_iff)
  with loop Some assms erase show ?thesis by (auto simp: erase_chunks_from_def held_def mem_index_ok_def)
qed

lemma upsert_chunks_mem:
  assumes "mem_index_ok idx" "ri_state idx \<noteq> None"
    and "upsert_chunks (the (vo_upsert (ri_store idx))) doc_id txt vs 0 cs (the (ri_state idx)) = (r, s)"
  shows "mem_index_ok (idx\<lparr>ri_state := Some s\<rparr>) \<and>
    (\<exists>j\<le>length cs. stored s = with_chunks (held idx) doc_id txt vs 0 (take j cs) \<and> (is_ok r \<longrightarrow> j = length cs))"
proof -
  obtain s0 where s0: "ri_state idx = Some s0" "vectors_ok s0" "the (vo_upsert (ri_store idx)) = mem_upsert"
    using assms(1,2) by (auto simp: mem_index_ok_def in_memory_vector_store_def)
  with mem_store.upsert_chunks_spec [OF s0(2), of doc_id "txt" vs 0 cs r s] assms show ?thesis
    by (simp add: mem_index_ok_def held_def)
qed

text \<open>How many chunks a document has after storing and after erasing.\<close>

lemma stored_as_with_chunks:
  "stored_as c doc_id n \<Longrightarrow> stored_as (with_chunks c doc_id txt vs 0 cs) doc_id (max n (length cs))"
  by (auto simp: stored_as_def with_chunks_id domIff less_max_iff_disj)

lemma stored_as_erased:
  assumes "stored_as c doc_id n" "erased_from c doc_id j True c'" "j \<le> n"
  shows "stored_as c' doc_id j" "k < j \<Longrightarrow> c' (chunk_id doc_id k) = c (chunk_id doc_id k)"
    "key \<notin> range (chunk_id doc_id) \<Longrightarrow> c' key = c key"
proof -
  obtain m where m: "j \<le> m" "c' = without_chunks c doc_id j m" "chunk_id doc_id m \<notin> dom c"
    using assms(2) unfolding erased_from_def by blast
  then have "n \<le> m" using assms(1) by (simp add: stored_as_def not_less)
  then show "stored_as c' doc_id j"
    using assms(1,3) unfolding m(2) by (auto simp: stored_as_def without_chunks_id domIff)
  show "c' (chunk_id doc_id k) = c (chunk_id doc_id k)" if "k < j"
    using that by (simp add: m(2) without_chunks_id)
  show "c' key = c key" if "key \<notin> range (chunk_id doc_id)"
    using that by (simp add: m(2) without_chunks_other)
qed

text \<open>The index after a document was replaced by the chunks \<open>cs\<close> with the vectors \<open>vs\<close>.\<close>

definition document_is :: "(string \<rightharpoonup> string \<times> string \<times> fp list) \<Rightarrow> string \<Rightarrow> string \<Rightarrow> view list \<Rightarrow> fp list list \<Rightarrow> bool" where
  "document_is c doc_id txt cs vs \<longleftrightarrow>
     length vs = length cs \<and> stored_as c doc_id (length cs) \<and>
     (\<forall>k<length cs. c (chunk_id doc_id k) =
       Some (view_text txt (cs ! k), chunk_metadata doc_id k (cs ! k), l2_normalize (vs ! k)))"

definition others_kept :: "string \<Rightarrow> (string \<rightharpoonup> 'e) \<Rightarrow> (string \<rightharpoonup> 'e) \<Rightarrow> bool" where
  "others_kept doc_id c c' \<longleftrightarrow> (\<forall>key. key \<notin> range (chunk_id doc_id) \<longrightarrow> c' key = c key)"

lemma replace_chunks_mem:
  assumes ok: "mem_index_ok idx" and old: "stored_as (held idx) doc_id n" and len: "length vs = length cs"
    and state: "ri_state idx \<noteq> None"
    and put: "upsert_chunks (the (vo_upsert (ri_store idx))) doc_id txt vs 0 cs (the (ri_state idx)) = (r, s)"
  shows "mem_index_ok (idx\<lparr>ri_state := Some s\<rparr>)" "\<exists>n. stored_as (stored s) doc_id n"
    "others_kept doc_id (held idx) (stored s)"
    "is_ok r \<Longrightarrow> \<exists>idx'. erase_chunks_from (idx\<lparr>ri_state := Some s\<rparr>) doc_id (length cs) = Some (ok (), idx') \<and> mem_index_ok idx' \<and>
      document_is (held idx') doc_id txt cs vs \<and> others_kept doc_id (held idx) (held idx')"
proof -
  obtain j where j: "j \<le> length cs" "stored s = with_chunks (held idx) doc_id txt vs 0 (take j cs)" "is_ok r \<longrightarrow> j = length cs"
    using upsert_chunks_mem [OF ok state put] by blast
  show idx: "mem_index_ok (idx\<lparr>ri_state := Some s\<rparr>)" using upsert_chunks_mem [OF ok state put] by blast
  have as: "stored_as (stored s) doc_id (max n j)" using stored_as_with_chunks [OF old, of "txt" vs "take j cs"] j(1,2) by simp
  then show "\<exists>n. stored_as (stored s) doc_id n" by blast
  show kept: "others_kept doc_id (held idx) (stored s)" by (simp add: others_kept_def j(2) with_chunks_other)
  show "\<exists>idx'. erase_chunks_from (idx\<lparr>ri_state := Some s\<rparr>) doc_id (length cs) = Some (ok (), idx') \<and> mem_index_ok idx' \<and>
      document_is (held idx') doc_id txt cs vs \<and> others_kept doc_id (held idx) (held idx')" if "is_ok r"
  proof -
    obtain idx' where erase: "erase_chunks_from (idx\<lparr>ri_state := Some s\<rparr>) doc_id (length cs) = Some (ok (), idx')" "mem_index_ok idx'"
      "erased_from (stored s) doc_id (length cs) True (held idx')"
      using erase_chunks_mem [OF idx, of doc_id "length cs"] by (auto simp: held_def)
    have "document_is (held idx') doc_id txt cs vs"
      using stored_as_erased(1,2) [OF as erase(3)] that j len by (simp add: document_is_def with_chunks_id)
    moreover have "others_kept doc_id (held idx) (held idx')"
      using stored_as_erased(3) [OF as erase(3)] that j kept by (simp add: others_kept_def)
    ultimately show ?thesis using erase by blast
  qed
qed

text \<open>The vectors are those the engine returned for the chunks.\<close>

definition embedded :: "('w, 'm) session \<Rightarrow> ('w, 'm) ambient \<Rightarrow> string \<Rightarrow> view list \<Rightarrow> ('w, 'x) rag_world \<Rightarrow> fp list list \<Rightarrow> bool" where
  "embedded S amb txt cs world vs \<longleftrightarrow>
     (if cs = [] then vs = [] else fst (embed S amb (map (view_text txt) cs) (rw_arena world) (rw_env world)) = Inr vs)"

definition index_result ::
    "('w, 'm) session \<Rightarrow> ('w, 'm) ambient \<Rightarrow> ('w, 'x) rag_world \<Rightarrow> in_memory_vectors rag_index_data \<Rightarrow> string \<Rightarrow> string \<Rightarrow>
     chunk_options \<Rightarrow> (unit result \<times> in_memory_vectors rag_index_data \<times> ('w, 'x) rag_world) option \<Rightarrow> bool" where
  "index_result S amb world idx doc_id txt options res \<longleftrightarrow>
     (\<exists>r idx' world'. res = Some (r, idx', world') \<and> mem_index_ok idx' \<and>
      others_kept doc_id (held idx) (held idx') \<and> (\<exists>n'. stored_as (held idx') doc_id n') \<and>
      (is_ok r \<longrightarrow> (\<exists>cs vs. chunk_text txt options = Inr cs \<and> embedded S amb txt cs world vs \<and> document_is (held idx') doc_id txt cs vs)))"

lemma index_result_chunks:
  assumes ok: "mem_index_ok idx" and old: "stored_as (held idx) doc_id n"
    and cs: "doc_id \<noteq> []" "chunk_text txt options = Inr cs" and nonempty: "cs \<noteq> []"
  shows "index_result S amb world idx doc_id txt options (rag_index S amb idx doc_id txt options world)"
proof -
  obtain vr a w where embed: "embed S amb (map (view_text txt) cs) (rw_arena world) (rw_env world) = (vr, a, w)" by (metis prod_cases3)
  show ?thesis
  proof (cases vr)
    case (Inl e)
    with nonempty cs embed ok old show ?thesis by (auto simp: index_result_def rag_index_def others_kept_def Let_def)
  next
    case (Inr vs)
    have len: "length vs = length cs" using embed_shape [of S amb _ _ _ vs] embed Inr by fastforce
    obtain r1 idx1 where opened: "ensure_open idx (length (hd vs)) = (r1, idx1)" by fastforce
    note open_ok = ensure_open_mem [OF ok opened]
    obtain r2 s where put: "upsert_chunks (the (vo_upsert (ri_store idx1))) doc_id txt vs 0 cs (the (ri_state idx1)) = (r2, s)" by fastforce
    have old1: "stored_as (held idx1) doc_id n" using open_ok old by simp
    consider (closed) e where "r1 = Inl e" | (refused) e where "r1 = ok ()" "r2 = Inl e" | (stored) "r1 = ok ()" "r2 = ok ()"
      by (cases r1; cases r2) auto
    then show ?thesis
    proof cases
      case closed
      with nonempty cs embed Inr opened open_ok old1 show ?thesis by (auto simp: index_result_def rag_index_def others_kept_def Let_def)
    next
      case refused
      then have "ri_state idx1 \<noteq> None" using open_ok by simp
      note stored = replace_chunks_mem(1,2,3) [OF _ old1 len this put]
      with nonempty cs embed Inr opened open_ok refused put show ?thesis by (auto simp: index_result_def rag_index_def held_def Let_def)
    next
      case stored
      then have "ri_state idx1 \<noteq> None" using open_ok by simp
      note stored' = replace_chunks_mem(4) [OF _ old1 len this put]
      with nonempty cs embed Inr opened open_ok stored put show ?thesis by (fastforce simp: index_result_def rag_index_def document_is_def embedded_def Let_def)
    qed
  qed
qed

text \<open>
  C22. Indexing a document on the in-memory store always returns. When it succeeds the document is stored as exactly
  its chunks in order, with their text, their metadata and their vectors, whatever was stored for it before; when it
  fails the document still is a run of chunks without a gap. In every case no entry of another document changes.
\<close>

theorem rag_index_replaces:
  assumes ok: "mem_index_ok idx" and old: "stored_as (held idx) doc_id n"
  shows "\<exists>r idx' world'. rag_index S amb idx doc_id txt options world = Some (r, idx', world') \<and> mem_index_ok idx' \<and>
    others_kept doc_id (held idx) (held idx') \<and> (\<exists>n'. stored_as (held idx') doc_id n') \<and>
    (is_ok r \<longrightarrow> (\<exists>cs vs. chunk_text txt options = Inr cs \<and> embedded S amb txt cs world vs \<and> document_is (held idx') doc_id txt cs vs))"
proof (cases "doc_id = [] \<or> \<not> is_ok (chunk_text txt options)")
  case True
  with assms show ?thesis by (cases "chunk_text txt options") (auto simp: rag_index_def others_kept_def)
next
  case False
  then obtain cs where cs: "doc_id \<noteq> []" "chunk_text txt options = Inr cs" by (auto simp: is_ok_iff)
  show ?thesis
  proof (cases "cs = []")
    case True
    obtain idx' where erase: "erase_chunks_from idx doc_id 0 = Some (ok (), idx')" "mem_index_ok idx'"
      "erased_from (held idx) doc_id 0 True (held idx')" using erase_chunks_mem [OF ok] by blast
    with stored_as_erased [OF old erase(3)] True cs show ?thesis
      by (auto simp: rag_index_def others_kept_def document_is_def embedded_def)
  qed (use index_result_chunks [OF assms cs] in \<open>simp add: index_result_def\<close>)
qed

theorem rag_index_replaces_witness:
  "\<exists>r idx' world'. rag_index (sample_task_session []) ambient_default
      \<lparr>ri_store = in_memory_vector_store, ri_config = \<lparr>vc_path = [], vc_name = ''rag'', vc_dimensions = 1\<rparr>, ri_state = Some
        \<lparr>vs_dims = 1, vs_entries = [\<lparr>ve_id = ''d#0'', ve_text = ''old'', ve_metadata_json = ''{}''\<rparr>], vs_vectors = [fp_one], vs_by_id = [''d#0'' \<mapsto> 0]\<rparr>\<rparr>
      ''d'' [] \<lparr>co_size = 10, co_overlap = 0\<rparr> \<lparr>rw_arena = arena_new 0 0, rw_env = sample_env, rw_rerank_env = sample_env\<rparr> = Some (r, idx', world') \<and>
    is_ok r \<and> mem_index_ok idx' \<and> stored_as (held idx') ''d'' 0"
proof -
  let ?s = "\<lparr>vs_dims = 1, vs_entries = [\<lparr>ve_id = ''d#0'', ve_text = ''old'', ve_metadata_json = ''{}''\<rparr>], vs_vectors = [fp_one],
    vs_by_id = [''d#0'' \<mapsto> 0]\<rparr>"
  let ?idx = "\<lparr>ri_store = in_memory_vector_store, ri_config = \<lparr>vc_path = [], vc_name = ''rag'', vc_dimensions = 1\<rparr>, ri_state = Some ?s\<rparr>"
  let ?w = "\<lparr>rw_arena = arena_new 0 0, rw_env = sample_env, rw_rerank_env = sample_env\<rparr>"
  have ok: "mem_index_ok ?idx" by (auto simp: mem_index_ok_def vectors_ok_def split: if_splits)
  have id: "''d#0'' = chunk_id ''d'' 0" by code_simp
  have old: "stored_as (held ?idx) ''d'' 1"
    unfolding stored_as_def held_def by (auto simp: stored_def id domIff split: if_splits)
  have chunks: "chunk_text [] \<lparr>co_size = 10, co_overlap = 0\<rparr> = Inr []" by code_simp
  obtain r idx' world' where run: "rag_index (sample_task_session []) ambient_default ?idx ''d'' [] \<lparr>co_size = 10, co_overlap = 0\<rparr> ?w = Some (r, idx', world')"
    "mem_index_ok idx'" "is_ok r \<longrightarrow> (\<exists>cs vs. chunk_text [] \<lparr>co_size = 10, co_overlap = 0\<rparr> = Inr cs \<and>
      document_is (held idx') ''d'' [] cs vs)"
    using rag_index_replaces [OF ok old, of "sample_task_session []" ambient_default "[]" "\<lparr>co_size = 10, co_overlap = 0\<rparr>" ?w] by blast
  have "is_ok r"
    using run(1) erase_chunks_mem [OF ok, of "''d''" 0] chunks by (auto simp: rag_index_def)
  with run chunks show ?thesis by (auto simp: document_is_def)
qed

section \<open>Queries\<close>

lemma rank_hits_ids:
  assumes "length scores = length hits"
  shows "length (rank_hits hits scores) = length hits" "rh_id ` set (rank_hits hits scores) = rh_id ` set hits"
    "distinct (map rh_id hits) \<Longrightarrow> distinct (map rh_id (rank_hits hits scores))"
    "h \<in> set (rank_hits hits scores) \<Longrightarrow> \<exists>g\<in>set hits. \<exists>sc\<in>set scores. h = g\<lparr>rh_score := sc\<rparr>"
proof -
  let ?xs = "map (\<lambda>(h, sc). h\<lparr>rh_score := sc\<rparr>) (zip hits scores)"
  have ids: "map rh_id ?xs = map rh_id hits" using assms by (induction scores hits rule: list_induct2) auto
  show "length (rank_hits hits scores) = length hits" using assms by (simp add: rank_hits_def)
  show "rh_id ` set (rank_hits hits scores) = rh_id ` set hits"
    using arg_cong [OF ids, of set] by (simp add: rank_hits_def image_image)
  have "inj_on rh_id (set ?xs)" "distinct ?xs" if "distinct (map rh_id hits)"
    using that ids by (metis distinct_map)+
  then show "distinct (map rh_id (rank_hits hits scores))" if "distinct (map rh_id hits)"
    using that unfolding rank_hits_def by (simp add: distinct_map del: set_map)
  show "\<exists>g\<in>set hits. \<exists>sc\<in>set scores. h = g\<lparr>rh_score := sc\<rparr>" if "h \<in> set (rank_hits hits scores)"
    using that by (auto simp: rank_hits_def dest: set_zip_leftD set_zip_rightD)
qed

lemma rank_hits_sorted:
  assumes "NaN \<notin> set scores"
  shows "sorted_wrt (\<lambda>a b. \<not> fp_greater (rh_score b) (rh_score a)) (rank_hits hits scores)"
proof -
  have "weak_order ranked_before (set (map (\<lambda>(h, sc). h\<lparr>rh_score := sc\<rparr>) (zip hits scores)))"
    unfolding weak_order_def ranked_before_def
  proof (intro conjI ballI impI)
    fix x y :: rag_hit assume "fp_greater (rh_score x) (rh_score y)"
    then show "\<not> fp_greater (rh_score y) (rh_score x)" using fp_greater_trans fp_greater_irrefl by blast
  next
    fix x y z :: rag_hit
    assume "x \<in> set (map (\<lambda>(h, sc). h\<lparr>rh_score := sc\<rparr>) (zip hits scores))"
      "y \<in> set (map (\<lambda>(h, sc). h\<lparr>rh_score := sc\<rparr>) (zip hits scores))"
      "z \<in> set (map (\<lambda>(h, sc). h\<lparr>rh_score := sc\<rparr>) (zip hits scores))" and gt: "fp_greater (rh_score x) (rh_score y)"
    then have "rh_score x \<noteq> NaN" "rh_score y \<noteq> NaN" "rh_score z \<noteq> NaN"
      using assms by (auto dest: set_zip_rightD)
    with gt show "fp_greater (rh_score x) (rh_score z) \<or> fp_greater (rh_score z) (rh_score y)" using fp_greater_weak by blast
  qed
  from sort_by_sorted [OF this] show ?thesis by (simp add: rank_hits_def ranked_before_def)
qed

text \<open>What every answer to a query is: at most \<open>k\<close> different entries of the index.\<close>

definition hits_of_index :: "(string \<rightharpoonup> string \<times> string \<times> fp list) \<Rightarrow> rag_hit list \<Rightarrow> bool" where
  "hits_of_index c hits \<longleftrightarrow>
     distinct (map rh_id hits) \<and>
     (\<forall>h\<in>set hits. (\<exists>v. c (rh_id h) = Some (rh_text h, rh_metadata_json h, v)) \<and> rh_doc_id h = doc_of_id (rh_id h))"

lemma hits_of_index_take: "hits_of_index c hits \<Longrightarrow> hits_of_index c (take n hits)"
  by (auto simp: hits_of_index_def simp flip: take_map dest: in_set_takeD)

lemma hits_of_index_rank:
  assumes "hits_of_index c hits" "length scores = length hits"
  shows "hits_of_index c (rank_hits hits scores)"
  using assms rank_hits_ids(3,4) [OF assms(2)] unfolding hits_of_index_def by fastforce

lemma query_store_hits:
  assumes "mem_index_ok idx" "ri_state idx \<noteq> None" "the (vo_query_topk (ri_store idx)) v k (the (ri_state idx)) = Inr found"
  shows "hits_of_index (held idx) (map to_rag_hit found)"
proof -
  obtain s where s: "ri_state idx = Some s" "vectors_ok s" "the (vo_query_topk (ri_store idx)) = mem_query"
    using assms(1,2) by (auto simp: mem_index_ok_def in_memory_vector_store_def)
  have "map rh_id (map to_rag_hit found) = map vh_id found" by (simp add: to_rag_hit_def)
  with mem_query_hits [OF s(2), of v k found] s assms(3) show ?thesis
    by (auto simp: hits_of_index_def held_def to_rag_hit_def simp del: map_map)
qed

lemma rag_query_cases:
  assumes "rag_query S amb idx query k reranker amb' world = (Inr hits, idx', world')" "0 < k"
  obtains vs found where "ensure_open idx (length (hd vs)) = (ok (), idx')"
    "the (vo_query_topk (ri_store idx')) (hd vs) (if reranker = None then k else max (4 * k) 20) (the (ri_state idx')) = Inr found"
    "(reranker = None \<or> found = []) \<and> hits = take (nat k) (map to_rag_hit found) \<or>
     (\<exists>R sc a x a' x'. reranker = Some R \<and> rerank R amb' query (map (rh_text \<circ> to_rag_hit) found) a x = (Inr sc, a', x') \<and>
       hits = take (nat k) (rank_hits (map to_rag_hit found) sc))"
proof -
  obtain er a w where embed: "embed S amb [query] (rw_arena world) (rw_env world) = (er, a, w)" by (metis prod_cases3)
  note step = assms(1) [unfolded rag_query_def embed]
  obtain vs where er: "er = Inr vs" using step assms(2) by (cases er) (simp_all add: Let_def split: if_splits)
  obtain r idx1 where opened: "ensure_open idx (length (hd vs)) = (r, idx1)" by fastforce
  have r: "r = ok ()" using step assms(2) er opened by (cases r) (simp_all add: Let_def split: if_splits)
  note step = step [unfolded er]
  obtain found where found: "the (vo_query_topk (ri_store idx1)) (hd vs) (if reranker = None then k else max (4 * k) 20) (the (ri_state idx1)) = Inr found"
    using step assms(2) opened r by (cases "the (vo_query_topk (ri_store idx1)) (hd vs) (if reranker = None then k else max (4 * k) 20) (the (ri_state idx1))")
      (simp_all add: Let_def split: if_splits)
  have "idx' = idx1 \<and> ((reranker = None \<or> found = []) \<and> hits = take (nat k) (map to_rag_hit found) \<or>
     (\<exists>R sc a x a' x'. reranker = Some R \<and> rerank R amb' query (map (rh_text \<circ> to_rag_hit) found) a x = (Inr sc, a', x') \<and>
       hits = take (nat k) (rank_hits (map to_rag_hit found) sc)))"
    using step assms(2) opened r found by (auto simp: Let_def split: if_splits option.splits prod.splits sum.splits) blast
  with opened r found show ?thesis by (intro that [of vs found]) auto
qed


text \<open>A query whose embedding is nearest to the second entry of the sample store.\<close>

lemma sample_query_embedding:
  "\<exists>v a w. embed (sample_task_session [(''embedding'', [0, 0, 0, 0, 0, 0, 0, 0x40])]) ambient_default [''q''] (arena_new 0 0) sample_env =
     (Inr [v], a, w) \<and> map vh_id (projr (mem_query v 1 sample_vectors)) = [''b''] \<and> is_ok (mem_query v 1 sample_vectors)"
proof -
  let ?S = "sample_task_session [(''embedding'', [0, 0, 0, 0, 0, 0, 0, 0x40])]"
  let ?run = "infer_task ?S ambient_default cap_embed (task_request [text_view ''user'' ''q'']) (arena_new 65536 131072) sample_env"
  have arena: "task_arena (Suc 0) (arena_new 0 0) = arena_new 65536 131072"
    by (simp add: task_arena_def grown_arena_def arena_new_def reset_def kArenaBase_def kArenaPerText_def heap_block_def)
  have "case ?run of (Inl _, _) \<Rightarrow> False
    | (Inr res, _) \<Rightarrow> map (\<lambda>t. (td_name t, td_dtype t, td_data t)) (resp_output_tensors res) =
        [(''embedding'', Float32, [0, 0, 0, 0, 0, 0, 0, 0x40])]" by code_simp
  then obtain res t a w where inf: "?run = (Inr res, a, w)" and t: "resp_output_tensors res = [t]"
    "td_name t = ''embedding''" "td_dtype t = Float32" "td_data t = [0, 0, 0, 0, 0, 0, 0, 0x40]"
    by (auto split: prod.splits sum.splits)
  let ?v = "l2_normalize (as_floats [0, 0, 0, 0, 0, 0, 0, 0x40])"
  have "take_embeddings (resp_output_tensors res) [] 0 = Inr ([?v], 1)" using t by simp
  with inf arena have "embed_loop ?S ambient_default [''q''] [] (arena_new 0 0) sample_env = (Inr [?v], a, w)"
    by (simp add: embed_loop.simps [of ?S ambient_default "[''q'']"] embed_loop.simps [of ?S ambient_default "[]"]
        kBatch_def sample_env_def)
  moreover have "map vh_id (projr (mem_query ?v 1 sample_vectors)) = [''b'']" "is_ok (mem_query ?v 1 sample_vectors)" by code_simp+
  ultimately show ?thesis by (auto simp: embed_def)
qed


end
